(* ===== verification/Prelude.thy ===== *)
theory Prelude
  imports Main "HOL-Library.Word" "HOL-Library.Multiset"
begin

text \<open>
  What the components of the development share: the error values of the C++ code, the
  result type with its sequencing, the operations of \<open>std::unordered_map\<close> the sources use,
  and three interfaces for step relations (what the events so far determine, what a step
  preserves, why steps run out).
\<close>

section \<open>Errors and results\<close>

text \<open>
  Undefined behaviour and exceptions are values. \<open>Undefined\<close> stands for behaviour the
  C++ standard (or the library's documented precondition) leaves undefined; the other
  constructors are the exceptions of the standard library the sources can raise.
\<close>

datatype ub = Empty_vector | Empty_optional | Null_pointer | Dangling_pointer | Signed_overflow

datatype cpp_error =
    Undefined ub
  | Length_error
  | Invalid_argument
  | Out_of_range
  | Bad_optional_access
  | Runtime_error string

type_synonym 'a res = "cpp_error + 'a"

fun bind_res :: "'a res \<Rightarrow> ('a \<Rightarrow> 'b res) \<Rightarrow> 'b res" where
  "bind_res (Inl e) f = Inl e"
| "bind_res (Inr x) f = f x"

text \<open>What it takes for a sequence of operations to return, or to fail.\<close>

named_theorems res_eq

lemma bind_res_eq_Inr [res_eq]: "bind_res r f = Inr y \<longleftrightarrow> (\<exists>x. r = Inr x \<and> f x = Inr y)"
  by (cases r) auto

lemma bind_res_eq_Inl [res_eq]:
  "bind_res r f = Inl e \<longleftrightarrow> r = Inl e \<or> (\<exists>x. r = Inr x \<and> f x = Inl e)"
  by (cases r) auto

lemma bind_res_assoc: "bind_res (bind_res r f) g = bind_res r (\<lambda>x. bind_res (f x) g)"
  by (cases r) auto

lemma bind_res_cong [fundef_cong]:
  "r = r' \<Longrightarrow> (\<And>x. r' = Inr x \<Longrightarrow> f x = g x) \<Longrightarrow> bind_res r f = bind_res r' g"
  by (cases r') auto

text \<open>An operation applied to every element of a list, stopping at the first error.\<close>

fun fold_res :: "('a \<Rightarrow> 's \<Rightarrow> 's res) \<Rightarrow> 'a list \<Rightarrow> 's \<Rightarrow> 's res" where
  "fold_res f [] s = Inr s"
| "fold_res f (x # xs) s = bind_res (f x s) (fold_res f xs)"

lemma fold_res_append: "fold_res f (xs @ ys) s = bind_res (fold_res f xs s) (fold_res f ys)"
  by (induction xs arbitrary: s) (auto simp: bind_res_assoc intro: bind_res_cong)

lemma fold_res_Inr_invariant:
  "fold_res f xs s = Inr t \<Longrightarrow> P s \<Longrightarrow> (\<And>x u v. x \<in> set xs \<Longrightarrow> P u \<Longrightarrow> f x u = Inr v \<Longrightarrow> P v) \<Longrightarrow> P t"
  by (induction xs arbitrary: s) (auto simp: bind_res_eq_Inr)

lemma count_list_remove1:
  "count_list (remove1 p ps) q = count_list ps q - (if q = p then 1 else 0)"
  by (induction ps) (auto simp: count_list_0_iff)

section \<open>Machine words\<close>

lemma unat_word64_less: "unat (w :: 64 word) < 18446744073709551616"
  using unsigned_less [where ?'a = nat and w = w] by simp

lemma unat_word64_max: "unat (- 1 :: 64 word) = 18446744073709551615"
  by (simp add: unsigned_minus_1_eq_mask mask_eq_exp_minus_1)

lemma unat_of_nat64: "k < 18446744073709551616 \<Longrightarrow> unat (word_of_nat k :: 64 word) = k"
  by (simp add: unsigned_of_nat take_bit_nat_eq_self)

section \<open>The operations of a hash map\<close>

text \<open>
  \<open>std::unordered_map\<close> as a partial function. \<open>emplace\<close> keeps an element that is
  already there, \<open>operator[]\<close> followed by an assignment replaces it.
\<close>

definition umap_emplace :: "'k \<Rightarrow> 'v \<Rightarrow> ('k \<rightharpoonup> 'v) \<Rightarrow> ('k \<rightharpoonup> 'v)" where
  "umap_emplace k v m = (case m k of None \<Rightarrow> m(k \<mapsto> v) | Some _ \<Rightarrow> m)"

definition umap_assign :: "'k \<Rightarrow> 'v \<Rightarrow> ('k \<rightharpoonup> 'v) \<Rightarrow> ('k \<rightharpoonup> 'v)" where
  "umap_assign k v m = m(k \<mapsto> v)"

definition umap_erase :: "'k \<Rightarrow> ('k \<rightharpoonup> 'v) \<Rightarrow> ('k \<rightharpoonup> 'v)" where
  "umap_erase k m = m(k := None)"

definition umap_count :: "'k \<Rightarrow> ('k \<rightharpoonup> 'v) \<Rightarrow> nat" where
  "umap_count k m = (case m k of None \<Rightarrow> 0 | Some _ \<Rightarrow> 1)"

text \<open>
  Registering values under keys, where the first registration of a key is the one that
  counts.
\<close>

locale registration =
  fixes find :: "'r \<Rightarrow> 'k \<Rightarrow> 'v option"
    and register :: "'k \<Rightarrow> 'v \<Rightarrow> 'r \<Rightarrow> 'r"
  assumes find_register:
      "find (register k v r) j = (if j = k \<and> find r k = None then Some v else find r j)"
begin

lemma find_fold_register:
  "find (fold (\<lambda>(k, v). register k v) kvs r) j =
     (case find r j of Some v \<Rightarrow> Some v | None \<Rightarrow> map_of kvs j)"
proof (induction kvs arbitrary: r)
  case Nil
  then show ?case by (simp split: option.split)
next
  case (Cons kv kvs)
  obtain k v where "kv = (k, v)" by (cases kv)
  with Cons.IH [of "register k v r"] show ?case
    by (auto simp: find_register split: option.split)
qed

lemma register_again: "find r k = Some w \<Longrightarrow> find (register k v r) = find r"
  by (auto simp: fun_eq_iff find_register)

end

locale hash_map =
  fixes lookup :: "'m \<Rightarrow> 'k \<Rightarrow> 'v option"
    and emplace :: "'k \<Rightarrow> 'v \<Rightarrow> 'm \<Rightarrow> 'm"
    and assign :: "'k \<Rightarrow> 'v \<Rightarrow> 'm \<Rightarrow> 'm"
    and erase :: "'k \<Rightarrow> 'm \<Rightarrow> 'm"
  assumes lookup_emplace:
      "lookup (emplace k v m) j = (if j = k \<and> lookup m k = None then Some v else lookup m j)"
    and lookup_assign: "lookup (assign k v m) j = (if j = k then Some v else lookup m j)"
    and lookup_erase: "lookup (erase k m) j = (if j = k then None else lookup m j)"
begin

lemma erase_assign: "lookup (erase k (assign k v m)) = lookup (erase k m)"
  by (auto simp: fun_eq_iff lookup_erase lookup_assign)

lemma assign_frame: "j \<noteq> k \<Longrightarrow> lookup (assign k v m) j = lookup m j"
  by (simp add: lookup_assign)

lemma erase_frame: "j \<noteq> k \<Longrightarrow> lookup (erase k m) j = lookup m j"
  by (simp add: lookup_erase)

end

sublocale hash_map \<subseteq> registration lookup emplace
  by unfold_locales (rule lookup_emplace)

interpretation umap: hash_map "\<lambda>m. m" umap_emplace umap_assign umap_erase
  by unfold_locales
    (auto simp: umap_emplace_def umap_assign_def umap_erase_def split: option.splits)

lemma umap_count_pos: "umap_count k m \<noteq> 0 \<longleftrightarrow> k \<in> dom m"
  by (auto simp: umap_count_def split: option.splits)

section \<open>Runs of a step relation\<close>

inductive runs :: "('s \<Rightarrow> 'e \<Rightarrow> 's \<Rightarrow> bool) \<Rightarrow> 's \<Rightarrow> 'e list \<Rightarrow> 's \<Rightarrow> bool" for step where
  runs_nil: "runs step s [] s"
| runs_cons: "step s e t \<Longrightarrow> runs step t es u \<Longrightarrow> runs step s (e # es) u"

inductive_cases runs_nilE: "runs step s [] t"
inductive_cases runs_consE: "runs step s (e # es) t"

lemma runs_Nil_iff [simp]: "runs step s [] t \<longleftrightarrow> s = t"
  by (auto elim: runs_nilE intro: runs_nil)

lemma runs_Cons_iff: "runs step s (e # es) u \<longleftrightarrow> (\<exists>t. step s e t \<and> runs step t es u)"
  by (auto elim: runs_consE intro: runs_cons)

lemma runs_append: "runs step s (es @ fs) u \<longleftrightarrow> (\<exists>t. runs step s es t \<and> runs step t fs u)"
  by (induction es arbitrary: s) (auto simp: runs_Cons_iff)

lemma runs_restrict:
  "runs step s es t \<Longrightarrow> (\<And>e. e \<in> set es \<Longrightarrow> P e) \<Longrightarrow> runs (\<lambda>s e t. step s e t \<and> P e) s es t"
  by (induction rule: runs.induct) (auto intro: runs.intros)

text \<open>
  An invariant that speaks of the events so far and of the state they led to.
\<close>

locale trace_invariant =
  fixes step :: "'s \<Rightarrow> 'e \<Rightarrow> 's \<Rightarrow> bool" and inv :: "'e list \<Rightarrow> 's \<Rightarrow> bool"
  assumes step_extends: "step s e t \<Longrightarrow> inv es s \<Longrightarrow> inv (es @ [e]) t"
begin

lemma runs_extend: "runs step s fs t \<Longrightarrow> inv es s \<Longrightarrow> inv (es @ fs) t"
proof (induction arbitrary: es rule: runs.induct)
  case (runs_nil s)
  then show ?case by simp
next
  case (runs_cons s e t fs u)
  then have "inv ((es @ [e]) @ fs) u" by (blast intro: step_extends)
  then show ?case by simp
qed

lemma runs_establish: "runs step s es t \<Longrightarrow> inv [] s \<Longrightarrow> inv es t"
  using runs_extend [of s es t "[]"] by simp

end

text \<open>An invariant of a step relation is one of its runs.\<close>

locale preserved =
  fixes step :: "'s \<Rightarrow> 'e \<Rightarrow> 's \<Rightarrow> bool" and inv :: "'s \<Rightarrow> bool"
  assumes step_preserves: "step s e t \<Longrightarrow> inv s \<Longrightarrow> inv t"
begin

lemma runs_preserve: "runs step s es t \<Longrightarrow> inv s \<Longrightarrow> inv t"
  by (induction rule: runs.induct) (auto intro: step_preserves)

lemma runs_preserve_prefix:
  "runs step s (es @ fs) t \<Longrightarrow> inv s \<Longrightarrow> \<exists>u. runs step s es u \<and> inv u \<and> runs step u fs t"
  by (auto simp: runs_append intro: runs_preserve)

end

sublocale preserved \<subseteq> trace: trace_invariant step "\<lambda>es. inv"
  by unfold_locales (rule step_preserves)

text \<open>
  Steps that use up a measure: every run is at most as long as the measure of its start,
  and from every state some run reaches a state with no step left.
\<close>

locale exhausting =
  fixes step :: "'s \<Rightarrow> 'e \<Rightarrow> 's \<Rightarrow> bool" and work :: "'s \<Rightarrow> nat"
  assumes step_uses: "step s e t \<Longrightarrow> work t < work s"
begin

lemma runs_bounded: "runs step s es t \<Longrightarrow> length es + work t \<le> work s"
  by (induction rule: runs.induct) (auto dest: step_uses)

lemma runs_reach_end: "\<exists>es t. runs step s es t \<and> (\<forall>e u. \<not> step t e u)"
proof (induction "work s" arbitrary: s rule: less_induct)
  case less
  show ?case
  proof (cases "\<exists>e t. step s e t")
    case True
    then obtain e t where st: "step s e t" by blast
    from less [OF step_uses [OF st]] obtain es u
      where "runs step t es u" and "\<forall>e v. \<not> step u e v" by blast
    with st show ?thesis by (meson runs_cons)
  next
    case False
    then have "runs step s [] s \<and> (\<forall>e u. \<not> step s e u)" by simp
    then show ?thesis by blast
  qed
qed

end

end
