(* ===== verification/Deck.thy ===== *)
theory Deck
  imports Prelude
begin

text \<open>
  The deck of cards: \<open>domain/Card.h\<close>, \<open>domain/Deck.h\<close>, \<open>domain/Deck.cpp\<close>. A card is a
  64-bit value, a deck a vector of cards whose end is the top.
\<close>

section \<open>Cards\<close>

type_synonym size_t = "64 word"

datatype card = Card (GetValue: size_t)

text \<open>\<open>Card::operator<\<close> and \<open>Card::operator==\<close> compare the values; the order is linear.\<close>

definition Card_lt :: "card \<Rightarrow> card \<Rightarrow> bool" where
  "Card_lt a b \<longleftrightarrow> GetValue a < GetValue b"

definition Card_eq :: "card \<Rightarrow> card \<Rightarrow> bool" where
  "Card_eq a b \<longleftrightarrow> GetValue a = GetValue b"

instantiation card :: linorder
begin

definition less_card :: "card \<Rightarrow> card \<Rightarrow> bool" where
  "less_card a b \<longleftrightarrow> Card_lt a b"

definition less_eq_card :: "card \<Rightarrow> card \<Rightarrow> bool" where
  "less_eq_card a b \<longleftrightarrow> GetValue a \<le> GetValue b"

instance
  by standard (auto simp: less_card_def less_eq_card_def Card_lt_def card.expand)

end

lemma Card_eq_iff: "Card_eq a b \<longleftrightarrow> a = b"
  by (auto simp: Card_eq_def card.expand)

section \<open>The standard algorithms the deck uses\<close>

text \<open>\<open>std::is_sorted\<close>: no element is less than the one before it.\<close>

fun std_is_sorted :: "card list \<Rightarrow> bool" where
  "std_is_sorted [] = True"
| "std_is_sorted [c] = True"
| "std_is_sorted (a # b # cs) = (\<not> Card_lt b a \<and> std_is_sorted (b # cs))"

lemma std_is_sorted_iff: "std_is_sorted cs \<longleftrightarrow> sorted cs"
proof (induction cs rule: std_is_sorted.induct)
  case (3 a b cs)
  have "\<not> Card_lt b a \<longleftrightarrow> a \<le> b" by (simp add: less_card_def [symmetric] not_less)
  with 3 show ?case by (auto intro: order_trans)
qed auto

text \<open>
  \<open>std::shuffle\<close> from the top of the range down: position \<open>i\<close> is swapped with a position
  drawn from \<open>0..i\<close>. The draws of the random engine are a parameter, \<open>draws i\<close>, reduced
  into the range the distribution is asked for.
\<close>

definition swap_at :: "nat \<Rightarrow> nat \<Rightarrow> 'a list \<Rightarrow> 'a list" where
  "swap_at i j xs = xs[i := xs ! j, j := xs ! i]"

fun shuffle_down :: "(nat \<Rightarrow> nat) \<Rightarrow> nat \<Rightarrow> 'a list \<Rightarrow> 'a list" where
  "shuffle_down draws 0 xs = xs"
| "shuffle_down draws (Suc i) xs =
     shuffle_down draws i (swap_at (Suc i) (draws (Suc i) mod Suc (Suc i)) xs)"

definition std_shuffle :: "(nat \<Rightarrow> nat) \<Rightarrow> 'a list \<Rightarrow> 'a list" where
  "std_shuffle draws xs = shuffle_down draws (length xs - 1) xs"

lemma length_swap_at [simp]: "length (swap_at i j xs) = length xs"
  by (simp add: swap_at_def)

lemma mset_swap_at: "i < length xs \<Longrightarrow> j < length xs \<Longrightarrow> mset (swap_at i j xs) = mset xs"
  by (simp add: swap_at_def mset_swap)

lemma length_shuffle_down [simp]: "length (shuffle_down draws i xs) = length xs"
  by (induction i arbitrary: xs) auto

lemma mset_shuffle_down: "i < length xs \<Longrightarrow> mset (shuffle_down draws i xs) = mset xs"
proof (induction i arbitrary: xs)
  case (Suc i)
  have "draws (Suc i) mod Suc (Suc i) < length xs"
    using Suc.prems mod_less_divisor [of "Suc (Suc i)" "draws (Suc i)"] by linarith
  with Suc show ?case by (simp add: mset_swap_at)
qed simp

lemma mset_std_shuffle: "mset (std_shuffle draws xs) = mset xs"
  by (cases xs) (auto simp: std_shuffle_def mset_shuffle_down)

text \<open>
  Every order is reachable: choose the draw of the last position so that it receives the
  element the wanted order has there, and the others by induction on the prefix.
\<close>

lemma shuffle_down_cong:
  "(\<And>k. k \<le> i \<Longrightarrow> d k = e k) \<Longrightarrow> shuffle_down d i xs = shuffle_down e i xs"
  by (induction i arbitrary: xs) auto

lemma shuffle_down_append:
  "i < length xs \<Longrightarrow> shuffle_down d i (xs @ ys) = shuffle_down d i xs @ ys"
proof (induction i arbitrary: xs)
  case (Suc i)
  let ?j = "d (Suc i) mod Suc (Suc i)"
  have j: "?j < length xs"
    using Suc.prems mod_less_divisor [of "Suc (Suc i)" "d (Suc i)"] by linarith
  have "swap_at (Suc i) ?j (xs @ ys) = swap_at (Suc i) ?j xs @ ys"
    using Suc.prems j by (simp add: swap_at_def nth_append list_update_append)
  with Suc show ?case by simp
qed simp

lemma swap_to_end:
  assumes "j < length xs" and "length xs = Suc n"
  shows "\<exists>zs. swap_at n j xs = zs @ [xs ! j]"
proof -
  have "swap_at n j xs ! n = xs ! j"
    using assms by (cases "j = n") (auto simp: swap_at_def)
  moreover have "swap_at n j xs \<noteq> []"
    using assms by (metis length_swap_at list.size(3) nat.distinct(1))
  ultimately have "last (swap_at n j xs) = xs ! j"
    using assms by (simp add: last_conv_nth)
  then show ?thesis
    by (metis \<open>swap_at n j xs \<noteq> []\<close> append_butlast_last_id)
qed

lemma shuffle_down_complete:
  "length xs = Suc i \<Longrightarrow> mset ys = mset xs \<Longrightarrow> \<exists>d. shuffle_down d i xs = ys"
proof (induction i arbitrary: xs ys)
  case 0
  then obtain x where "xs = [x]" by (auto simp: length_Suc_conv)
  with 0 show ?case by simp
next
  case (Suc i)
  have len: "length ys = Suc (Suc i)" using Suc.prems by (metis size_mset)
  then obtain ws y where ys: "ys = ws @ [y]" by (cases ys rule: rev_cases) auto
  have "y \<in> set xs" using Suc.prems(2) ys by (metis in_set_conv_decomp set_mset_mset)
  then obtain j where j: "j < length xs" "xs ! j = y" by (auto simp: in_set_conv_nth)
  obtain zs where zs: "swap_at (Suc i) j xs = zs @ [y]"
    using swap_to_end [OF j(1) Suc.prems(1)] j(2) by blast
  have "mset (zs @ [y]) = mset ys"
    using Suc.prems j mset_swap_at [of "Suc i" xs j] by (simp add: zs [symmetric])
  then have "mset ws = mset zs" by (simp add: ys)
  moreover have lz: "length zs = Suc i"
    using arg_cong [OF zs, of length] Suc.prems(1) by simp
  ultimately obtain d where d: "shuffle_down d i zs = ws" using Suc.IH by blast
  let ?d = "d(Suc i := j)"
  have "shuffle_down ?d (Suc i) xs = shuffle_down ?d i (zs @ [y])"
    using j Suc.prems zs by simp
  also have "\<dots> = shuffle_down d i zs @ [y]"
    using lz by (simp add: shuffle_down_append shuffle_down_cong [of i ?d d])
  finally have "shuffle_down ?d (Suc i) xs = ys" by (simp only: d ys)
  then show ?case by blast
qed

lemma std_shuffle_complete: "mset ys = mset xs \<Longrightarrow> \<exists>d. std_shuffle d xs = ys"
  by (cases xs) (auto simp: std_shuffle_def intro: shuffle_down_complete)

section \<open>The deck\<close>

record deck =
  deck_cards :: "card list"

definition Deck_default :: deck where
  "Deck_default = \<lparr>deck_cards = []\<rparr>"

definition Deck_of :: "card list \<Rightarrow> deck" where
  "Deck_of cs = \<lparr>deck_cards = cs\<rparr>"

definition Deck_IsSorted :: "deck \<Rightarrow> bool" where
  "Deck_IsSorted d = std_is_sorted (deck_cards d)"

definition Deck_IsEmpty :: "deck \<Rightarrow> bool" where
  "Deck_IsEmpty d = (deck_cards d = [])"

definition Deck_GetSize :: "deck \<Rightarrow> size_t" where
  "Deck_GetSize d = of_nat (length (deck_cards d))"

definition Deck_GetCards :: "deck \<Rightarrow> card list" where
  "Deck_GetCards d = deck_cards d"

text \<open>The result of \<open>std::sort\<close> on a linear order is the sorted list of the same cards.\<close>

definition Deck_Sort :: "deck \<Rightarrow> deck" where
  "Deck_Sort d = d\<lparr>deck_cards := sort (deck_cards d)\<rparr>"

text \<open>\<open>shuf\<close> is the \<open>std::shuffle\<close> of one call, with the engine it is given.\<close>

definition Deck_Shuffle :: "(card list \<Rightarrow> card list) \<Rightarrow> deck \<Rightarrow> deck" where
  "Deck_Shuffle shuf d = d\<lparr>deck_cards := shuf (deck_cards d)\<rparr>"

text \<open>
  \<open>push_back\<close> throws \<open>std::length_error\<close> when the vector would pass the implementation's
  \<open>max_size\<close>; \<open>back\<close> and \<open>pop_back\<close> of an empty vector are undefined.
\<close>

definition Deck_AddCard :: "nat \<Rightarrow> card \<Rightarrow> deck \<Rightarrow> deck res" where
  "Deck_AddCard max_size c d =
     (if length (deck_cards d) < max_size
      then Inr (d\<lparr>deck_cards := deck_cards d @ [c]\<rparr>) else Inl Length_error)"

definition Deck_PickCard :: "deck \<Rightarrow> (card \<times> deck) res" where
  "Deck_PickCard d =
     (case deck_cards d of
        [] \<Rightarrow> Inl (Undefined Empty_vector)
      | c # cs \<Rightarrow> Inr (last (c # cs), d\<lparr>deck_cards := butlast (c # cs)\<rparr>))"

definition Deck_GetTopCard :: "deck \<Rightarrow> card res" where
  "Deck_GetTopCard d =
     (case deck_cards d of [] \<Rightarrow> Inl (Undefined Empty_vector) | c # cs \<Rightarrow> Inr (last (c # cs)))"

text \<open>
  The loop of \<open>Deck::Build\<close>. The counter is a 64-bit word: after \<open>n = 2 ^ 64 - 1\<close> it wraps to
  0 and the condition \<open>i <= n\<close> never fails, so only \<open>push_back\<close> can end the loop.
\<close>

function Deck_Build_loop :: "nat \<Rightarrow> size_t \<Rightarrow> size_t \<Rightarrow> deck \<Rightarrow> deck res" where
  "Deck_Build_loop max_size n i d =
     (if i \<le> n
      then bind_res (Deck_AddCard max_size (Card i) d) (Deck_Build_loop max_size n (i + 1))
      else Inr d)"
  by pat_completeness auto
termination
  by (relation "measure (\<lambda>(m, n, i, d). m - length (deck_cards d))")
    (auto simp: Deck_AddCard_def split: if_splits)

declare Deck_Build_loop.simps [simp del]

definition Deck_Build :: "nat \<Rightarrow> (card list \<Rightarrow> card list) \<Rightarrow> size_t \<Rightarrow> deck res" where
  "Deck_Build max_size shuf n =
     bind_res (Deck_Build_loop max_size n 1 Deck_default) (\<lambda>d. Inr (Deck_Shuffle shuf d))"

text \<open>The loop of the deck's test: pick cards until the deck is empty.\<close>

function Deck_drain :: "deck \<Rightarrow> card list res" where
  "Deck_drain d =
     (if Deck_IsEmpty d then Inr []
      else bind_res (Deck_PickCard d) (\<lambda>cd. bind_res (Deck_drain (snd cd)) (\<lambda>cs. Inr (fst cd # cs))))"
  by pat_completeness auto
termination
  by (relation "measure (\<lambda>d. length (deck_cards d))")
    (auto simp: Deck_PickCard_def Deck_IsEmpty_def split: list.splits)

declare Deck_drain.simps [simp del]

section \<open>What the operations do\<close>

lemmas Deck_defs = Deck_default_def Deck_of_def Deck_IsSorted_def Deck_IsEmpty_def Deck_GetSize_def
  Deck_GetCards_def Deck_Sort_def Deck_Shuffle_def Deck_AddCard_def Deck_PickCard_def
  Deck_GetTopCard_def

definition Deck_AddCards :: "nat \<Rightarrow> card list \<Rightarrow> deck \<Rightarrow> deck res" where
  "Deck_AddCards max_size cs d = fold_res (Deck_AddCard max_size) cs d"

lemma Deck_AddCard_Inr:
  "Deck_AddCard m c d = Inr d' \<Longrightarrow> d' = d\<lparr>deck_cards := deck_cards d @ [c]\<rparr>"
  by (auto simp: Deck_AddCard_def split: if_splits)

lemma Deck_AddCards_Inr:
  "Deck_AddCards m cs d = Inr d' \<Longrightarrow> d' = d\<lparr>deck_cards := deck_cards d @ cs\<rparr>"
  unfolding Deck_AddCards_def
proof (induction cs arbitrary: d)
  case (Cons c cs)
  from Cons.prems obtain d1 where d1: "Deck_AddCard m c d = Inr d1"
    and rest: "fold_res (Deck_AddCard m) cs d1 = Inr d'"
    by (auto simp: res_eq)
  from Cons.IH [OF rest] Deck_AddCard_Inr [OF d1] show ?case by simp
qed simp

lemma Deck_GetTopCard_snoc: "deck_cards d = cs @ [c] \<Longrightarrow> Deck_GetTopCard d = Inr c"
  by (cases cs) (auto simp: Deck_GetTopCard_def)

lemma Deck_PickCard_snoc:
  "deck_cards d = cs @ [c] \<Longrightarrow> Deck_PickCard d = Inr (c, d\<lparr>deck_cards := cs\<rparr>)"
  by (cases cs) (auto simp: Deck_PickCard_def butlast_append)

lemma Deck_drain_eq: "Deck_drain d = Inr (rev (deck_cards d))"
proof (induction "deck_cards d" arbitrary: d rule: rev_induct)
  case Nil
  then show ?case by (simp add: Deck_drain.simps Deck_IsEmpty_def)
next
  case (snoc c cs)
  have d: "deck_cards d = cs @ [c]" using snoc.hyps(2) by simp
  have "Deck_drain (d\<lparr>deck_cards := cs\<rparr>) = Inr (rev cs)"
    using snoc.hyps(1) [of "d\<lparr>deck_cards := cs\<rparr>"] by simp
  then show ?case
    by (subst Deck_drain.simps) (simp add: Deck_PickCard_snoc [OF d] Deck_IsEmpty_def d)
qed

section \<open>Building a deck\<close>

definition Build_cards :: "size_t \<Rightarrow> card list" where
  "Build_cards n = map (\<lambda>k. Card (word_of_nat k)) [1..<Suc (unat n)]"

lemma unat_Suc_word: "(i :: size_t) \<le> n \<Longrightarrow> n \<noteq> - 1 \<Longrightarrow> unat (i + 1) = Suc (unat i)"
proof -
  assume "i \<le> n" and "n \<noteq> - 1"
  then have "i < - 1" by (metis antisym_conv2 order_le_less_trans word_order.extremum)
  then have "unat i < unat (- 1 :: size_t)" by (simp only: word_less_nat_alt)
  then show ?thesis by (simp add: unat_word_ariths unat_word64_max)
qed

lemma Deck_Build_loop_Inr:
  "n \<noteq> - 1 \<Longrightarrow> unat i \<le> Suc (unat n) \<Longrightarrow> length (deck_cards d) + (Suc (unat n) - unat i) \<le> m \<Longrightarrow>
   Deck_Build_loop m n i d =
     Inr (d\<lparr>deck_cards := deck_cards d @ map (\<lambda>k. Card (word_of_nat k)) [unat i..<Suc (unat n)]\<rparr>)"
proof (induction "Suc (unat n) - unat i" arbitrary: i d)
  case 0
  then have "\<not> i \<le> n" by (simp add: word_le_nat_alt)
  with 0 show ?case by (simp add: Deck_Build_loop.simps)
next
  case (Suc k)
  then have le: "i \<le> n" by (simp add: word_le_nat_alt)
  have next_i: "unat (i + 1) = Suc (unat i)" using le Suc.prems(1) by (rule unat_Suc_word)
  have upt: "[unat i..<Suc (unat n)] = unat i # [Suc (unat i)..<Suc (unat n)]"
    using le by (simp add: word_le_nat_alt upt_rec [of "unat i"])
  let ?d = "d\<lparr>deck_cards := deck_cards d @ [Card i]\<rparr>"
  have add: "Deck_AddCard m (Card i) d = Inr ?d"
    using Suc by (simp add: Deck_AddCard_def)
  have "Deck_Build_loop m n (i + 1) ?d =
      Inr (?d\<lparr>deck_cards := deck_cards ?d @
        map (\<lambda>k. Card (word_of_nat k)) [unat (i + 1)..<Suc (unat n)]\<rparr>)"
    using Suc.hyps(2) Suc.prems by (intro Suc.hyps(1)) (auto simp: next_i)
  then show ?case
    by (simp add: Deck_Build_loop.simps [of m n i d] le add next_i upt del: upt_Suc)
qed

lemma Deck_Build_loop_overfull:
  "i \<le> n \<Longrightarrow> m < length (deck_cards d) + (Suc (unat n) - unat i) \<Longrightarrow>
   Deck_Build_loop m n i d = Inl Length_error"
proof (induction m n i d rule: Deck_Build_loop.induct)
  case (1 m n i d)
  show ?case
  proof (cases "length (deck_cards d) < m")
    case False
    with 1 show ?thesis by (simp add: Deck_Build_loop.simps [of m n i d] Deck_AddCard_def)
  next
    case True
    let ?d = "d\<lparr>deck_cards := deck_cards d @ [Card i]\<rparr>"
    have add: "Deck_AddCard m (Card i) d = Inr ?d" using True by (simp add: Deck_AddCard_def)
    have "Deck_Build_loop m n (i + 1) ?d = Inl Length_error"
    proof (cases "i = - 1")
      case True
      with "1.prems"(1) have "n = - 1" by (simp add: word_order.extremum_unique)
      with True "1.prems" \<open>length (deck_cards d) < m\<close> show ?thesis by simp
    next
      case False
      then have next_i: "unat (i + 1) = Suc (unat i)"
        using unat_Suc_word [of i i] by simp
      have "unat i < unat n"
        using "1.prems" \<open>length (deck_cards d) < m\<close> by linarith
      then show ?thesis
        using "1.prems" by (intro "1.IH" add) (auto simp: next_i word_le_nat_alt)
    qed
    with add "1.prems"(1) show ?thesis by (simp add: Deck_Build_loop.simps [of m n i d])
  qed
qed

lemma Deck_Build_loop_wrap: "Deck_Build_loop m (- 1) i d = Inl Length_error"
proof (induction m "- 1 :: size_t" i d rule: Deck_Build_loop.induct)
  case (1 m i d)
  show ?case
  proof (cases "length (deck_cards d) < m")
    case True
    then have "Deck_AddCard m (Card i) d = Inr (d\<lparr>deck_cards := deck_cards d @ [Card i]\<rparr>)"
      by (simp add: Deck_AddCard_def)
    with 1 show ?thesis by (simp add: Deck_Build_loop.simps [of m "- 1" i d])
  next
    case False
    then show ?thesis by (simp add: Deck_Build_loop.simps [of m "- 1" i d] Deck_AddCard_def)
  qed
qed

lemma Deck_Build_eq:
  "Deck_Build m shuf n =
     (if n \<noteq> - 1 \<and> unat n \<le> m then Inr \<lparr>deck_cards = shuf (Build_cards n)\<rparr> else Inl Length_error)"
proof (cases "n = - 1")
  case True
  then show ?thesis by (simp add: Deck_Build_def Deck_Build_loop_wrap)
next
  case False
  show ?thesis
  proof (cases "unat n \<le> m")
    case True
    with False show ?thesis
      by (simp add: Deck_Build_def Deck_Build_loop_Inr Deck_default_def Deck_Shuffle_def
          Build_cards_def del: upt_Suc)
  next
    case le: False
    then have "1 \<le> unat n" by simp
    then have "1 \<le> n" by (simp add: word_le_nat_alt)
    with le show ?thesis
      by (simp add: Deck_Build_def Deck_Build_loop_overfull Deck_default_def)
  qed
qed

lemma length_Build_cards [simp]: "length (Build_cards n) = unat n"
  by (simp add: Build_cards_def del: upt_Suc)

lemma Build_cards_values: "map GetValue (Build_cards n) = map word_of_nat [1..<Suc (unat n)]"
  by (simp add: Build_cards_def o_def del: upt_Suc)

lemma set_Build_values: "set (map GetValue (Build_cards n)) = {1..n}"
proof -
  have "word_of_nat ` {1..<Suc (unat n)} = {1..n}"
  proof
    show "word_of_nat ` {1..<Suc (unat n)} \<subseteq> {1..n}"
    proof clarify
      fix k assume k: "k \<in> {1..<Suc (unat n)}"
      then have "k < 18446744073709551616" using unat_word64_less [of n] by simp
      then have "unat (word_of_nat k :: size_t) = k" by (rule unat_of_nat64)
      with k show "(word_of_nat k :: size_t) \<in> {1..n}" by (auto simp: word_le_nat_alt)
    qed
    show "{1..n} \<subseteq> word_of_nat ` {1..<Suc (unat n)}"
    proof
      fix v :: size_t assume v: "v \<in> {1..n}"
      have "v = word_of_nat (unat v)" by simp
      moreover have "unat v \<in> {1..<Suc (unat n)}" using v by (auto simp: word_le_nat_alt)
      ultimately show "v \<in> word_of_nat ` {1..<Suc (unat n)}" by (rule image_eqI)
    qed
  qed
  then show ?thesis by (simp only: Build_cards_values set_map set_upt)
qed

lemma distinct_Build_values: "distinct (map GetValue (Build_cards n))"
proof -
  have "inj_on (word_of_nat :: nat \<Rightarrow> size_t) {1..<Suc (unat n)}"
  proof (rule inj_onI)
    fix j k assume "j \<in> {1..<Suc (unat n)}" "k \<in> {1..<Suc (unat n)}"
      and eq: "(word_of_nat j :: size_t) = word_of_nat k"
    then have "j < 18446744073709551616" "k < 18446744073709551616"
      using unat_word64_less [of n] by simp_all
    with eq show "j = k" by (metis unat_of_nat64)
  qed
  then show ?thesis
    by (simp only: Build_cards_values distinct_map distinct_upt set_upt simp_thms)
qed

section \<open>What building needs of the shuffle\<close>

text \<open>The deck relies on its shuffle only to permute the cards.\<close>

locale shuffler =
  fixes shuf :: "card list \<Rightarrow> card list"
  assumes shuf_perm: "mset (shuf cs) = mset cs"
begin

lemma Build_perm: "Deck_Build m shuf n = Inr d \<Longrightarrow> mset (deck_cards d) = mset (Build_cards n)"
  by (auto simp: Deck_Build_eq shuf_perm split: if_splits)

lemma Build_contents:
  assumes "Deck_Build m shuf n = Inr d"
  shows "distinct (map GetValue (deck_cards d))"
    and "set (map GetValue (deck_cards d)) = {1..n}"
    and "length (deck_cards d) = unat n"
proof -
  note perm = Build_perm [OF assms]
  have values_perm: "mset (map GetValue (deck_cards d)) = mset (map GetValue (Build_cards n))"
    by (simp only: mset_map perm)
  show "distinct (map GetValue (deck_cards d))"
    using mset_eq_imp_distinct_iff [OF values_perm] distinct_Build_values by blast
  show "set (map GetValue (deck_cards d)) = {1..n}"
    using mset_eq_setD [OF values_perm] set_Build_values by blast
  show "length (deck_cards d) = unat n"
    using mset_eq_length [OF perm] by simp
qed

lemma Build_shuffle_keeps_size: "Deck_GetSize (Deck_Shuffle shuf d) = Deck_GetSize d"
  using mset_eq_length [OF shuf_perm] by (simp add: Deck_defs)

end

interpretation fy: shuffler "std_shuffle draws" for draws
  by unfold_locales (rule mset_std_shuffle)

section \<open>Properties of the deck\<close>

text \<open>
  \<open>Deck::Build(n)\<close> always returns: with a deck, or with the error
  \<open>std::length_error\<close> from \<open>push_back\<close>. It fails exactly when \<open>n\<close> cards do not fit the vector or when
  \<open>n\<close> is the largest \<open>std::size_t\<close>, where the counter wraps and the loop only ends
  in the exception.
\<close>

lemma Deck_Build_outcome:
  "(Deck_Build m (std_shuffle draws) n = Inl e \<longleftrightarrow> e = Length_error \<and> (n = - 1 \<or> m < unat n)) \<and>
   ((\<exists>d. Deck_Build m (std_shuffle draws) n = Inr d) \<longleftrightarrow> n \<noteq> - 1 \<and> unat n \<le> m)"
  by (auto simp: Deck_Build_eq)

text \<open>
  C14. A built deck of \<open>n\<close> holds each of the values \<open>1..n\<close> exactly once, whatever the
  random draws of the shuffle, and \<open>GetSize\<close> reports \<open>n\<close>.
\<close>

theorem Deck_Build_contents:
  assumes "Deck_Build m (std_shuffle draws) n = Inr d"
  shows "distinct (map GetValue (Deck_GetCards d)) \<and>
    set (map GetValue (Deck_GetCards d)) = {1..n} \<and> Deck_GetSize d = n"
  using fy.Build_contents [OF assms] by (simp add: Deck_GetCards_def Deck_GetSize_def)

theorem Deck_Build_contents_witness:
  "\<exists>d. Deck_Build 10 (std_shuffle (\<lambda>i. i)) 3 = Inr d \<and>
     set (map GetValue (Deck_GetCards d)) = {1..3} \<and> Deck_GetSize d = 3"
proof -
  have "(3 :: size_t) \<noteq> - 1" by simp
  then obtain d where d: "Deck_Build 10 (std_shuffle (\<lambda>i. i)) 3 = Inr d"
    by (simp add: Deck_Build_eq)
  from Deck_Build_contents [OF d] d show ?thesis by blast
qed

text \<open>
  No order of the cards is excluded: every arrangement of the values \<open>1..n\<close> is the
  deck \<open>Deck::Build(n)\<close> returns for some draws of the random engine.
\<close>

lemma Deck_Build_any_order:
  assumes "n \<noteq> - 1" and "unat n \<le> m"
    and "distinct (map GetValue cs)" and "set (map GetValue cs) = {1..n}"
  shows "\<exists>draws. Deck_Build m (std_shuffle draws) n = Inr (Deck_of cs)"
proof -
  have dist: "distinct cs" "distinct (Build_cards n)"
    using assms(3) distinct_Build_values [of n] by (auto simp: distinct_map)
  have inj: "inj GetValue" by (auto intro: injI simp: card.expand)
  have "GetValue ` set cs = GetValue ` set (Build_cards n)"
    using assms(4) set_Build_values [of n] by (simp only: set_map)
  then have "set cs = set (Build_cards n)" by (simp only: inj_image_eq_iff [OF inj])
  then have "mset cs = mset (Build_cards n)"
    using dist set_eq_iff_mset_eq_distinct by blast
  from std_shuffle_complete [OF this] obtain draws
    where "std_shuffle draws (Build_cards n) = cs" by blast
  with assms(1,2) show ?thesis by (auto simp: Deck_Build_eq Deck_of_def)
qed

lemma Deck_Build_any_order_witness:
  "\<exists>draws. Deck_Build 10 (std_shuffle draws) 3 = Inr (Deck_of [Card 2, Card 3, Card 1])"
proof -
  have "{1..3 :: size_t} = {2, 3, 1}"
  proof -
    have "set (map GetValue (Build_cards 3)) = {2, 3, 1 :: size_t}"
      by (auto simp: Build_cards_def upt_rec)
    then show ?thesis by (simp only: set_Build_values)
  qed
  then show ?thesis using Deck_Build_any_order [of 3 10 "[Card 2, Card 3, Card 1]"] by simp
qed

text \<open>
  C39. Picking cards from a built deck until it is empty never picks from an empty
  deck and yields each of the values \<open>1..n\<close> exactly once.
\<close>

theorem Deck_deal_all:
  assumes "Deck_Build m (std_shuffle draws) n = Inr d"
  shows "\<exists>picked. Deck_drain d = Inr picked \<and>
    (\<forall>v. count_list (map GetValue picked) v = (if 1 \<le> v \<and> v \<le> n then 1 else 0))"
proof -
  note contents = fy.Build_contents(1,2) [OF assms]
  have "count_list (map GetValue (rev (deck_cards d))) v = (if 1 \<le> v \<and> v \<le> n then 1 else 0)" for v
    using contents(1) [unfolded distinct_count_atmost_1, rule_format, of v] contents(2)
    by (simp add: count_mset [symmetric] rev_map [symmetric] del: count_mset_0_iff)
  then show ?thesis by (auto simp: Deck_drain_eq)
qed

theorem Deck_deal_all_witness:
  "\<exists>picked. Deck_drain (Deck_of [Card 1, Card 2]) = Inr picked \<and>
     (\<forall>v. count_list (map GetValue picked) v = (if 1 \<le> v \<and> v \<le> (2 :: size_t) then 1 else 0))"
proof -
  have "Deck_Build 5 (std_shuffle (\<lambda>i. i)) 2 = Inr (Deck_of [Card 1, Card 2])"
    by (simp add: Deck_Build_eq Build_cards_def Deck_of_def std_shuffle_def swap_at_def upt_rec)
  from Deck_deal_all [OF this] show ?thesis .
qed

text \<open>
  \<open>Sort\<close> keeps the cards and their number and leaves a deck \<open>IsSorted\<close> accepts;
  \<open>IsSorted\<close> accepts a deck exactly when sorting it changes nothing.
\<close>

lemma Deck_Sort_correct:
  "Deck_IsSorted (Deck_Sort d) \<and> mset (Deck_GetCards (Deck_Sort d)) = mset (Deck_GetCards d) \<and>
   (Deck_IsSorted d \<longleftrightarrow> Deck_Sort d = d)"
proof -
  have "Deck_IsSorted d \<longleftrightarrow> Deck_Sort d = d"
    unfolding Deck_IsSorted_def Deck_Sort_def std_is_sorted_iff
    by (cases d) (auto simp: sort_key_id_if_sorted intro: sorted_sort [THEN subst [where P = sorted, rotated]])
  then show ?thesis by (simp add: Deck_defs std_is_sorted_iff)
qed

text \<open>
  The deck is a stack: after cards are added, picking until the deck is empty
  yields them newest first, before the cards that were there; \<open>AddCard\<close> followed by
  \<open>PickCard\<close> gives the card back and the deck as it was.
\<close>

lemma Deck_stack_order:
  assumes "Deck_AddCards m (cs @ [c]) d = Inr d'"
  shows "Deck_GetTopCard d' = Inr c \<and> Deck_drain d' = Inr (c # rev cs @ rev (Deck_GetCards d)) \<and>
    (\<exists>d0. Deck_AddCards m cs d = Inr d0 \<and> Deck_PickCard d' = Inr (c, d0))"
proof -
  from assms obtain d0 where d0: "Deck_AddCards m cs d = Inr d0" "Deck_AddCard m c d0 = Inr d'"
    by (auto simp: Deck_AddCards_def fold_res_append res_eq)
  have d': "deck_cards d' = deck_cards d0 @ [c]" "d0 = d'\<lparr>deck_cards := deck_cards d0\<rparr>"
    "deck_cards d0 = deck_cards d @ cs"
    using Deck_AddCard_Inr [OF d0(2)] Deck_AddCards_Inr [OF d0(1)] by simp_all
  have "Deck_PickCard d' = Inr (c, d0)"
    using Deck_PickCard_snoc [OF d'(1)] d'(2) by simp
  with d' d0(1) show ?thesis
    by (auto simp: Deck_drain_eq Deck_GetCards_def Deck_GetTopCard_snoc)
qed

lemma Deck_stack_order_witness:
  "\<exists>d'. Deck_AddCards 5 ([Card 7, Card 2] @ [Card 9]) (Deck_of [Card 4]) = Inr d' \<and>
     Deck_drain d' = Inr [Card 9, Card 2, Card 7, Card 4]"
proof -
  obtain d' where d': "Deck_AddCards 5 ([Card 7, Card 2] @ [Card 9]) (Deck_of [Card 4]) = Inr d'"
    by (simp add: Deck_AddCards_def Deck_AddCard_def Deck_of_def)
  from Deck_stack_order [OF d'] d' show ?thesis by (simp add: Deck_of_def Deck_GetCards_def)
qed

text \<open>
  \<open>PickCard\<close> and \<open>GetTopCard\<close> are undefined exactly on an empty deck; on any other
  deck they return its last card, and \<open>PickCard\<close> removes that card only.
\<close>

lemma Deck_PickCard_spec:
  "(Deck_PickCard d = Inl (Undefined Empty_vector) \<longleftrightarrow> Deck_IsEmpty d) \<and>
   (Deck_PickCard d = Inr (c, d') \<longleftrightarrow> Deck_GetCards d = Deck_GetCards d' @ [c]) \<and>
   (Deck_GetTopCard d = Inr c \<longleftrightarrow> (\<exists>d'. Deck_PickCard d = Inr (c, d')))"
proof (cases "deck_cards d" rule: rev_cases)
  case Nil
  then show ?thesis
    by (auto simp: Deck_PickCard_def Deck_GetTopCard_def Deck_IsEmpty_def Deck_GetCards_def)
next
  case (snoc cs b)
  then have "Deck_GetTopCard d = Inr b" "Deck_PickCard d = Inr (b, d\<lparr>deck_cards := cs\<rparr>)"
    by (simp_all add: Deck_GetTopCard_snoc Deck_PickCard_snoc)
  moreover obtain ds es where "d = \<lparr>deck_cards = ds\<rparr>" and "d' = \<lparr>deck_cards = es\<rparr>"
    by (cases d, cases d')
  ultimately show ?thesis using snoc by (auto simp: Deck_IsEmpty_def Deck_GetCards_def)
qed

end
