(* ===== verification/Player.thy ===== *)
theory Player
  imports Deck
begin

text \<open>
  Players: \<open>domain/Player.h\<close>. The class counts its instances in the static \<open>int\<close>
  \<open>n_of_players_\<close>; the counter is the state the constructor threads, an integer with the
  bound of a 32-bit \<open>int\<close>, whose overflow is undefined.
\<close>

record player =
  uid :: int
  name :: string
  hand :: "card list"

definition int_max :: int where
  "int_max = 2147483647"

definition Player_new :: "int \<Rightarrow> string \<Rightarrow> (int \<times> player) res" where
  "Player_new n_of_players nm =
     (if n_of_players < int_max
      then Inr (n_of_players + 1, \<lparr>uid = n_of_players + 1, name = nm, hand = []\<rparr>)
      else Inl (Undefined Signed_overflow))"

text \<open>A program that constructs players one after the other.\<close>

fun Players_new :: "int \<Rightarrow> string list \<Rightarrow> (int \<times> player list) res" where
  "Players_new n [] = Inr (n, [])"
| "Players_new n (nm # nms) =
     bind_res (Player_new n nm) (\<lambda>(n', p).
       bind_res (Players_new n' nms) (\<lambda>(n'', ps). Inr (n'', p # ps)))"

lemma Players_new_eq:
  "n \<le> int_max \<Longrightarrow> Players_new n nms =
     (if n + int (length nms) \<le> int_max
      then Inr (n + int (length nms),
        map (\<lambda>(k, nm). \<lparr>uid = k, name = nm, hand = []\<rparr>) (zip [n + 1..n + int (length nms)] nms))
      else Inl (Undefined Signed_overflow))"
proof (induction nms arbitrary: n)
  case (Cons nm nms)
  show ?case
  proof (cases "n < int_max")
    case True
    obtain k where n: "n = k - 1" by (metis add_diff_cancel)
    with True have "k \<le> int_max" by simp
    note IH = Cons.IH [OF this]
    have "[k..k + int (length nms)] = k # [k + 1..k + int (length nms)]"
      by (simp add: upto_rec1)
    with True IH n show ?thesis by (simp add: Player_new_def)
  qed (use Cons.prems in \<open>simp add: Player_new_def\<close>)
qed simp

text \<open>
  Players constructed from the program's start get the ids \<open>1, 2, 3, \<dots>\<close> in the order
  of construction, so no two players share an id; they carry the given names and empty
  hands. The construction is defined up to \<open>INT_MAX\<close> players and overflows beyond.
\<close>

lemma Players_new_ids:
  "(\<exists>n ps. Players_new 0 nms = Inr (n, ps) \<and> map uid ps = [1..int (length nms)] \<and>
      distinct (map uid ps) \<and> map name ps = nms \<and> map hand ps = map (\<lambda>_. []) nms) \<longleftrightarrow>
   int (length nms) \<le> int_max"
proof -
  have "Players_new 0 nms =
      (if int (length nms) \<le> int_max
       then Inr (int (length nms),
         map (\<lambda>(k, nm). \<lparr>uid = k, name = nm, hand = []\<rparr>) (zip [1..int (length nms)] nms))
       else Inl (Undefined Signed_overflow))"
    using Players_new_eq [of 0 nms] by (simp add: int_max_def)
  then show ?thesis
    by (auto simp: map_zip_map2 case_prod_beta' comp_def map_snd_zip map_replicate_const
        map_fst_zip [unfolded fst_def [abs_def]])
qed

end
