(* ===== verification/Strand.thy ===== *)
theory Strand
  imports Prelude
begin

text \<open>
  A strand of Boost.Asio as the sources use it: \<open>post\<close> hands it a handler, the executor
  runs one handler at a time, in the order they were posted. A strand is the list of the
  handlers posted and not yet started.
\<close>

definition strand_post :: "'t \<Rightarrow> 't list \<Rightarrow> 't list" where
  "strand_post t q = q @ [t]"

fun strand_take :: "'t list \<Rightarrow> ('t \<times> 't list) option" where
  "strand_take [] = None"
| "strand_take (t # q) = Some (t, q)"

text \<open>The interface: what a client may assume of a queue of handlers.\<close>

locale handler_queue =
  fixes post :: "'t \<Rightarrow> 'q \<Rightarrow> 'q"
    and take_next :: "'q \<Rightarrow> ('t \<times> 'q) option"
    and pending :: "'q \<Rightarrow> 't list"
  assumes pending_post: "pending (post t q) = pending q @ [t]"
    and take_next_None: "take_next q = None \<longleftrightarrow> pending q = []"
    and take_next_Some: "take_next q = Some (t, q') \<Longrightarrow> pending q = t # pending q'"
begin

lemma pending_posts: "pending (fold post ts q) = pending q @ ts"
  by (induction ts arbitrary: q) (auto simp: pending_post)

text \<open>A handler posted now is taken only after all that were pending.\<close>

lemma take_after_post:
  assumes "take_next (post t q) = Some (u, q')" and "pending q \<noteq> []"
  shows "u = hd (pending q) \<and> pending q' = tl (pending q) @ [t]"
  using take_next_Some [OF assms(1)] assms(2) by (cases "pending q") (auto simp: pending_post)

lemma take_next_progress: "pending q \<noteq> [] \<Longrightarrow> \<exists>t q'. take_next q = Some (t, q')"
  using take_next_None [of q] by (cases "take_next q") auto

lemma take_next_shrinks: "take_next q = Some (t, q') \<Longrightarrow> length (pending q) = Suc (length (pending q'))"
  using take_next_Some by fastforce

end

interpretation strand: handler_queue strand_post strand_take "\<lambda>q. q"
proof unfold_locales
  show "strand_take q = None \<longleftrightarrow> q = []" for q :: "'t list" by (cases q) auto
  show "q = t # q'" if "strand_take q = Some (t, q')" for q q' :: "'t list" and t
    using that by (cases q) auto
qed (simp add: strand_post_def)

end
