(* ===== verification/Game_Session.thy ===== *)
theory Game_Session
  imports Strand
begin

text \<open>
  The game session of \<open>apps/simple_server/game_session.hpp\<close>: the list of connected players
  and the two strands its work goes through. A call posts a handler; the executor runs the
  handlers of each strand in order and interleaves the two strands freely. The virtual
  functions of the base class do nothing, so what a run does is the sequence of their calls
  and of the messages sent, which the model records.
\<close>

section \<open>State and handlers\<close>

text \<open>A \<open>std::shared_ptr\<close> to a player controller; \<open>None\<close> is the null pointer.\<close>

type_synonym 'p ptr = "'p option"

datatype 'p player_handler =
    Add_handler "'p ptr"
  | Remove_handler "'p ptr"
  | Broadcast_handler string "'p ptr"

datatype ('c, 'p) command_handler =
    Command_handler 'c "'p ptr"
  | Joined_handler "'p ptr"
  | Left_handler "'p ptr"

datatype ('c, 'p) effect =
    ProcessCommand 'c "'p ptr"
  | OnPlayerJoined "'p ptr"
  | OnPlayerLeft "'p ptr"
  | SendMessage 'p string

record ('c, 'p) game_session =
  command_strand :: "('c, 'p) command_handler list"
  player_strand :: "'p player_handler list"
  players :: "'p ptr list"
  effects :: "('c, 'p) effect list"

definition GameSession_new :: "('c, 'p) game_session" where
  "GameSession_new = \<lparr>command_strand = [], player_strand = [], players = [], effects = []\<rparr>"

text \<open>The calls: each one posts.\<close>

definition OnCommand :: "'c \<Rightarrow> 'p ptr \<Rightarrow> ('c, 'p) game_session \<Rightarrow> ('c, 'p) game_session" where
  "OnCommand command sender g =
     g\<lparr>command_strand := strand_post (Command_handler command sender) (command_strand g)\<rparr>"

definition AddPlayer :: "'p ptr \<Rightarrow> ('c, 'p) game_session \<Rightarrow> ('c, 'p) game_session" where
  "AddPlayer player g = g\<lparr>player_strand := strand_post (Add_handler player) (player_strand g)\<rparr>"

definition RemovePlayer :: "'p ptr \<Rightarrow> ('c, 'p) game_session \<Rightarrow> ('c, 'p) game_session" where
  "RemovePlayer player g =
     g\<lparr>player_strand := strand_post (Remove_handler player) (player_strand g)\<rparr>"

definition BroadcastMessage ::
  "string \<Rightarrow> 'p ptr \<Rightarrow> ('c, 'p) game_session \<Rightarrow> ('c, 'p) game_session" where
  "BroadcastMessage message except g =
     g\<lparr>player_strand := strand_post (Broadcast_handler message except) (player_strand g)\<rparr>"

text \<open>The body of the broadcast loop; calling through a null pointer is undefined.\<close>

definition broadcast_one ::
  "string \<Rightarrow> 'p ptr \<Rightarrow> 'p ptr \<Rightarrow> ('c, 'p) game_session \<Rightarrow> ('c, 'p) game_session res" where
  "broadcast_one message except player g =
     (if player \<noteq> except
      then (case player of
              None \<Rightarrow> Inl (Undefined Null_pointer)
            | Some p \<Rightarrow> Inr (g\<lparr>effects := effects g @ [SendMessage p message]\<rparr>))
      else Inr g)"

text \<open>
  The handlers of the player strand. \<open>std::find\<close> and \<open>erase\<close> take the first occurrence;
  nothing is posted and nothing erased when the player is not in the list.
\<close>

fun run_player_handler ::
  "'p player_handler \<Rightarrow> ('c, 'p) game_session \<Rightarrow> ('c, 'p) game_session res" where
  "run_player_handler (Add_handler player) g =
     Inr (g\<lparr>players := players g @ [player],
            command_strand := strand_post (Joined_handler player) (command_strand g)\<rparr>)"
| "run_player_handler (Remove_handler player) g =
     (if player \<in> set (players g)
      then Inr (g\<lparr>command_strand := strand_post (Left_handler player) (command_strand g),
                  players := remove1 player (players g)\<rparr>)
      else Inr g)"
| "run_player_handler (Broadcast_handler message except) g =
     fold_res (broadcast_one message except) (players g) g"

fun handler_effect :: "('c, 'p) command_handler \<Rightarrow> ('c, 'p) effect" where
  "handler_effect (Command_handler c p) = ProcessCommand c p"
| "handler_effect (Joined_handler p) = OnPlayerJoined p"
| "handler_effect (Left_handler p) = OnPlayerLeft p"

definition run_command_handler ::
  "('c, 'p) command_handler \<Rightarrow> ('c, 'p) game_session \<Rightarrow> ('c, 'p) game_session" where
  "run_command_handler h g = g\<lparr>effects := effects g @ [handler_effect h]\<rparr>"

text \<open>A step: a call from outside, or the next handler of one of the strands.\<close>

datatype ('c, 'p) call =
    Call_OnCommand 'c "'p ptr"
  | Call_AddPlayer "'p ptr"
  | Call_RemovePlayer "'p ptr"
  | Call_Broadcast string "'p ptr"

fun run_call :: "('c, 'p) call \<Rightarrow> ('c, 'p) game_session \<Rightarrow> ('c, 'p) game_session" where
  "run_call (Call_OnCommand c p) g = OnCommand c p g"
| "run_call (Call_AddPlayer p) g = AddPlayer p g"
| "run_call (Call_RemovePlayer p) g = RemovePlayer p g"
| "run_call (Call_Broadcast m p) g = BroadcastMessage m p g"

datatype strand_id = Player_strand | Command_strand

inductive handler_step ::
  "('c, 'p) game_session \<Rightarrow> strand_id \<Rightarrow> ('c, 'p) game_session \<Rightarrow> bool" where
  player_handler: "strand_take (player_strand g) = Some (h, q) \<Longrightarrow>
     run_player_handler h (g\<lparr>player_strand := q\<rparr>) = Inr g' \<Longrightarrow> handler_step g Player_strand g'"
| command_handler: "strand_take (command_strand g) = Some (h, q) \<Longrightarrow>
     g' = run_command_handler h (g\<lparr>command_strand := q\<rparr>) \<Longrightarrow> handler_step g Command_strand g'"

inductive_cases player_stepE: "handler_step g Player_strand g'"
inductive_cases command_stepE: "handler_step g Command_strand g'"
inductive_simps player_step_iff: "handler_step g Player_strand g'"
inductive_simps command_step_iff: "handler_step g Command_strand g'"

datatype ('c, 'p) session_event = Call "('c, 'p) call" | Run strand_id

inductive session_step ::
  "('c, 'p) game_session \<Rightarrow> ('c, 'p) session_event \<Rightarrow> ('c, 'p) game_session \<Rightarrow> bool" where
  call_step: "session_step g (Call c) (run_call c g)"
| run_step: "handler_step g i g' \<Longrightarrow> session_step g (Run i) g'"

inductive_simps session_call_iff: "session_step g (Call c) g'"
inductive_simps session_run_iff: "session_step g (Run i) g'"

section \<open>What one handler contributes\<close>

fun members_after :: "'p player_handler \<Rightarrow> 'p ptr list \<Rightarrow> 'p ptr list" where
  "members_after (Add_handler p) ps = ps @ [p]"
| "members_after (Remove_handler p) ps = remove1 p ps"
| "members_after (Broadcast_handler m ex) ps = ps"

fun notes_of :: "'p player_handler \<Rightarrow> 'p ptr list \<Rightarrow> ('c, 'p) command_handler list" where
  "notes_of (Add_handler p) ps = [Joined_handler p]"
| "notes_of (Remove_handler p) ps = (if p \<in> set ps then [Left_handler p] else [])"
| "notes_of (Broadcast_handler m ex) ps = []"

fun sends_of :: "'p player_handler \<Rightarrow> 'p ptr list \<Rightarrow> ('c, 'p) effect list" where
  "sends_of (Broadcast_handler m ex) ps =
     map (\<lambda>p. SendMessage (the p) m) (filter (\<lambda>p. p \<noteq> ex) ps)"
| "sends_of _ ps = []"

lemma broadcast_loop_Inr:
  "fold_res (broadcast_one m ex) ps g = Inr g' \<longleftrightarrow>
     (None \<in> set ps \<longrightarrow> ex = None) \<and>
     g' = g\<lparr>effects := effects g @ map (\<lambda>p. SendMessage (the p) m) (filter (\<lambda>p. p \<noteq> ex) ps)\<rparr>"
proof (induction ps arbitrary: g)
  case (Cons p ps)
  then show ?case by (cases p) (auto simp: broadcast_one_def)
qed auto

lemma run_player_handler_Inr:
  assumes "run_player_handler h g = Inr g'"
  shows "g' = g\<lparr>players := members_after h (players g),
                command_strand := command_strand g @ notes_of h (players g),
                effects := effects g @ sends_of h (players g)\<rparr>"
  using assms
  by (cases h) (auto simp: strand_post_def broadcast_loop_Inr remove1_idem split: if_splits)

lemma handler_step_cases:
  assumes "handler_step g i g'"
  obtains h q where "i = Player_strand" and "player_strand g = h # q" and
      "g' = g\<lparr>player_strand := q, players := members_after h (players g),
              command_strand := command_strand g @ notes_of h (players g),
              effects := effects g @ sends_of h (players g)\<rparr>"
    | h q where "i = Command_strand" and "command_strand g = h # q" and
      "g' = g\<lparr>command_strand := q, effects := effects g @ [handler_effect h]\<rparr>"
  using assms
proof (cases rule: handler_step.cases)
  case (player_handler h q)
  then show ?thesis
    using that(1) strand.take_next_Some run_player_handler_Inr [OF player_handler(3)] by fastforce
next
  case (command_handler h q)
  then show ?thesis
    using that(2) strand.take_next_Some by (fastforce simp: run_command_handler_def)
qed

section \<open>Draining the strands\<close>

definition session_work :: "('c, 'p) game_session \<Rightarrow> nat" where
  "session_work g = 2 * length (player_strand g) + length (command_strand g)"

lemma length_notes_of: "length (notes_of h ps) < 2"
  by (cases h) auto

interpretation drain: exhausting handler_step session_work
proof
  fix g g' :: "('c, 'p) game_session" and i
  assume "handler_step g i g'"
  then show "session_work g' < session_work g"
  proof (cases rule: handler_step_cases)
    case (1 h q)
    then show ?thesis by (simp add: session_work_def length_notes_of)
  qed (simp add: session_work_def)
qed

definition drained :: "('c, 'p) game_session \<Rightarrow> bool" where
  "drained g \<longleftrightarrow> player_strand g = [] \<and> command_strand g = []"

text \<open>A session no null pointer was added to.\<close>

definition no_null :: "('c, 'p) game_session \<Rightarrow> bool" where
  "no_null g \<longleftrightarrow> None \<notin> set (players g) \<and> Add_handler None \<notin> set (player_strand g)"

lemma no_null_members: "None \<notin> set ps \<Longrightarrow> Add_handler None \<noteq> h \<Longrightarrow> None \<notin> set (members_after h ps)"
  by (cases h) (auto dest: in_set_remove1 [THEN iffD1, rotated] notin_set_remove1)

interpretation null_free: preserved handler_step no_null
proof
  fix g g' :: "('c, 'p) game_session" and i
  assume "handler_step g i g'" and "no_null g"
  then show "no_null g'"
    by (cases rule: handler_step_cases) (auto simp: no_null_def dest: no_null_members)
qed

lemma handler_progress:
  assumes "no_null g" and "\<not> drained g"
  shows "\<exists>i g'. handler_step g i g'"
proof (cases "player_strand g")
  case Nil
  with assms(2) obtain h q where "strand_take (command_strand g) = Some (h, q)"
    by (auto simp: drained_def neq_Nil_conv)
  then show ?thesis by (blast intro: command_handler)
next
  case (Cons h q)
  have "\<exists>g'. run_player_handler h (g\<lparr>player_strand := q\<rparr>) = Inr g'"
    using assms(1) by (cases h) (auto simp: no_null_def broadcast_loop_Inr)
  then obtain g' where "run_player_handler h (g\<lparr>player_strand := q\<rparr>) = Inr g'" by blast
  moreover have "strand_take (player_strand g) = Some (h, q)" using Cons by simp
  ultimately show ?thesis by (blast intro: player_handler)
qed

section \<open>What the game logic is told\<close>

text \<open>
  The membership a reader of the notifications reconstructs, and the condition that every
  departure it reads is one of a player it knows.
\<close>

fun told_members :: "('c, 'p) effect list \<Rightarrow> 'p ptr list \<Rightarrow> 'p ptr list" where
  "told_members [] ps = ps"
| "told_members (OnPlayerJoined p # es) ps = told_members es (ps @ [p])"
| "told_members (OnPlayerLeft p # es) ps = told_members es (remove1 p ps)"
| "told_members (e # es) ps = told_members es ps"

fun departures_known :: "('c, 'p) effect list \<Rightarrow> 'p ptr list \<Rightarrow> bool" where
  "departures_known [] ps = True"
| "departures_known (OnPlayerJoined p # es) ps = departures_known es (ps @ [p])"
| "departures_known (OnPlayerLeft p # es) ps = (p \<in> set ps \<and> departures_known es (remove1 p ps))"
| "departures_known (e # es) ps = departures_known es ps"

fun is_send :: "('c, 'p) effect \<Rightarrow> bool" where
  "is_send (SendMessage p m) = True"
| "is_send _ = False"

fun is_note :: "('c, 'p) effect \<Rightarrow> bool" where
  "is_note (OnPlayerJoined p) = True"
| "is_note (OnPlayerLeft p) = True"
| "is_note _ = False"

fun is_command :: "('c, 'p) effect \<Rightarrow> bool" where
  "is_command (ProcessCommand c p) = True"
| "is_command _ = False"

definition sent :: "('c, 'p) effect list \<Rightarrow> ('c, 'p) effect list" where
  "sent es = filter is_send es"

text \<open>The calls of the virtual functions made so far, followed by those still posted.\<close>

definition logic_calls :: "('c, 'p) game_session \<Rightarrow> ('c, 'p) effect list" where
  "logic_calls g = filter (\<lambda>e. \<not> is_send e) (effects g) @ map handler_effect (command_strand g)"

lemma told_members_append: "told_members (xs @ ys) ps = told_members ys (told_members xs ps)"
  by (induction xs ps rule: told_members.induct) auto

lemma departures_known_append:
  "departures_known (xs @ ys) ps \<longleftrightarrow> departures_known xs ps \<and> departures_known ys (told_members xs ps)"
  by (induction xs ps rule: told_members.induct) auto

lemma departures_known_unsent:
  "departures_known (filter (\<lambda>e. \<not> is_send e) es) ps = departures_known es ps"
  by (induction es ps rule: told_members.induct) auto

lemma not_send_handler_effect [simp]: "\<not> is_send (handler_effect h)"
  by (cases h) auto

lemma filter_sends_of [simp]:
  "filter is_send (sends_of h ps) = sends_of h ps"
  "filter (\<lambda>e. \<not> is_send e) (sends_of h ps) = []"
  by (cases h; auto simp: filter_empty_conv filter_id_conv)+

lemma told_members_notes:
  "told_members (map handler_effect (notes_of h ps)) ps = members_after h ps"
  by (cases h) (auto simp: remove1_idem)

lemma departures_known_notes: "departures_known (map handler_effect (notes_of h ps)) ps"
  by (cases h) auto

lemma logic_calls_handler_step:
  assumes "handler_step g i g'"
  shows "logic_calls g' = logic_calls g @
    (case i of Command_strand \<Rightarrow> []
     | Player_strand \<Rightarrow> map handler_effect (notes_of (hd (player_strand g)) (players g)))"
  using assms
  by (cases rule: handler_step_cases) (auto simp: logic_calls_def)

definition told_inv :: "('c, 'p) game_session \<Rightarrow> bool" where
  "told_inv g \<longleftrightarrow> told_members (logic_calls g) [] = players g \<and> departures_known (logic_calls g) []"

lemma told_inv_call: "told_inv g \<Longrightarrow> told_inv (run_call c g)"
  by (cases c) (auto simp: told_inv_def logic_calls_def OnCommand_def AddPlayer_def
      RemovePlayer_def BroadcastMessage_def strand_post_def told_members_append
      departures_known_append)

lemma told_inv_handler:
  assumes "handler_step g i g'" and "told_inv g"
  shows "told_inv g'"
  using assms(1)
proof (cases rule: handler_step_cases)
  case (1 h q)
  have "logic_calls g' = logic_calls g @ map handler_effect (notes_of h (players g))"
    using logic_calls_handler_step [OF assms(1)] 1 by simp
  with 1 assms(2) show ?thesis
    by (simp add: told_inv_def told_members_append departures_known_append
        told_members_notes departures_known_notes)
next
  case (2 h q)
  then have "logic_calls g' = logic_calls g" and "players g' = players g"
    by (simp_all add: logic_calls_def)
  with assms(2) show ?thesis by (simp add: told_inv_def)
qed

interpretation told: preserved session_step told_inv
  by unfold_locales (auto elim!: session_step.cases intro: told_inv_call told_inv_handler)

text \<open>Calls and handlers only add at the end of what the game logic sees.\<close>

lemma logic_calls_grow: "session_step g e g' \<Longrightarrow> \<exists>new. logic_calls g' = logic_calls g @ new"
proof (induction rule: session_step.induct)
  case (call_step g c)
  then show ?case
    by (cases c) (auto simp: logic_calls_def OnCommand_def AddPlayer_def RemovePlayer_def
        BroadcastMessage_def strand_post_def)
next
  case (run_step g i g')
  then show ?case by (blast dest: logic_calls_handler_step)
qed

lemma logic_calls_grow_runs: "runs session_step g es g' \<Longrightarrow> \<exists>new. logic_calls g' = logic_calls g @ new"
proof (induction rule: runs.induct)
  case (runs_cons g e h es k)
  then show ?case by (metis append_assoc logic_calls_grow)
qed simp

section \<open>The schedule does not matter\<close>

fun all_notes :: "'p player_handler list \<Rightarrow> 'p ptr list \<Rightarrow> ('c, 'p) command_handler list" where
  "all_notes [] ps = []"
| "all_notes (h # hs) ps = notes_of h ps @ all_notes hs (members_after h ps)"

fun all_sends :: "'p player_handler list \<Rightarrow> 'p ptr list \<Rightarrow> ('c, 'p) effect list" where
  "all_sends [] ps = []"
| "all_sends (h # hs) ps = sends_of h ps @ all_sends hs (members_after h ps)"

text \<open>What will have happened once both strands are empty, computed from the player strand alone.\<close>

definition outcome ::
  "('c, 'p) game_session \<Rightarrow>
     'p ptr list \<times> ('c, 'p) effect list \<times> ('c, 'p) effect list \<times> ('c, 'p) effect list" where
  "outcome g =
     (fold members_after (player_strand g) (players g),
      filter is_note (logic_calls g) @
        map handler_effect (all_notes (player_strand g) (players g)),
      filter is_command (logic_calls g),
      sent (effects g) @ all_sends (player_strand g) (players g))"

lemma notes_are_notes [simp]:
  "filter is_note (map handler_effect (notes_of h ps)) = map handler_effect (notes_of h ps)"
  "filter is_command (map handler_effect (notes_of h ps)) = []"
  by (cases h; simp)+

lemma outcome_handler_step:
  assumes "handler_step g i g'"
  shows "outcome g' = outcome g"
  using assms
proof (cases rule: handler_step_cases)
  case (1 h q)
  then show ?thesis
    using logic_calls_handler_step [OF assms] by (simp add: outcome_def sent_def)
next
  case (2 h q)
  then have "logic_calls g' = logic_calls g"
    using logic_calls_handler_step [OF assms] by simp
  with 2 show ?thesis by (simp add: outcome_def sent_def)
qed

interpretation settled: preserved handler_step "\<lambda>g. outcome g = v" for v
  by unfold_locales (simp add: outcome_handler_step)

lemma unsent_kinds [simp]:
  "(\<not> is_send e \<and> is_note e) = is_note e"
  "(\<not> is_send e \<and> is_command e) = is_command e"
  by (cases e; simp)+

lemma outcome_drained:
  "drained g \<Longrightarrow> outcome g =
     (players g, filter is_note (effects g), filter is_command (effects g), sent (effects g))"
  by (simp add: drained_def outcome_def logic_calls_def)

lemma drained_no_step: "drained g \<Longrightarrow> \<not> handler_step g i g'"
  by (auto simp: drained_def elim: handler_step_cases)

section \<open>Properties of the game session\<close>

text \<open>
  C12. Whatever calls are made and however the handlers of the two strands interleave,
  the notifications the game logic has received and those still posted to it describe the
  list of players exactly, and no departure it receives is of a player it has not been
  told of.
\<close>

theorem GameSession_membership_told:
  assumes "runs session_step GameSession_new es g"
  shows "told_members (logic_calls g) [] = players g \<and> departures_known (effects g) []"
proof -
  have "told_inv GameSession_new"
    by (simp add: told_inv_def logic_calls_def GameSession_new_def)
  from told.runs_preserve [OF assms this] show ?thesis
    by (simp add: told_inv_def logic_calls_def departures_known_append departures_known_unsent)
qed

theorem GameSession_membership_told_witness:
  "\<exists>es (g :: (nat, nat) game_session). runs session_step GameSession_new es g \<and>
     players g = [Some 7] \<and> told_members (logic_calls g) [] = players g"
proof -
  let ?es = "[Call (Call_AddPlayer (Some 7)), Run Player_strand]"
  let ?g = "\<lparr>command_strand = [Joined_handler (Some 7)], player_strand = [],
    players = [Some 7], effects = []\<rparr> :: (nat, nat) game_session"
  have r: "runs session_step GameSession_new ?es ?g"
    by (auto simp: runs_Cons_iff session_call_iff session_run_iff player_step_iff AddPlayer_def
        GameSession_new_def strand_post_def)
  from GameSession_membership_told [OF r] r show ?thesis by fastforce
qed

text \<open>
  C15. The order in which the executor picks the strands does not change what happens:
  from the same session, any two executions that run all the handlers end with the same
  players, the same notifications, the same processed commands and the same messages sent,
  each in the same order.
\<close>

theorem GameSession_schedule_independent:
  assumes "runs handler_step g is g1" and "drained g1"
    and "runs handler_step g js g2" and "drained g2"
  shows "players g1 = players g2 \<and> sent (effects g1) = sent (effects g2) \<and>
    filter is_note (effects g1) = filter is_note (effects g2) \<and>
    filter is_command (effects g1) = filter is_command (effects g2)"
proof -
  have "outcome g1 = outcome g2"
    using settled.runs_preserve [OF assms(1) refl] settled.runs_preserve [OF assms(3) refl] by simp
  then show ?thesis using assms(2,4) by (simp add: outcome_drained)
qed

text \<open>
  C35. When no null player was added, the handlers never get stuck and never go on for
  ever: every execution of handlers is at most twice the number of posted player handlers
  plus the number of posted command handlers long, it stops only when both strands are
  empty, and such an execution exists.
\<close>

theorem GameSession_drains:
  assumes "no_null g"
  shows "(\<exists>is g'. runs handler_step g is g' \<and> drained g') \<and>
    (\<forall>is g'. runs handler_step g is g' \<longrightarrow>
       length is \<le> 2 * length (player_strand g) + length (command_strand g) \<and>
       (drained g' \<longleftrightarrow> (\<forall>i h. \<not> handler_step g' i h)))"
proof -
  have stop: "drained g' \<longleftrightarrow> (\<forall>i h. \<not> handler_step g' i h)"
    if "runs handler_step g is g'" for "is" g'
    using null_free.runs_preserve [OF that assms] handler_progress drained_no_step by blast
  obtain js gd where "runs handler_step g js gd" and "\<forall>i h. \<not> handler_step gd i h"
    using drain.runs_reach_end by blast
  with stop have "\<exists>is g'. runs handler_step g is g' \<and> drained g'" by blast
  moreover have "length is \<le> 2 * length (player_strand g) + length (command_strand g)"
    if "runs handler_step g is g'" for "is" g'
    using drain.runs_bounded [OF that] by (simp add: session_work_def)
  ultimately show ?thesis using stop by blast
qed

theorem GameSession_drains_witness:
  "\<exists>is g'. runs handler_step
     (BroadcastMessage ''hi'' None (AddPlayer (Some (1 :: nat)) (GameSession_new :: (nat, nat) game_session)))
     is g' \<and> drained g'"
proof -
  have "no_null (BroadcastMessage ''hi'' None
      (AddPlayer (Some (1 :: nat)) (GameSession_new :: (nat, nat) game_session)))"
    by (simp add: no_null_def BroadcastMessage_def AddPlayer_def GameSession_new_def strand_post_def)
  from GameSession_drains [OF this] show ?thesis by blast
qed

text \<open>A session with a player to add and a command to process, and its two schedules.\<close>

definition join_and_command :: "(nat, nat) game_session" where
  "join_and_command = OnCommand 5 (Some 1) (AddPlayer (Some 1) GameSession_new)"

definition join_and_command_done :: "(nat, nat) effect list \<Rightarrow> (nat, nat) game_session" where
  "join_and_command_done es =
     \<lparr>command_strand = [], player_strand = [], players = [Some 1], effects = es\<rparr>"

lemmas session_eval = runs_Cons_iff session_call_iff session_run_iff player_step_iff
  command_step_iff AddPlayer_def RemovePlayer_def OnCommand_def BroadcastMessage_def
  GameSession_new_def strand_post_def run_command_handler_def

lemma join_and_command_runs:
  "runs handler_step join_and_command [Command_strand, Player_strand, Command_strand]
     (join_and_command_done [ProcessCommand 5 (Some 1), OnPlayerJoined (Some 1)])"
  by (auto simp: session_eval join_and_command_def join_and_command_done_def)

theorem GameSession_schedule_independent_witness:
  "\<exists>is js g1 g2. is \<noteq> js \<and> runs handler_step join_and_command is g1 \<and> drained g1 \<and>
     runs handler_step join_and_command js g2 \<and> drained g2 \<and> players g1 = players g2"
proof -
  let ?g = "join_and_command_done [ProcessCommand 5 (Some 1), OnPlayerJoined (Some 1)]"
  have js: "runs handler_step join_and_command [Player_strand, Command_strand, Command_strand] ?g"
    by (auto simp: session_eval join_and_command_def join_and_command_done_def)
  have dr: "drained ?g" by (simp add: drained_def join_and_command_done_def)
  from GameSession_schedule_independent [OF join_and_command_runs dr js dr] js join_and_command_runs dr
  show ?thesis by blast
qed

text \<open>
  The notification of a joining player is posted two steps after \<open>AddPlayer\<close>, so a
  command sent after \<open>AddPlayer\<close> can be processed before \<open>OnPlayerJoined\<close> of its own
  sender is called.
\<close>

lemma GameSession_command_before_join:
  "\<exists>es (g :: (nat, nat) game_session).
     runs session_step GameSession_new
       (Call (Call_AddPlayer (Some 1)) # Call (Call_OnCommand 5 (Some 1)) # es) g \<and>
     effects g = [ProcessCommand 5 (Some 1), OnPlayerJoined (Some 1)]"
proof -
  let ?es = "[Run Command_strand, Run Player_strand, Run Command_strand]"
  let ?g = "join_and_command_done [ProcessCommand 5 (Some 1), OnPlayerJoined (Some 1)]"
  have "runs session_step GameSession_new
      (Call (Call_AddPlayer (Some 1)) # Call (Call_OnCommand 5 (Some 1)) # ?es) ?g"
    by (auto simp: session_eval join_and_command_done_def)
  then show ?thesis by (fastforce simp: join_and_command_done_def)
qed

text \<open>
  Once the handler of \<open>AddPlayer\<close> has run, no command posted from then on overtakes
  the notification: the calls of the game logic, made and posted, only ever grow at the
  end, so everything posted later comes after \<open>OnPlayerJoined\<close>.
\<close>

lemma GameSession_calls_in_order:
  assumes "runs session_step g es g'"
  shows "\<exists>later. logic_calls g' = logic_calls g @ later"
  using assms by (rule logic_calls_grow_runs)

text \<open>
  A broadcast sends the message once to every entry of the player list but the
  excepted one, in list order, and changes nothing else; it is undefined exactly when the
  list holds a null pointer that is not excepted.
\<close>

lemma GameSession_broadcast:
  "(run_player_handler (Broadcast_handler m ex) g = Inr g' \<longleftrightarrow>
     \<not> (None \<in> set (players g) \<and> ex \<noteq> None) \<and>
     g' = g\<lparr>effects := effects g @
       map (\<lambda>p. SendMessage (the p) m) (filter (\<lambda>p. p \<noteq> ex) (players g))\<rparr>)"
  by (auto simp: broadcast_loop_Inr)

text \<open>
  The handler of \<open>RemovePlayer\<close> removes one entry of the player, the first, and posts
  one notification when there is such an entry; otherwise it does nothing.
\<close>

lemma GameSession_remove:
  "(\<exists>g'. run_player_handler (Remove_handler p) g = Inr g' \<and> effects g' = effects g \<and>
     (\<forall>q. count_list (players g') q = count_list (players g) q - (if q = p then 1 else 0)) \<and>
     command_strand g' = command_strand g @ (if p \<in> set (players g) then [Left_handler p] else []))"
proof (cases "p \<in> set (players g)")
  case True
  then show ?thesis by (auto simp: strand_post_def count_list_remove1)
next
  case False
  then show ?thesis by (auto simp: count_list_0_iff)
qed

end
