(* ===== verification/Cpp_String.thy ===== *)
theory Cpp_String
  imports Prelude
begin

text \<open>
  The conversions between numbers and strings of the C++ standard library that the sources
  use: \<open>std::to_string\<close> on an unsigned value, \<open>std::stoi\<close> and \<open>std::atoi\<close> (base 10), and the
  searches in a \<open>string_view\<close>.
\<close>

definition digit_char :: "nat \<Rightarrow> char" where
  "digit_char d = char_of (48 + d)"

definition is_digit_char :: "char \<Rightarrow> bool" where
  "is_digit_char c \<longleftrightarrow> 48 \<le> (of_char c :: nat) \<and> (of_char c :: nat) \<le> 57"

definition char_digit :: "char \<Rightarrow> nat" where
  "char_digit c = of_char c - 48"

fun std_to_string :: "nat \<Rightarrow> string" where
  "std_to_string n =
     (if n < 10 then [digit_char n] else std_to_string (n div 10) @ [digit_char (n mod 10)])"

declare std_to_string.simps [simp del]

text \<open>
  \<open>std::stoi\<close>: white space is skipped, a sign is taken, the digits up to the first other
  character are the number. No digit is \<open>std::invalid_argument\<close>, a number outside
  \<open>int\<close> is \<open>std::out_of_range\<close>; what follows the digits is ignored.
\<close>

definition is_space_char :: "char \<Rightarrow> bool" where
  "is_space_char c \<longleftrightarrow> (of_char c :: nat) = 32 \<or> (9 \<le> (of_char c :: nat) \<and> (of_char c :: nat) \<le> 13)"

definition digits_value :: "string \<Rightarrow> nat" where
  "digits_value ds = foldl (\<lambda>v c. 10 * v + char_digit c) 0 ds"

fun split_sign :: "string \<Rightarrow> bool \<times> string" where
  "split_sign [] = (False, [])"
| "split_sign (c # cs) =
     (if c = CHR ''-'' then (True, cs) else if c = CHR ''+'' then (False, cs) else (False, c # cs))"

definition std_stoi :: "string \<Rightarrow> int res" where
  "std_stoi s =
     (let (neg, rest) = split_sign (dropWhile is_space_char s);
          ds = takeWhile is_digit_char rest;
          v = (if neg then - int (digits_value ds) else int (digits_value ds))
      in if ds = [] then Inl Invalid_argument
         else if - 2147483648 \<le> v \<and> v \<le> 2147483647 then Inr v
         else Inl Out_of_range)"

section \<open>Printing and reading back\<close>

lemma of_char_digit_char: "d < 10 \<Longrightarrow> (of_char (digit_char d) :: nat) = 48 + d"
  by (simp add: digit_char_def)

lemma digit_char_props:
  assumes "d < 10"
  shows "is_digit_char (digit_char d)" "char_digit (digit_char d) = d"
    "\<not> is_space_char (digit_char d)" "digit_char d \<noteq> CHR ''-''" "digit_char d \<noteq> CHR ''+''"
proof -
  have code: "(of_char (digit_char d) :: nat) = 48 + d" using assms by (rule of_char_digit_char)
  show "is_digit_char (digit_char d)" "char_digit (digit_char d) = d" "\<not> is_space_char (digit_char d)"
    using assms by (simp_all add: is_digit_char_def char_digit_def is_space_char_def code)
  have "(of_char (CHR ''-'') :: nat) = 45" "(of_char (CHR ''+'') :: nat) = 43" by simp_all
  with code show "digit_char d \<noteq> CHR ''-''" "digit_char d \<noteq> CHR ''+''" by fastforce+
qed

lemma std_to_string_digits: "list_all is_digit_char (std_to_string n)"
proof (induction n rule: std_to_string.induct)
  case (1 n)
  then show ?case
    by (cases "n < 10")
      (simp_all add: std_to_string.simps [of n] digit_char_props)
qed

lemma std_to_string_value: "digits_value (std_to_string n) = n"
proof (induction n rule: std_to_string.induct)
  case (1 n)
  then show ?case
    by (cases "n < 10")
      (simp_all add: std_to_string.simps [of n] digits_value_def digit_char_props)
qed

lemma std_to_string_not_Nil [simp]: "std_to_string n \<noteq> []"
  by (simp add: std_to_string.simps [of n])

lemma takeWhile_digits: "list_all is_digit_char ds \<Longrightarrow> takeWhile is_digit_char ds = ds"
  by (induction ds) auto

lemma digit_not_space: "is_digit_char c \<Longrightarrow> \<not> is_space_char c"
  by (auto simp: is_digit_char_def is_space_char_def)

lemma digit_not_sign: "is_digit_char c \<Longrightarrow> c \<noteq> CHR ''-'' \<and> c \<noteq> CHR ''+''"
  by (auto simp: is_digit_char_def)

lemma std_stoi_digits:
  assumes "ds \<noteq> []" and "list_all is_digit_char ds"
  shows "std_stoi ds =
    (if int (digits_value ds) \<le> 2147483647 then Inr (int (digits_value ds)) else Inl Out_of_range)"
proof -
  obtain c cs where ds: "ds = c # cs" using assms(1) by (cases ds) auto
  have "is_digit_char c" using assms(2) ds by simp
  then have "dropWhile is_space_char ds = ds" and "split_sign ds = (False, ds)"
    using digit_not_space [of c] digit_not_sign [of c] by (simp_all add: ds)
  then show ?thesis
    using assms by (simp add: std_stoi_def takeWhile_digits)
qed

lemma std_stoi_to_string: "int n \<le> 2147483647 \<Longrightarrow> std_stoi (std_to_string n) = Inr (int n)"
  using std_stoi_digits [OF std_to_string_not_Nil std_to_string_digits, of n]
  by (simp add: std_to_string_value)

lemma std_stoi_range: "std_stoi s = Inr v \<Longrightarrow> - 2147483648 \<le> v \<and> v \<le> 2147483647"
  by (auto simp: std_stoi_def Let_def split: prod.splits if_splits)

lemma std_stoi_errors: "std_stoi s = Inl e \<Longrightarrow> e = Invalid_argument \<or> e = Out_of_range"
  by (auto simp: std_stoi_def Let_def split: prod.splits if_splits)

section \<open>Searching in strings\<close>

text \<open>
  \<open>string_view::find\<close> with a string, and \<open>rfind\<close> with a one-character string. \<open>c_str\<close> is what
  a function sees that takes a string up to its terminating null character.
\<close>

fun sv_find :: "string \<Rightarrow> string \<Rightarrow> nat option" where
  "sv_find pat [] = (if pat = [] then Some 0 else None)"
| "sv_find pat (c # cs) =
     (if take (length pat) (c # cs) = pat then Some 0 else map_option Suc (sv_find pat cs))"

fun sv_rfind :: "char \<Rightarrow> string \<Rightarrow> nat option" where
  "sv_rfind x [] = None"
| "sv_rfind x (c # cs) =
     (case sv_rfind x cs of Some i \<Rightarrow> Some (Suc i) | None \<Rightarrow> if c = x then Some 0 else None)"

definition c_str :: "string \<Rightarrow> string" where
  "c_str s = takeWhile (\<lambda>c. c \<noteq> CHR 0x00) s"

lemma sv_find_Some_iff: "sv_find pat s \<noteq> None \<longleftrightarrow> (\<exists>us vs. s = us @ pat @ vs)"
proof (induction s)
  case Nil
  then show ?case by simp
next
  case (Cons c cs)
  have "(\<exists>us vs. c # cs = us @ pat @ vs) \<longleftrightarrow>
      (\<exists>vs. c # cs = pat @ vs) \<or> (\<exists>us vs. cs = us @ pat @ vs)" (is "?l \<longleftrightarrow> ?r")
  proof
    assume ?l
    then obtain us vs where eq: "c # cs = us @ pat @ vs" by blast
    then show ?r by (cases us) auto
  next
    assume ?r
    then show ?l
    proof (elim disjE exE)
      fix vs assume "c # cs = pat @ vs"
      then have "c # cs = [] @ pat @ vs" by simp
      then show ?l by blast
    next
      fix us vs assume "cs = us @ pat @ vs"
      then have "c # cs = (c # us) @ pat @ vs" by simp
      then show ?l by blast
    qed
  qed
  moreover have "(\<exists>vs. c # cs = pat @ vs) \<longleftrightarrow> take (length pat) (c # cs) = pat"
    by (metis append_eq_conv_conj append_take_drop_id)
  ultimately show ?case using Cons.IH by auto
qed

lemma sv_find_None_append: "sv_find pat (us @ vs) = None \<Longrightarrow> sv_find pat us = None \<and> sv_find pat vs = None"
proof -
  assume "sv_find pat (us @ vs) = None"
  then have "\<not> (\<exists>as bs. us @ vs = as @ pat @ bs)" using sv_find_Some_iff by blast
  then have "\<not> (\<exists>as bs. us = as @ pat @ bs)" "\<not> (\<exists>as bs. vs = as @ pat @ bs)"
    by (metis append.assoc)+
  then show ?thesis using sv_find_Some_iff by blast
qed

lemma sv_rfind_None_iff: "sv_rfind x s = None \<longleftrightarrow> x \<notin> set s"
  by (induction s) (auto split: option.splits)

text \<open>Where \<open>rfind\<close> finds its character, the last one, the rest of the string begins.\<close>

lemma sv_rfind_append: "x \<notin> set bs \<Longrightarrow> sv_rfind x (as @ x # bs) = Some (length as)"
  by (induction as) (simp_all add: iffD2 [OF sv_rfind_None_iff])

section \<open>Reading a number the C way\<close>

text \<open>
  \<open>std::atoi\<close> reads like \<open>std::stoi\<close>, but gives 0 without digits; a number outside \<open>int\<close> is
  undefined behaviour.
\<close>

definition std_atoi :: "string \<Rightarrow> int res" where
  "std_atoi s =
     (let (neg, rest) = split_sign (dropWhile is_space_char (c_str s));
          v = (let n = digits_value (takeWhile is_digit_char rest) in if neg then - int n else int n)
      in if - 2147483648 \<le> v \<and> v \<le> 2147483647 then Inr v else Inl (Undefined Signed_overflow))"

lemma std_atoi_stoi:
  assumes "CHR 0x00 \<notin> set s"
  shows "std_atoi s = (case std_stoi s of
     Inr v \<Rightarrow> Inr v
   | Inl e \<Rightarrow> if e = Invalid_argument then Inr 0 else Inl (Undefined Signed_overflow))"
proof -
  have "c_str s = s" using assms by (simp add: c_str_def takeWhile_eq_all_conv) metis
  then show ?thesis
    by (simp add: std_atoi_def std_stoi_def Let_def digits_value_def split: prod.split)
qed

lemma std_atoi_range: "std_atoi s = Inr v \<Longrightarrow> - 2147483648 \<le> v \<and> v \<le> 2147483647"
  by (auto simp: std_atoi_def Let_def split: prod.splits if_splits)

end
