(* ===== verification/Http_Common.thy ===== *)
theory Http_Common
  imports Prelude
begin

text \<open>
  The vocabulary of the HTTP layer: \<open>networking/http/common.hpp\<close> and the conversion
  between Beast's verbs and the server's methods of \<open>networking/http/beast_utils.hpp\<close>.
\<close>

type_synonym path = string
type_synonym params = "string \<rightharpoonup> string"

datatype http_method = UNKNOWN | GET | POST | PUT | DELETE | PATCH

text \<open>
  \<open>boost::beast::http::verb\<close> is Beast's enumeration. The model keeps it as a type parameter
  and takes the six enumerators the code names.
\<close>

record 'v verbs =
  verb_get :: 'v
  verb_post :: 'v
  verb_put :: 'v
  verb_delete :: 'v
  verb_patch :: 'v
  verb_unknown :: 'v

text \<open>The enumerators of an enumeration are different values.\<close>

definition distinct_verbs :: "'v verbs \<Rightarrow> bool" where
  "distinct_verbs vs \<longleftrightarrow> distinct [verb_get vs, verb_post vs, verb_put vs, verb_delete vs,
     verb_patch vs, verb_unknown vs]"

definition verb_map :: "'v verbs \<Rightarrow> ('v \<times> http_method) list" where
  "verb_map vs = [(verb_get vs, GET), (verb_post vs, POST), (verb_put vs, PUT),
     (verb_delete vs, DELETE), (verb_patch vs, PATCH), (verb_unknown vs, UNKNOWN)]"

text \<open>The two instances of the search over the array of pairs.\<close>

fun find_method :: "('v \<times> http_method) list \<Rightarrow> 'v \<Rightarrow> http_method" where
  "find_method [] v = UNKNOWN"
| "find_method ((w, m) # ps) v = (if w = v then m else find_method ps v)"

fun find_verb :: "'v \<Rightarrow> ('v \<times> http_method) list \<Rightarrow> http_method \<Rightarrow> 'v" where
  "find_verb unknown [] m = unknown"
| "find_verb unknown ((w, k) # ps) m = (if k = m then w else find_verb unknown ps m)"

definition ConvertVerbBeast_to_method :: "'v verbs \<Rightarrow> 'v \<Rightarrow> http_method" where
  "ConvertVerbBeast_to_method vs v = find_method (verb_map vs) v"

definition ConvertVerbBeast_to_verb :: "'v verbs \<Rightarrow> http_method \<Rightarrow> 'v" where
  "ConvertVerbBeast_to_verb vs m = find_verb (verb_unknown vs) (verb_map vs) m"

lemmas ConvertVerb_defs = ConvertVerbBeast_to_method_def ConvertVerbBeast_to_verb_def verb_map_def

lemma to_method_get: "ConvertVerbBeast_to_method vs (verb_get vs) = GET"
  by (simp add: ConvertVerb_defs)

text \<open>
  C40. Converting a method to Beast's verb and back gives the method; converting a verb to a
  method and back gives the verb if it is one of the six the table names, and
  \<open>verb::unknown\<close> for every other verb, which the server sees as \<open>UNKNOWN\<close>.
\<close>

theorem ConvertVerb_roundtrip:
  assumes "distinct_verbs vs"
  shows "ConvertVerbBeast_to_method vs (ConvertVerbBeast_to_verb vs m) = m \<and>
    ConvertVerbBeast_to_verb vs (ConvertVerbBeast_to_method vs v) =
      (if v \<in> fst ` set (verb_map vs) then v else verb_unknown vs) \<and>
    (v \<notin> fst ` set (verb_map vs) \<longrightarrow> ConvertVerbBeast_to_method vs v = UNKNOWN)"
proof -
  have "ConvertVerbBeast_to_method vs (ConvertVerbBeast_to_verb vs m) = m"
    using assms by (cases m) (auto simp: ConvertVerb_defs distinct_verbs_def)
  moreover have "ConvertVerbBeast_to_verb vs (ConvertVerbBeast_to_method vs v) =
      (if v \<in> fst ` set (verb_map vs) then v else verb_unknown vs)"
    by (auto simp: ConvertVerb_defs)
  moreover have "v \<notin> fst ` set (verb_map vs) \<longrightarrow> ConvertVerbBeast_to_method vs v = UNKNOWN"
    by (auto simp: ConvertVerb_defs)
  ultimately show ?thesis by blast
qed

text \<open>Verbs numbered, to instantiate the parameter.\<close>

definition numbered_verbs :: "nat verbs" where
  "numbered_verbs = \<lparr>verb_get = 2, verb_post = 4, verb_put = 5, verb_delete = 1,
     verb_patch = 28, verb_unknown = 0\<rparr>"

lemma distinct_numbered_verbs: "distinct_verbs numbered_verbs"
  by (simp add: distinct_verbs_def numbered_verbs_def)

theorem ConvertVerb_roundtrip_witness:
  "ConvertVerbBeast_to_method numbered_verbs (ConvertVerbBeast_to_verb numbered_verbs PATCH) = PATCH \<and>
   ConvertVerbBeast_to_verb numbered_verbs (ConvertVerbBeast_to_method numbered_verbs 28) = 28 \<and>
   ConvertVerbBeast_to_verb numbered_verbs (ConvertVerbBeast_to_method numbered_verbs 3) = 0"
proof -
  have "28 \<in> fst ` set (verb_map numbered_verbs)" "3 \<notin> fst ` set (verb_map numbered_verbs)"
    "verb_unknown numbered_verbs = 0"
    by (simp_all add: verb_map_def numbered_verbs_def)
  then show ?thesis
    using ConvertVerb_roundtrip [OF distinct_numbered_verbs, of PATCH 28]
      ConvertVerb_roundtrip [OF distinct_numbered_verbs, of PATCH 3]
    by auto
qed

end
