(* ===== verification/Route_Manager.thy ===== *)
theory Route_Manager
  imports Http_Common
begin

text \<open>
  The route manager and its builder: \<open>networking/route_manager_base.hpp\<close>. Callbacks and
  websocket handlers are type parameters, since the class only stores and returns them.
\<close>

section \<open>The route manager\<close>

type_synonym 'cb callback_map = "http_method \<rightharpoonup> (path \<rightharpoonup> 'cb)"

record ('cb, 'h) route_manager =
  callbacks :: "'cb callback_map"
  ws_handlers :: "path \<rightharpoonup> 'h"

definition RouteManagerBase_default :: "('cb, 'h) route_manager" where
  "RouteManagerBase_default = \<lparr>callbacks = Map.empty, ws_handlers = Map.empty\<rparr>"

definition RouteManagerBase_of ::
  "'cb callback_map \<Rightarrow> (path \<rightharpoonup> 'h) \<Rightarrow> ('cb, 'h) route_manager" where
  "RouteManagerBase_of cbs hs = \<lparr>callbacks = cbs, ws_handlers = hs\<rparr>"

definition GetWSHandler :: "http_method \<Rightarrow> path \<Rightarrow> ('cb, 'h) route_manager \<Rightarrow> 'h option" where
  "GetWSHandler method p rm = (if method = GET then ws_handlers rm p else None)"

definition GetCallback :: "http_method \<Rightarrow> path \<Rightarrow> ('cb, 'h) route_manager \<Rightarrow> 'cb option" where
  "GetCallback method p rm =
     (case callbacks rm method of None \<Rightarrow> None | Some by_path \<Rightarrow> by_path p)"

text \<open>
  \<open>callbacks[method]\<close> creates the inner map of the method when it is missing; \<open>emplace\<close>
  keeps a callback that is already registered for the path.
\<close>

definition AddCallback ::
  "http_method \<Rightarrow> path \<Rightarrow> 'cb \<Rightarrow> 'cb callback_map \<Rightarrow> 'cb callback_map" where
  "AddCallback method p callback cbs =
     (let by_path = (case cbs method of None \<Rightarrow> Map.empty | Some inner \<Rightarrow> inner)
      in umap_assign method (umap_emplace p callback by_path) cbs)"

definition AddCallbackInternal ::
  "http_method \<Rightarrow> path \<Rightarrow> 'cb \<Rightarrow> ('cb, 'h) route_manager \<Rightarrow> ('cb, 'h) route_manager" where
  "AddCallbackInternal method p callback rm =
     rm\<lparr>callbacks := AddCallback method p callback (callbacks rm)\<rparr>"

definition AddWSCallbackInternal ::
  "path \<Rightarrow> 'h \<Rightarrow> ('cb, 'h) route_manager \<Rightarrow> ('cb, 'h) route_manager" where
  "AddWSCallbackInternal p handler rm = rm\<lparr>ws_handlers := umap_emplace p handler (ws_handlers rm)\<rparr>"

lemma GetCallback_AddCallbackInternal:
  "GetCallback m' p' (AddCallbackInternal m p cb rm) =
     (if (m', p') = (m, p) \<and> GetCallback m p rm = None then Some cb else GetCallback m' p' rm)"
  by (auto simp: GetCallback_def AddCallbackInternal_def AddCallback_def umap.lookup_assign
      umap.lookup_emplace Let_def split: option.splits)

lemma GetWSHandler_AddWSCallbackInternal:
  "GetWSHandler GET p' (AddWSCallbackInternal p h rm) =
     (if p' = p \<and> GetWSHandler GET p rm = None then Some h else GetWSHandler GET p' rm)"
  by (simp add: GetWSHandler_def AddWSCallbackInternal_def umap.lookup_emplace)

lemma GetCallback_ws [simp]: "GetCallback m p (AddWSCallbackInternal q h rm) = GetCallback m p rm"
  by (simp add: GetCallback_def AddWSCallbackInternal_def)

lemma GetWSHandler_cb [simp]:
  "GetWSHandler m p (AddCallbackInternal k q cb rm) = GetWSHandler m p rm"
  by (simp add: GetWSHandler_def AddCallbackInternal_def)

text \<open>Both tables register: the first entry of a key is the one found.\<close>

interpretation callback_table: registration
    "\<lambda>rm k. GetCallback (fst k) (snd k) rm" "\<lambda>k. AddCallbackInternal (fst k) (snd k)"
  by unfold_locales (simp add: GetCallback_AddCallbackInternal prod_eq_iff)

interpretation websocket_table: registration
    "\<lambda>rm p. GetWSHandler GET p rm" AddWSCallbackInternal
  by unfold_locales (rule GetWSHandler_AddWSCallbackInternal)

section \<open>The builder\<close>

text \<open>
  The builder owns the manager through a \<open>std::unique_ptr\<close>. \<open>Build\<close> moves it out, which
  leaves the null pointer behind; \<open>Add\<close> and \<open>AddWebsocket\<close> go through the pointer.
\<close>

record ('cb, 'h) builder =
  rm_ptr :: "('cb, 'h) route_manager option"

definition RouteManagerBuilder_new :: "('cb, 'h) builder" where
  "RouteManagerBuilder_new = \<lparr>rm_ptr = Some RouteManagerBase_default\<rparr>"

definition Build :: "('cb, 'h) builder \<Rightarrow> ('cb, 'h) route_manager option \<times> ('cb, 'h) builder" where
  "Build b = (rm_ptr b, b\<lparr>rm_ptr := None\<rparr>)"

text \<open>\<open>made\<close> is what the constructor of the given type returns.\<close>

definition WithRouteManagerType ::
  "('cb, 'h) route_manager \<Rightarrow> ('cb, 'h) builder \<Rightarrow> ('cb, 'h) builder" where
  "WithRouteManagerType made b = b\<lparr>rm_ptr := Some made\<rparr>"

definition Add ::
  "http_method \<Rightarrow> path \<Rightarrow> 'cb \<Rightarrow> ('cb, 'h) builder \<Rightarrow> ('cb, 'h) builder res" where
  "Add method p callback b =
     (case rm_ptr b of
        None \<Rightarrow> Inl (Undefined Null_pointer)
      | Some rm \<Rightarrow> Inr (b\<lparr>rm_ptr := Some (AddCallbackInternal method p callback rm)\<rparr>))"

definition AddWebsocket :: "path \<Rightarrow> 'h \<Rightarrow> ('cb, 'h) builder \<Rightarrow> ('cb, 'h) builder res" where
  "AddWebsocket p handler b =
     (case rm_ptr b of
        None \<Rightarrow> Inl (Undefined Null_pointer)
      | Some rm \<Rightarrow> Inr (b\<lparr>rm_ptr := Some (AddWSCallbackInternal p handler rm)\<rparr>))"

text \<open>A chain of calls on a builder.\<close>

datatype ('cb, 'h) builder_call =
    Add_call http_method path 'cb
  | AddWebsocket_call path 'h
  | WithType_call "('cb, 'h) route_manager"

fun run_builder_call :: "('cb, 'h) builder_call \<Rightarrow> ('cb, 'h) builder \<Rightarrow> ('cb, 'h) builder res" where
  "run_builder_call (Add_call m p cb) b = Add m p cb b"
| "run_builder_call (AddWebsocket_call p h) b = AddWebsocket p h b"
| "run_builder_call (WithType_call rm) b = Inr (WithRouteManagerType rm b)"

definition run_builder ::
  "('cb, 'h) builder_call list \<Rightarrow> ('cb, 'h) builder \<Rightarrow> ('cb, 'h) builder res" where
  "run_builder calls b = fold_res run_builder_call calls b"

section \<open>What a built manager answers\<close>

text \<open>
  The contract of a chain of calls: the manager of the last \<open>WithRouteManagerType\<close> (or the
  default one) and the routes added after it, in the order they were added.
\<close>

fun chain_base :: "('cb, 'h) builder_call list \<Rightarrow> ('cb, 'h) route_manager \<Rightarrow> ('cb, 'h) route_manager" where
  "chain_base [] rm = rm"
| "chain_base (WithType_call made # cs) rm = chain_base cs made"
| "chain_base (_ # cs) rm = chain_base cs rm"

fun last_chain :: "('cb, 'h) builder_call list \<Rightarrow> ('cb, 'h) builder_call list" where
  "last_chain [] = []"
| "last_chain (WithType_call made # cs) = last_chain cs"
| "last_chain (c # cs) = (if \<exists>made. WithType_call made \<in> set cs then last_chain cs else c # cs)"

fun http_routes :: "('cb, 'h) builder_call list \<Rightarrow> ((http_method \<times> path) \<times> 'cb) list" where
  "http_routes [] = []"
| "http_routes (Add_call m p cb # cs) = ((m, p), cb) # http_routes cs"
| "http_routes (_ # cs) = http_routes cs"

fun ws_routes :: "('cb, 'h) builder_call list \<Rightarrow> (path \<times> 'h) list" where
  "ws_routes [] = []"
| "ws_routes (AddWebsocket_call p h # cs) = (p, h) # ws_routes cs"
| "ws_routes (_ # cs) = ws_routes cs"

definition first_of :: "'a option \<Rightarrow> 'a option \<Rightarrow> 'a option" where
  "first_of x y = (case x of Some v \<Rightarrow> Some v | None \<Rightarrow> y)"

text \<open>Without \<open>WithRouteManagerType\<close> a chain registers its routes one after the other.\<close>

lemma run_builder_plain:
  "(\<forall>made. WithType_call made \<notin> set cs) \<Longrightarrow>
   \<exists>rm'. run_builder cs \<lparr>rm_ptr = Some rm\<rparr> = Inr \<lparr>rm_ptr = Some rm'\<rparr> \<and>
     (\<forall>m p. GetCallback m p rm' = first_of (GetCallback m p rm) (map_of (http_routes cs) (m, p))) \<and>
     (\<forall>p. GetWSHandler GET p rm' = first_of (GetWSHandler GET p rm) (map_of (ws_routes cs) p))"
proof (induction cs arbitrary: rm)
  case Nil
  then show ?case by (simp add: run_builder_def first_of_def split: option.split)
next
  case (Cons c cs)
  show ?case
  proof (cases c)
    case (Add_call m p cb)
    with Cons.IH [of "AddCallbackInternal m p cb rm"] Cons.prems show ?thesis
      by (fastforce simp: run_builder_def Add_def first_of_def GetCallback_AddCallbackInternal
          split: option.splits)
  next
    case (AddWebsocket_call p h)
    with Cons.IH [of "AddWSCallbackInternal p h rm"] Cons.prems show ?thesis
      by (fastforce simp: run_builder_def AddWebsocket_def first_of_def
          GetWSHandler_AddWSCallbackInternal split: option.splits)
  next
    case (WithType_call made)
    with Cons.prems show ?thesis by auto
  qed
qed

lemma chain_base_plain: "(\<forall>made. WithType_call made \<notin> set cs) \<Longrightarrow> chain_base cs rm = rm"
  by (induction cs rm rule: chain_base.induct) auto

lemma chain_base_typed:
  "WithType_call made \<in> set cs \<Longrightarrow> chain_base cs rm = chain_base cs rm'"
  by (induction cs rm arbitrary: rm' rule: chain_base.induct) auto

lemma last_chain_plain: "(\<forall>made. WithType_call made \<notin> set cs) \<Longrightarrow> last_chain cs = cs"
  by (cases cs rule: last_chain.cases) auto

lemma run_builder_lookup:
  "\<exists>rm'. run_builder cs \<lparr>rm_ptr = Some rm\<rparr> = Inr \<lparr>rm_ptr = Some rm'\<rparr> \<and>
     (\<forall>m p. GetCallback m p rm' =
        first_of (GetCallback m p (chain_base cs rm)) (map_of (http_routes (last_chain cs)) (m, p))) \<and>
     (\<forall>p. GetWSHandler GET p rm' =
        first_of (GetWSHandler GET p (chain_base cs rm)) (map_of (ws_routes (last_chain cs)) p))"
proof (induction cs arbitrary: rm)
  case Nil
  then show ?case using run_builder_plain [of "[]" rm] by simp
next
  case (Cons c cs)
  show ?case
  proof (cases "\<exists>made. WithType_call made \<in> set (c # cs)")
    case False
    then show ?thesis
      using run_builder_plain [of "c # cs" rm] chain_base_plain [of "c # cs" rm]
        last_chain_plain [of "c # cs"] by simp
  next
    case True
    show ?thesis
    proof (cases c)
      case (WithType_call made)
      with Cons.IH [of made] show ?thesis
        by (simp add: run_builder_def WithRouteManagerType_def)
    next
      case (Add_call m p cb)
      with True Cons.IH [of "AddCallbackInternal m p cb rm"] show ?thesis
        by (auto simp: run_builder_def Add_def chain_base_typed [of _ cs "AddCallbackInternal m p cb rm" rm])
    next
      case (AddWebsocket_call p h)
      with True Cons.IH [of "AddWSCallbackInternal p h rm"] show ?thesis
        by (auto simp: run_builder_def AddWebsocket_def chain_base_typed [of _ cs "AddWSCallbackInternal p h rm" rm])
    qed
  qed
qed

section \<open>Properties of the route manager\<close>


text \<open>
  A route added for a method and path, or a websocket path, that already has one changes
  the answer of no lookup: the new callback is dropped without a sign.
\<close>

lemma RouteManager_duplicate_ignored:
  assumes "GetCallback m p rm = Some cb" and "GetWSHandler GET q rm = Some h"
  shows "GetCallback m' p' (AddCallbackInternal m p cb' rm) = GetCallback m' p' rm \<and>
    GetWSHandler m' p' (AddWSCallbackInternal q h' rm) = GetWSHandler m' p' rm"
proof
  have "GetCallback (fst (m, p)) (snd (m, p)) rm = Some cb" using assms(1) by simp
  from fun_cong [OF callback_table.register_again [OF this], of "(m', p')"]
  show "GetCallback m' p' (AddCallbackInternal m p cb' rm) = GetCallback m' p' rm" by simp
  show "GetWSHandler m' p' (AddWSCallbackInternal q h' rm) = GetWSHandler m' p' rm"
    using fun_cong [OF websocket_table.register_again [OF assms(2)], of p']
    by (cases "m' = GET") (auto simp: GetWSHandler_def)
qed

text \<open>
  \<open>WithRouteManagerType\<close> replaces the manager: every route added before it is lost, and
  a chain that ends with it finds nothing but what the new manager came with.
\<close>

lemma RouteManager_type_drops_routes:
  "\<exists>b. run_builder (cs @ [WithType_call made]) RouteManagerBuilder_new = Inr b \<and>
     fst (Build b) = Some made"
proof -
  obtain rm where "run_builder cs RouteManagerBuilder_new = Inr \<lparr>rm_ptr = Some rm\<rparr>"
    using run_builder_lookup [of cs RouteManagerBase_default]
    unfolding RouteManagerBuilder_new_def by blast
  then show ?thesis
    by (simp add: run_builder_def fold_res_append WithRouteManagerType_def Build_def)
qed

text \<open>
  After \<open>Build\<close> the builder holds no manager: a further \<open>Add\<close> or \<open>AddWebsocket\<close> goes
  through the null pointer, and a further \<open>Build\<close> returns the null pointer.
\<close>

lemma RouteManager_builder_spent:
  "Add m p cb (snd (Build b)) = Inl (Undefined Null_pointer) \<and>
   AddWebsocket q h (snd (Build b)) = Inl (Undefined Null_pointer) \<and>
   fst (Build (snd (Build b))) = None"
  by (simp add: Add_def AddWebsocket_def Build_def)

end
