(* ===== verification/Http_Session.thy ===== *)
theory Http_Session
  imports Route_Manager Cpp_String
begin

text \<open>
  An HTTP connection: \<open>networking/http/http_session.h\<close> and \<open>http_session.cpp\<close>. The state
  holds the members the handlers use and the asynchronous operations they have started and
  not yet finished; a step is the completion of one of them.
\<close>

section \<open>Messages and the libraries' functions\<close>

text \<open>A Beast request as far as the code reads it, and a response as far as it is written.\<close>

record 'v request =
  rq_method :: 'v
  rq_target :: string
  rq_version :: nat
  rq_keep_alive :: bool
  rq_fields :: "string \<rightharpoonup> string"
  rq_body :: string

record response =
  rs_status :: nat
  rs_version :: nat
  rs_keep_alive :: bool
  rs_fields :: "string \<rightharpoonup> string"
  rs_body :: string

text \<open>The numbers of the status codes the code names.\<close>

definition status_ok :: nat where "status_ok = 200"
definition status_not_found :: nat where "status_not_found = 404"

text \<open>
  What the session calls in Boost.Beast and Boost.URL, as parameters: the verbs, the test
  for an upgrade request, the URI parser with the accessors of its result (\<open>'u\<close>), the
  payload headers, and what a moved-from response holds.
\<close>

record ('v, 'u) http_lib =
  lib_verbs :: "'v verbs"
  is_upgrade :: "'v request \<Rightarrow> bool"
  parse_uri :: "string \<Rightarrow> 'u option"
  uri_path :: "'u \<Rightarrow> string"
  query_parses :: "'u \<Rightarrow> bool"
  encoded_params :: "'u \<Rightarrow> (string \<times> string option) list"
  prepare_payload :: "response \<Rightarrow> response"
  moved_from :: "response \<Rightarrow> response"

definition ParseUri ::
  "('v, 'u) http_lib \<Rightarrow> string \<Rightarrow> string \<Rightarrow> 16 word \<Rightarrow> string \<Rightarrow> 'u option" where
  "ParseUri lib protocol local_address port target =
     (let full_path = protocol @ ''://'' @ local_address @ '':'' @ std_to_string (unat port) @ target
      in parse_uri lib full_path)"

text \<open>Parameters without a key are dropped; \<open>emplace\<close> keeps the first value of a key.\<close>

fun ParseQuery_loop :: "(string \<times> string option) list \<Rightarrow> params \<Rightarrow> params" where
  "ParseQuery_loop [] ps = ps"
| "ParseQuery_loop ((key, value) # qs) ps =
     (if key \<noteq> ''''
      then ParseQuery_loop qs (umap_emplace key (case value of Some v \<Rightarrow> v | None \<Rightarrow> '''') ps)
      else ParseQuery_loop qs ps)"

definition ParseQuery :: "('v, 'u) http_lib \<Rightarrow> 'u \<Rightarrow> params option" where
  "ParseQuery lib u =
     (if query_parses lib u then Some (ParseQuery_loop (encoded_params lib u) Map.empty) else None)"

section \<open>The session\<close>

text \<open>A callback of the routes may change the application's state \<open>'w\<close> and may fail.\<close>

type_synonym ('v, 'w) callback =
  "'v request \<Rightarrow> params option \<Rightarrow> response \<Rightarrow> 'w \<Rightarrow> (response \<times> 'w) res"

text \<open>An outstanding read carries the body limit and the timeout it was started with.\<close>

datatype read_op = Read_op (body_limit: nat) (timeout_secs: nat)

record ('v, 'h) http_session =
  local_address :: string
  local_port :: "16 word"
  parser :: bool
  keep_alive :: bool
  response :: "response option"
  reads :: "read_op list"
  writes :: "response list"
  delivered :: "response list"
  send_shutdown :: bool
  ws_started :: "('v request \<times> params option \<times> 'h) option"

definition HttpSession_new :: "string \<Rightarrow> 16 word \<Rightarrow> ('v, 'h) http_session" where
  "HttpSession_new address port = \<lparr>local_address = address, local_port = port, parser = False,
     keep_alive = False, response = None, reads = [], writes = [], delivered = [],
     send_shutdown = False, ws_started = None\<rparr>"

definition HttpSession_Close :: "('v, 'h) http_session \<Rightarrow> ('v, 'h) http_session" where
  "HttpSession_Close s = s\<lparr>send_shutdown := True\<rparr>"

definition HttpSession_Read :: "('v, 'h) http_session \<Rightarrow> ('v, 'h) http_session" where
  "HttpSession_Read s = s\<lparr>parser := True, reads := reads s @ [Read_op 10000 30]\<rparr>"

text \<open>\<open>Run\<close> dispatches the first \<open>Read\<close>.\<close>

definition HttpSession_Run :: "('v, 'h) http_session \<Rightarrow> ('v, 'h) http_session" where
  "HttpSession_Run s = HttpSession_Read s"

text \<open>\<open>response_.value()\<close> throws when there is no response; the message is moved out of it.\<close>

definition HttpSession_Write ::
  "('v, 'u) http_lib \<Rightarrow> ('v, 'h) http_session \<Rightarrow> ('v, 'h) http_session res" where
  "HttpSession_Write lib s =
     (case response s of
        None \<Rightarrow> Inl Bad_optional_access
      | Some r \<Rightarrow>
          let r' = prepare_payload lib r
          in Inr (s\<lparr>keep_alive := rs_keep_alive r, writes := writes s @ [r'],
                    response := Some (moved_from lib r')\<rparr>))"

definition server_version :: string where
  "server_version = ''game-server-v0''"

text \<open>The response every request with a parsable target starts from.\<close>

definition fresh_response :: "'v request \<Rightarrow> response" where
  "fresh_response req = \<lparr>rs_status = status_ok, rs_version = rq_version req,
     rs_keep_alive = rq_keep_alive req, rs_fields = [''Server'' \<mapsto> server_version], rs_body = ''''\<rparr>"

text \<open>\<open>response_->\<close> is undefined when there is no response.\<close>

definition HttpSession_target_not_found ::
  "string \<Rightarrow> ('v, 'h) http_session \<Rightarrow> ('v, 'h) http_session res" where
  "HttpSession_target_not_found full_target s =
     (case response s of
        None \<Rightarrow> Inl (Undefined Empty_optional)
      | Some r \<Rightarrow> Inr (s\<lparr>response := Some (r\<lparr>rs_status := status_not_found,
          rs_body := ''Unknown HTTP-target: '' @ full_target\<rparr>)\<rparr>))"

definition HttpSession_finish ::
  "('v, 'u) http_lib \<Rightarrow> ('v, 'h) http_session \<Rightarrow> 'w \<Rightarrow> (('v, 'h) http_session \<times> 'w) res" where
  "HttpSession_finish lib s w =
     bind_res (HttpSession_Write lib s) (\<lambda>s'. Inr (HttpSession_Read s', w))"

text \<open>
  The part of \<open>OnRead\<close> after the error checks. \<open>rm\<close> is the route manager's pointer; the
  null pointer is undefined as soon as a target is looked up.
\<close>

definition HttpSession_OnRequest ::
  "('v, 'u) http_lib \<Rightarrow> (('v, 'w) callback, 'h) route_manager option \<Rightarrow> 'v request \<Rightarrow>
     ('v, 'h) http_session \<Rightarrow> 'w \<Rightarrow> (('v, 'h) http_session \<times> 'w) res" where
  "HttpSession_OnRequest lib route_manager req s w =
     (let method = ConvertVerbBeast_to_method (lib_verbs lib) (rq_method req);
          full_target = rq_target req;
          upgrade = is_upgrade lib req;
          uri = ParseUri lib (if upgrade then ''ws'' else ''http'')
            (local_address s) (local_port s) full_target;
          not_found = (\<lambda>s. bind_res (HttpSession_target_not_found full_target s)
            (\<lambda>s'. HttpSession_finish lib s' w))
      in case uri of
           None \<Rightarrow> not_found s
         | Some u \<Rightarrow>
             (let params = ParseQuery lib u;
                  target = uri_path lib u;
                  s1 = s\<lparr>response := Some (fresh_response req)\<rparr>
              in case route_manager of
                   None \<Rightarrow> Inl (Undefined Null_pointer)
                 | Some rm \<Rightarrow>
                     if upgrade
                     then (case GetWSHandler method target rm of
                             Some h \<Rightarrow> Inr (s1\<lparr>ws_started := Some (req, params, h)\<rparr>, w)
                           | None \<Rightarrow> not_found s1)
                     else (case GetCallback method target rm of
                             Some cb \<Rightarrow> bind_res (cb req params (fresh_response req) w)
                               (\<lambda>(r, w'). HttpSession_finish lib (s1\<lparr>response := Some r\<rparr>) w')
                           | None \<Rightarrow> not_found s1)))"

text \<open>The result of an asynchronous read.\<close>

datatype 'v read_result = Got_request "'v request" | End_of_stream | Read_failed

definition HttpSession_OnRead ::
  "('v, 'u) http_lib \<Rightarrow> (('v, 'w) callback, 'h) route_manager option \<Rightarrow> 'v read_result \<Rightarrow>
     ('v, 'h) http_session \<Rightarrow> 'w \<Rightarrow> (('v, 'h) http_session \<times> 'w) res" where
  "HttpSession_OnRead lib route_manager result s w =
     (case result of
        End_of_stream \<Rightarrow> Inr (HttpSession_Close s, w)
      | Read_failed \<Rightarrow> Inr (s, w)
      | Got_request req \<Rightarrow>
          if parser s then HttpSession_OnRequest lib route_manager req s w
          else Inl (Undefined Empty_optional))"

definition HttpSession_OnWrite :: "bool \<Rightarrow> ('v, 'h) http_session \<Rightarrow> ('v, 'h) http_session" where
  "HttpSession_OnWrite ok s =
     (if \<not> ok then s else if \<not> keep_alive s then HttpSession_Close s else s)"

section \<open>Steps of a session\<close>

text \<open>
  The oldest outstanding read or the oldest outstanding write completes. A successful
  write has put its response on the wire.
\<close>

datatype 'v http_event = Read_done "'v read_result" | Write_done bool

inductive http_step ::
  "('v, 'u) http_lib \<Rightarrow> (('v, 'w) callback, 'h) route_manager option \<Rightarrow>
     ('v, 'h) http_session \<times> 'w \<Rightarrow> 'v http_event \<Rightarrow> ('v, 'h) http_session \<times> 'w \<Rightarrow> bool"
  for lib rm where
  read_done: "reads s = r # rs \<Longrightarrow> HttpSession_OnRead lib rm result (s\<lparr>reads := rs\<rparr>) w = Inr (s', w') \<Longrightarrow>
     http_step lib rm (s, w) (Read_done result) (s', w')"
| write_done: "writes s = m # ms \<Longrightarrow>
     s' = HttpSession_OnWrite ok (s\<lparr>writes := ms, delivered := delivered s @ (if ok then [m] else [])\<rparr>) \<Longrightarrow>
     http_step lib rm (s, w) (Write_done ok) (s', w)"

inductive_simps http_read_iff: "http_step lib rm (s, w) (Read_done result) t"
inductive_simps http_write_iff: "http_step lib rm (s, w) (Write_done ok) t"

section \<open>What a request leads to\<close>

text \<open>The session after a response was written and the next read started.\<close>

definition replied ::
  "('v, 'u) http_lib \<Rightarrow> response \<Rightarrow> ('v, 'h) http_session \<Rightarrow> ('v, 'h) http_session" where
  "replied lib r s = s\<lparr>response := Some (moved_from lib (prepare_payload lib r)),
     keep_alive := rs_keep_alive r, writes := writes s @ [prepare_payload lib r],
     parser := True, reads := reads s @ [Read_op 10000 30]\<rparr>"

lemmas HttpSession_defs = HttpSession_Close_def HttpSession_Read_def HttpSession_Run_def
  HttpSession_Write_def HttpSession_target_not_found_def HttpSession_finish_def
  HttpSession_OnWrite_def HttpSession_new_def

lemma HttpSession_finish_Some:
  "response s = Some r \<Longrightarrow> HttpSession_finish lib s w = Inr (replied lib r s, w)"
  by (simp add: HttpSession_defs replied_def Let_def)

lemma not_found_reply:
  "bind_res (HttpSession_target_not_found target s) (\<lambda>s'. HttpSession_finish lib s' w) =
     (case response s of
        None \<Rightarrow> Inl (Undefined Empty_optional)
      | Some r \<Rightarrow> Inr (replied lib (r\<lparr>rs_status := status_not_found,
          rs_body := ''Unknown HTTP-target: '' @ target\<rparr>) s, w))"
  by (cases "response s")
    (simp_all add: HttpSession_target_not_found_def HttpSession_finish_Some replied_def)

lemma replied_response [simp]: "replied lib r (s\<lparr>response := x\<rparr>) = replied lib r s"
  by (simp add: replied_def)

text \<open>The route a request takes, and the response an answered one gets.\<close>

definition request_uri :: "('v, 'u) http_lib \<Rightarrow> 'v request \<Rightarrow> ('v, 'h) http_session \<Rightarrow> 'u option" where
  "request_uri lib req s = ParseUri lib (if is_upgrade lib req then ''ws'' else ''http'')
     (local_address s) (local_port s) (rq_target req)"

definition request_method :: "('v, 'u) http_lib \<Rightarrow> 'v request \<Rightarrow> http_method" where
  "request_method lib req = ConvertVerbBeast_to_method (lib_verbs lib) (rq_method req)"

definition not_found_response :: "'v request \<Rightarrow> response" where
  "not_found_response req = (fresh_response req)\<lparr>rs_status := status_not_found,
     rs_body := ''Unknown HTTP-target: '' @ rq_target req\<rparr>"

lemma OnRequest_eq:
  "HttpSession_OnRequest lib route_manager req s w =
     (case request_uri lib req s of
        None \<Rightarrow>
          (case response s of
             None \<Rightarrow> Inl (Undefined Empty_optional)
           | Some r \<Rightarrow> Inr (replied lib (r\<lparr>rs_status := status_not_found,
               rs_body := ''Unknown HTTP-target: '' @ rq_target req\<rparr>) s, w))
      | Some u \<Rightarrow>
          (case route_manager of
             None \<Rightarrow> Inl (Undefined Null_pointer)
           | Some rm \<Rightarrow>
               if is_upgrade lib req
               then (case GetWSHandler (request_method lib req) (uri_path lib u) rm of
                       Some h \<Rightarrow> Inr (s\<lparr>response := Some (fresh_response req),
                         ws_started := Some (req, ParseQuery lib u, h)\<rparr>, w)
                     | None \<Rightarrow> Inr (replied lib (not_found_response req) s, w))
               else (case GetCallback (request_method lib req) (uri_path lib u) rm of
                       Some cb \<Rightarrow> bind_res (cb req (ParseQuery lib u) (fresh_response req) w)
                         (\<lambda>(r, w'). Inr (replied lib r s, w'))
                     | None \<Rightarrow> Inr (replied lib (not_found_response req) s, w))))"
proof (cases "request_uri lib req s")
  case None
  then show ?thesis
    by (simp add: HttpSession_OnRequest_def Let_def request_uri_def not_found_reply)
next
  case (Some u)
  have finish: "HttpSession_finish lib (s\<lparr>response := Some r\<rparr>) w' = Inr (replied lib r s, w')" for r w'
    by (simp add: HttpSession_finish_Some)
  from Some show ?thesis
    by (simp add: HttpSession_OnRequest_def Let_def request_uri_def request_method_def
        not_found_response_def not_found_reply finish case_prod_beta' split: option.split)
qed

lemma OnRead_cases:
  assumes "HttpSession_OnRead lib route_manager result s w = Inr (s', w')"
  obtains (closed) "result = End_of_stream" "s' = s\<lparr>send_shutdown := True\<rparr>" "w' = w"
    | (failed) "result = Read_failed" "s' = s" "w' = w"
    | (answered) req r where "result = Got_request req" "s' = replied lib r s"
    | (upgraded) req u h where "result = Got_request req" "is_upgrade lib req"
        "s' = s\<lparr>response := Some (fresh_response req), ws_started := Some (req, ParseQuery lib u, h)\<rparr>"
        "w' = w"
proof (cases result)
  case (Got_request req)
  with assms have "HttpSession_OnRequest lib route_manager req s w = Inr (s', w')"
    by (simp add: HttpSession_OnRead_def split: if_splits)
  with Got_request that(3,4) show ?thesis
    by (auto simp: OnRequest_eq res_eq split: option.splits if_splits prod.splits)
next
  case End_of_stream
  with assms show ?thesis
    by (intro that(1)) (simp_all add: HttpSession_OnRead_def HttpSession_Close_def)
next
  case Read_failed
  with assms show ?thesis by (intro that(2)) (simp_all add: HttpSession_OnRead_def)
qed

text \<open>The invariant of a running session.\<close>

definition http_inv :: "('v, 'h) http_session \<Rightarrow> bool" where
  "http_inv s \<longleftrightarrow> reads s \<in> {[], [Read_op 10000 30]} \<and> (reads s \<noteq> [] \<longrightarrow> parser s) \<and>
     (reads s \<noteq> [] \<longrightarrow> ws_started s = None)"

lemma http_step_inv:
  assumes "http_step lib rm (s, w) e (s', w')" and "http_inv s"
  shows "http_inv s'"
  using assms(1)
proof (cases rule: http_step.cases)
  case (read_done r rs result)
  then have rs: "rs = []" "parser s" "ws_started s = None"
    using assms(2) by (auto simp: http_inv_def)
  from read_done(3) rs show ?thesis
    by (cases rule: OnRead_cases) (auto simp: http_inv_def replied_def)
next
  case (write_done m ms ok)
  then show ?thesis using assms(2)
    by (auto simp: http_inv_def HttpSession_OnWrite_def HttpSession_Close_def)
qed

interpretation running: preserved "http_step lib rm" "\<lambda>c. http_inv (fst c)" for lib rm
  by unfold_locales (metis http_step_inv prod.collapse)

section \<open>A library and routes to instantiate the parameters\<close>

text \<open>
  URIs are kept as strings, a target with a space does not parse, the path is what follows
  the authority, and an \<open>Upgrade\<close> field asks for an upgrade.
\<close>

definition sample_lib :: "(nat, string) http_lib" where
  "sample_lib = \<lparr>lib_verbs = numbered_verbs, is_upgrade = (\<lambda>req. rq_fields req ''Upgrade'' \<noteq> None),
     parse_uri = (\<lambda>u. if CHR '' '' \<in> set u then None else Some u),
     uri_path = (\<lambda>u. dropWhile (\<lambda>c. c \<noteq> CHR ''/'') (drop 3 (dropWhile (\<lambda>c. c \<noteq> CHR '':'') u))),
     query_parses = (\<lambda>u. True), encoded_params = (\<lambda>u. []),
     prepare_payload = (\<lambda>r. r), moved_from = (\<lambda>r. r\<lparr>rs_body := ''''\<rparr>)\<rparr>"

definition sample_request :: "string \<Rightarrow> bool \<Rightarrow> nat request" where
  "sample_request target alive = \<lparr>rq_method = 2, rq_target = target, rq_version = 11,
     rq_keep_alive = alive, rq_fields = Map.empty, rq_body = ''''\<rparr>"

definition sample_routes :: "((nat, nat) callback, nat) route_manager" where
  "sample_routes = AddWSCallbackInternal ''/'' 7
     (AddCallbackInternal GET ''/test'' (\<lambda>req params r w. Inr (r\<lparr>rs_body := ''ok''\<rparr>, Suc w))
       RouteManagerBase_default)"

definition sample_session :: "(nat, nat) http_session" where
  "sample_session = HttpSession_Run (HttpSession_new ''h'' 1)"

lemma std_to_string_1: "std_to_string (Suc 0) = ''1''"
  by (simp add: std_to_string.simps digit_char_def char_of_def bit_0)

lemmas sample_defs = sample_lib_def sample_request_def sample_session_def HttpSession_Run_def
  HttpSession_Read_def HttpSession_new_def request_uri_def ParseUri_def request_method_def
  std_to_string_1 Let_def

lemma sample_not_upgrade: "\<not> is_upgrade sample_lib (sample_request t a)"
  by (simp add: sample_defs)

lemma sample_method: "request_method sample_lib (sample_request t a) = GET"
  by (simp add: sample_defs numbered_verbs_def ConvertVerb_defs)

lemma sample_path: "uri_path sample_lib (''http://h:1/'' @ t) = CHR ''/'' # t"
  by (simp add: sample_lib_def)

lemma sample_callback:
  "GetCallback GET ''/test'' sample_routes = Some (\<lambda>req params r w. Inr (r\<lparr>rs_body := ''ok''\<rparr>, Suc w))"
  "GetCallback GET ''/nope'' sample_routes = None"
  "GetWSHandler GET ''/'' sample_routes = Some 7"
  by (simp_all add: sample_routes_def GetCallback_AddCallbackInternal GetWSHandler_AddWSCallbackInternal)
    (simp_all add: GetCallback_def GetWSHandler_def RouteManagerBase_default_def)

section \<open>Properties of the session\<close>

text \<open>
  From \<open>Run\<close> on, whatever arrives and however reads and writes complete, at most one
  read is outstanding, with the body limit of 10000 bytes and the timeout of 30 seconds,
  a parser exists whenever one is, and none is outstanding once the connection was handed
  to a websocket session.
\<close>

lemma HttpSession_one_read:
  assumes "runs (http_step lib rm) (HttpSession_Run (HttpSession_new address port), w) es (s, w')"
  shows "reads s \<in> {[], [Read_op 10000 30]} \<and>
    \<not> (reads s \<noteq> [] \<and> (\<not> parser s \<or> ws_started s \<noteq> None))"
proof -
  have "http_inv (HttpSession_Run (HttpSession_new address port))"
    by (simp add: http_inv_def HttpSession_defs)
  then have "http_inv s" using running.runs_preserve [OF assms] by simp
  then show ?thesis by (auto simp: http_inv_def)
qed

lemma HttpSession_one_read_witness:
  "\<exists>s :: (nat, nat) http_session. runs (http_step sample_lib (Some sample_routes))
     (HttpSession_Run (HttpSession_new ''h'' 1), 0) [Read_done End_of_stream] (s, 0) \<and>
     send_shutdown s \<and> reads s \<in> {[], [Read_op 10000 30]}"
proof -
  let ?s = "(HttpSession_new ''h'' 1)\<lparr>parser := True, send_shutdown := True\<rparr>"
  have r: "runs (http_step sample_lib (Some sample_routes))
      (HttpSession_Run (HttpSession_new ''h'' 1), 0) [Read_done End_of_stream] (?s, 0)"
    by (auto simp: runs_Cons_iff http_read_iff HttpSession_OnRead_def HttpSession_defs)
  from HttpSession_one_read [OF r] r show ?thesis
    by (intro exI [of _ ?s]) (simp add: HttpSession_new_def)
qed

text \<open>
  A request whose method and path have a callback is answered by it: the callback gets
  the request, its query parameters and a fresh 200 response with the request's version
  and keep-alive; what it returns is written, and the next read is started.
\<close>

lemma HttpSession_routed:
  assumes "parser s" and "\<not> is_upgrade lib req" and "request_uri lib req s = Some u"
    and "GetCallback (request_method lib req) (uri_path lib u) rm = Some cb"
    and "cb req (ParseQuery lib u) (fresh_response req) w = Inr (r, w')"
  shows "HttpSession_OnRead lib (Some rm) (Got_request req) s w =
    Inr (s\<lparr>response := Some (moved_from lib (prepare_payload lib r)), keep_alive := rs_keep_alive r,
      writes := writes s @ [prepare_payload lib r], parser := True,
      reads := reads s @ [Read_op 10000 30]\<rparr>, w')"
  using assms by (simp add: HttpSession_OnRead_def OnRequest_eq replied_def)

lemma HttpSession_routed_witness:
  "\<exists>s. HttpSession_OnRead sample_lib (Some sample_routes)
       (Got_request (sample_request ''/test'' True)) sample_session 3 = Inr (s, 4) \<and>
     map rs_body (writes s) = [''ok''] \<and> map rs_status (writes s) = [200]"
proof -
  have "request_uri sample_lib (sample_request ''/test'' True) sample_session = Some ''http://h:1/test''"
    by (simp add: sample_defs)
  moreover have "uri_path sample_lib ''http://h:1/test'' = ''/test''"
    using sample_path [of "''test''"] by simp
  moreover have "parser sample_session" by (simp add: sample_defs)
  ultimately show ?thesis
    using HttpSession_routed [of sample_session sample_lib "sample_request ''/test'' True"
        "''http://h:1/test''" sample_routes]
    by (simp add: sample_not_upgrade sample_method sample_callback)
      (simp add: sample_defs fresh_response_def status_ok_def)
qed

text \<open>
  A request no route answers, an ordinary one or an upgrade, gets a 404 response with
  the body \<open>Unknown HTTP-target: <target>\<close>, the request's version and keep-alive; no
  callback runs, and the next read is started.
\<close>

lemma HttpSession_not_found:
  assumes "parser s" and "request_uri lib req s = Some u"
    and "(if is_upgrade lib req
          then GetWSHandler (request_method lib req) (uri_path lib u) rm = None
          else GetCallback (request_method lib req) (uri_path lib u) rm = None)"
  shows "\<exists>s'. HttpSession_OnRead lib (Some rm) (Got_request req) s w = Inr (s', w) \<and>
    writes s' = writes s @ [prepare_payload lib
      \<lparr>rs_status = 404, rs_version = rq_version req, rs_keep_alive = rq_keep_alive req,
       rs_fields = [''Server'' \<mapsto> ''game-server-v0''],
       rs_body = ''Unknown HTTP-target: '' @ rq_target req\<rparr>] \<and>
    reads s' = reads s @ [Read_op 10000 30] \<and> ws_started s' = ws_started s"
  using assms
  by (auto simp: HttpSession_OnRead_def OnRequest_eq replied_def not_found_response_def
      fresh_response_def status_not_found_def server_version_def split: if_splits)

lemma HttpSession_not_found_witness:
  "\<exists>s. HttpSession_OnRead sample_lib (Some sample_routes)
       (Got_request (sample_request ''/nope'' True)) sample_session 3 = Inr (s, 3) \<and>
     map rs_body (writes s) = [''Unknown HTTP-target: /nope'']"
proof -
  have "request_uri sample_lib (sample_request ''/nope'' True) sample_session = Some ''http://h:1/nope''"
    by (simp add: sample_defs)
  moreover have "uri_path sample_lib ''http://h:1/nope'' = ''/nope''"
    using sample_path [of "''nope''"] by simp
  moreover have "parser sample_session" by (simp add: sample_defs)
  moreover have "writes sample_session = []" by (simp add: sample_defs)
  moreover have "rq_target (sample_request ''/nope'' True) = ''/nope''" by (simp add: sample_defs)
  ultimately obtain s where "HttpSession_OnRead sample_lib (Some sample_routes)
      (Got_request (sample_request ''/nope'' True)) sample_session 3 = Inr (s, 3)"
    "map rs_body (writes s) = map rs_body [prepare_payload sample_lib
      \<lparr>rs_status = 404, rs_version = rq_version (sample_request ''/nope'' True),
       rs_keep_alive = rq_keep_alive (sample_request ''/nope'' True),
       rs_fields = [''Server'' \<mapsto> ''game-server-v0''],
       rs_body = ''Unknown HTTP-target: /nope''\<rparr>]"
    using HttpSession_not_found [of sample_session sample_lib "sample_request ''/nope'' True"
        "''http://h:1/nope''" sample_routes 3]
    by (auto simp: sample_not_upgrade sample_method sample_callback)
  then show ?thesis by (auto simp: sample_lib_def)
qed

text \<open>
  A websocket upgrade whose path has a handler is handed to a websocket session with
  the request and its query parameters: nothing is written and the HTTP session starts no
  further read.
\<close>

lemma HttpSession_upgrade:
  assumes "parser s" and "is_upgrade lib req" and "request_uri lib req s = Some u"
    and "GetWSHandler (request_method lib req) (uri_path lib u) rm = Some h"
  shows "\<exists>s'. HttpSession_OnRead lib (Some rm) (Got_request req) s w = Inr (s', w) \<and>
    ws_started s' = Some (req, ParseQuery lib u, h) \<and> writes s' = writes s \<and>
    reads s' = reads s \<and> send_shutdown s' = send_shutdown s"
  using assms by (simp add: HttpSession_OnRead_def OnRequest_eq)

text \<open>
  \<open>release_socket\<close> cancels what is under way on the stream. The answers that pipelined
  requests before the upgrade still wait for are then given up: their writes end without
  success, one after the other, and the session is left with nothing to do.
\<close>

lemma HttpSession_upgrade_abandons:
  "runs (http_step lib (Some rm)) (s, w) (replicate (length (writes s)) (Write_done False))
     (s\<lparr>writes := []\<rparr>, w)"
proof (induction "writes s" arbitrary: s)
  case Nil
  then show ?case by simp
next
  case (Cons m ms)
  let ?s = "s\<lparr>writes := ms\<rparr>"
  have "http_step lib (Some rm) (s, w) (Write_done False) (?s, w)"
    using Cons.hyps(2) by (intro http_step.write_done [of s m ms]) (simp_all add: HttpSession_OnWrite_def)
  moreover have "runs (http_step lib (Some rm)) (?s, w) (replicate (length ms) (Write_done False))
      (s\<lparr>writes := []\<rparr>, w)"
    using Cons.hyps(1) [of ?s] by simp
  ultimately show ?case by (auto simp: Cons.hyps(2) [symmetric] runs_Cons_iff)
qed

definition sample_upgrade :: "nat request" where
  "sample_upgrade = (sample_request ''/'' True)\<lparr>rq_fields := [''Upgrade'' \<mapsto> ''websocket'']\<rparr>"

section \<open>Serving a client that waits for its answers\<close>

text \<open>
  What the session promises to a client, as a function of the requests alone: each
  request is answered by its callback or, when no route takes it, by a 404, prepared for the
  wire. An upgrade that a route takes ends the contract: the socket leaves the session.
\<close>

definition answer ::
  "('v, 'u) http_lib \<Rightarrow> (('v, 'w) callback, 'h) route_manager \<Rightarrow> string \<Rightarrow> 16 word \<Rightarrow>
     'v request \<Rightarrow> 'w \<Rightarrow> (response \<times> 'w) option" where
  "answer lib rm address port req w =
     (case ParseUri lib (if is_upgrade lib req then ''ws'' else ''http'') address port (rq_target req) of
        None \<Rightarrow> None
      | Some u \<Rightarrow>
          if is_upgrade lib req
          then (case GetWSHandler (request_method lib req) (uri_path lib u) rm of
                  None \<Rightarrow> Some (not_found_response req, w)
                | Some h \<Rightarrow> None)
          else (case GetCallback (request_method lib req) (uri_path lib u) rm of
                  None \<Rightarrow> Some (not_found_response req, w)
                | Some cb \<Rightarrow> (case cb req (ParseQuery lib u) (fresh_response req) w of
                    Inl e \<Rightarrow> None
                  | Inr (r, w') \<Rightarrow> Some (r, w'))))"

fun serve ::
  "('v, 'u) http_lib \<Rightarrow> (('v, 'w) callback, 'h) route_manager \<Rightarrow> string \<Rightarrow> 16 word \<Rightarrow>
     'v request list \<Rightarrow> 'w \<Rightarrow> (response list \<times> 'w) option" where
  "serve lib rm address port [] w = Some ([], w)"
| "serve lib rm address port (req # reqs) w =
     (case answer lib rm address port req w of
        None \<Rightarrow> None
      | Some (r, w') \<Rightarrow>
          (case serve lib rm address port reqs w' of
             None \<Rightarrow> None
           | Some (rs, w'') \<Rightarrow> Some (r # rs, w'')))"

text \<open>The client sends its next request when the answer to the one before has arrived.\<close>

definition one_by_one :: "'v request list \<Rightarrow> 'v http_event list" where
  "one_by_one reqs = concat (map (\<lambda>req. [Read_done (Got_request req), Write_done True]) reqs)"

lemma answer_OnRead:
  assumes "answer lib rm (local_address s) (local_port s) req w = Some (r, w')" and "parser s"
  shows "HttpSession_OnRead lib (Some rm) (Got_request req) s w = Inr (replied lib r s, w')"
  using assms
  by (auto simp: answer_def HttpSession_OnRead_def OnRequest_eq request_uri_def
      split: if_splits option.splits sum.splits prod.splits)

text \<open>A session waiting for a request, with nothing to write.\<close>

definition waiting :: "string \<Rightarrow> 16 word \<Rightarrow> ('v, 'h) http_session \<Rightarrow> bool" where
  "waiting address port s \<longleftrightarrow> reads s = [Read_op 10000 30] \<and> parser s \<and> writes s = [] \<and>
     local_address s = address \<and> local_port s = port"

lemma answer_runs:
  assumes "waiting address port s" and "answer lib rm address port req w = Some (r, w')"
  shows "\<exists>s'. runs (http_step lib (Some rm)) (s, w) [Read_done (Got_request req), Write_done True] (s', w') \<and>
    waiting address port s' \<and> delivered s' = delivered s @ [prepare_payload lib r] \<and>
    (send_shutdown s' \<longleftrightarrow> send_shutdown s \<or> \<not> rs_keep_alive r)"
proof -
  let ?s = "s\<lparr>reads := []\<rparr>"
  have "HttpSession_OnRead lib (Some rm) (Got_request req) ?s w = Inr (replied lib r ?s, w')"
    using assms by (intro answer_OnRead) (simp_all add: waiting_def)
  then show ?thesis using assms(1)
    by (auto simp: runs_Cons_iff http_read_iff http_write_iff waiting_def HttpSession_OnWrite_def
        HttpSession_Close_def replied_def)
qed

lemma serve_runs:
  assumes "waiting address port s" and "serve lib rm address port reqs w = Some (rs, w')"
  shows "\<exists>s'. runs (http_step lib (Some rm)) (s, w) (one_by_one reqs) (s', w') \<and>
    waiting address port s' \<and> delivered s' = delivered s @ map (prepare_payload lib) rs \<and>
    (send_shutdown s' \<longleftrightarrow> send_shutdown s \<or> (\<exists>r \<in> set rs. \<not> rs_keep_alive r))"
  using assms
proof (induction reqs arbitrary: s w rs)
  case Nil
  then show ?case by (simp add: one_by_one_def)
next
  case (Cons req reqs)
  from Cons.prems(2) obtain r v rs' where req: "answer lib rm address port req w = Some (r, v)"
    and reqs: "serve lib rm address port reqs v = Some (rs', w')" and rs: "rs = r # rs'"
    by (auto split: option.splits prod.splits)
  from answer_runs [OF Cons.prems(1) req] obtain s1
    where one: "runs (http_step lib (Some rm)) (s, w) [Read_done (Got_request req), Write_done True] (s1, v)"
      and s1: "waiting address port s1" "delivered s1 = delivered s @ [prepare_payload lib r]"
        "send_shutdown s1 \<longleftrightarrow> send_shutdown s \<or> \<not> rs_keep_alive r" by blast
  from Cons.IH [OF s1(1) reqs] obtain s2
    where rest: "runs (http_step lib (Some rm)) (s1, v) (one_by_one reqs) (s2, w')"
      and s2: "waiting address port s2" "delivered s2 = delivered s1 @ map (prepare_payload lib) rs'"
        "send_shutdown s2 \<longleftrightarrow> send_shutdown s1 \<or> (\<exists>r \<in> set rs'. \<not> rs_keep_alive r)" by blast
  have "one_by_one (req # reqs) =
      [Read_done (Got_request req), Write_done True] @ one_by_one reqs"
    by (simp add: one_by_one_def)
  with one rest have "runs (http_step lib (Some rm)) (s, w) (one_by_one (req # reqs)) (s2, w')"
    by (simp only: runs_append) blast
  with s1 s2 rs show ?case by auto
qed

text \<open>
  C7. Towards a client that waits for each answer before it sends the next request, the
  session implements its contract: the responses on the wire are exactly the prepared
  answers of the requests, in order, computed from the requests alone; nothing is left to
  write; and the connection is shut down exactly when the last answer asked for it.
\<close>

theorem HttpSession_serves:
  assumes "serve lib rm address port reqs w = Some (rs, w')"
    and "\<forall>r \<in> set (butlast rs). rs_keep_alive r"
  shows "\<exists>s. runs (http_step lib (Some rm)) (HttpSession_Run (HttpSession_new address port), w)
      (one_by_one reqs) (s, w') \<and>
    delivered s = map (prepare_payload lib) rs \<and> writes s = [] \<and>
    (send_shutdown s \<longleftrightarrow> rs \<noteq> [] \<and> \<not> rs_keep_alive (last rs))"
proof -
  have start: "waiting address port (HttpSession_Run (HttpSession_new address port))"
    by (simp add: waiting_def HttpSession_defs)
  have "(\<exists>r \<in> set rs. \<not> rs_keep_alive r) \<longleftrightarrow> rs \<noteq> [] \<and> \<not> rs_keep_alive (last rs)"
    using assms(2) by (cases rs rule: rev_cases) auto
  moreover obtain s where "runs (http_step lib (Some rm))
      (HttpSession_Run (HttpSession_new address port), w) (one_by_one reqs) (s, w')"
    and "waiting address port s" and "delivered s = map (prepare_payload lib) rs"
    and "send_shutdown s \<longleftrightarrow> (\<exists>r \<in> set rs. \<not> rs_keep_alive r)"
    using serve_runs [OF start assms(1)] by (simp add: HttpSession_defs) metis
  ultimately show ?thesis by (intro exI [of _ s]) (simp add: waiting_def)
qed

lemma sample_serve:
  "serve sample_lib sample_routes ''h'' 1
     [sample_request ''/test'' True, sample_request ''/nope'' False] 3 =
   Some ([(fresh_response (sample_request ''/test'' True))\<lparr>rs_body := ''ok''\<rparr>,
          not_found_response (sample_request ''/nope'' False)], 4)"
proof -
  have "ParseUri sample_lib ''http'' ''h'' 1 (rq_target (sample_request t a)) =
      (if CHR '' '' \<in> set t then None else Some (''http://h:1'' @ t))" for t a
    by (simp add: ParseUri_def sample_lib_def sample_request_def std_to_string_1)
  moreover have "uri_path sample_lib ''http://h:1/test'' = ''/test''"
    "uri_path sample_lib ''http://h:1/nope'' = ''/nope''" by (simp_all add: sample_lib_def)
  ultimately show ?thesis
    by (simp add: answer_def sample_not_upgrade sample_method sample_callback)
qed

theorem HttpSession_serves_witness:
  "\<exists>s. runs (http_step sample_lib (Some sample_routes)) (HttpSession_Run (HttpSession_new ''h'' 1), 3)
      (one_by_one [sample_request ''/test'' True, sample_request ''/nope'' False]) (s, 4) \<and>
    map rs_body (delivered s) = [''ok'', ''Unknown HTTP-target: /nope''] \<and> send_shutdown s"
proof -
  from HttpSession_serves [OF sample_serve]
  obtain s where "runs (http_step sample_lib (Some sample_routes))
      (HttpSession_Run (HttpSession_new ''h'' 1), 3)
      (one_by_one [sample_request ''/test'' True, sample_request ''/nope'' False]) (s, 4)"
    and "delivered s = map (prepare_payload sample_lib)
      [(fresh_response (sample_request ''/test'' True))\<lparr>rs_body := ''ok''\<rparr>,
          not_found_response (sample_request ''/nope'' False)]"
    and "send_shutdown s"
    by (auto simp: fresh_response_def not_found_response_def sample_request_def)
  then show ?thesis
    by (intro exI [of _ s]) (simp add: sample_lib_def not_found_response_def sample_request_def)
qed

section \<open>Requests that do not wait, and targets that do not parse\<close>

lemma OnRead_request:
  assumes "HttpSession_OnRead lib rm (Got_request req) s w = Inr (s', w')"
  obtains (answered) r where "s' = replied lib r s"
    | (upgraded) "ws_started s' \<noteq> None" "reads s' = reads s" "writes s' = writes s"
  using assms by (cases rule: OnRead_cases) auto

text \<open>A run of requests no write of which completes.\<close>

lemma pipelined_runs:
  assumes "runs (http_step lib rm) (s, w) (map (\<lambda>req. Read_done (Got_request req)) reqs) (s', w')"
    and "length (reads s) = 1" and "ws_started s' = None"
  shows "length (writes s') = length (writes s) + length reqs \<and> length (reads s') = 1"
  using assms
proof (induction reqs arbitrary: s w)
  case Nil
  then show ?case by auto
next
  case (Cons req reqs)
  from Cons.prems(1) obtain s1 w1
    where st: "http_step lib rm (s, w) (Read_done (Got_request req)) (s1, w1)"
      and rest: "runs (http_step lib rm) (s1, w1) (map (\<lambda>req. Read_done (Got_request req)) reqs) (s', w')"
    by (auto simp: runs_Cons_iff)
  from st Cons.prems(2)
  have rd: "HttpSession_OnRead lib rm (Got_request req) (s\<lparr>reads := []\<rparr>) w = Inr (s1, w1)"
    by (auto simp: http_read_iff length_Suc_conv)
  from rd show ?case
  proof (cases rule: OnRead_request)
    case (answered r)
    then have "length (reads s1) = 1" "length (writes s1) = Suc (length (writes s))"
      by (simp_all add: replied_def)
    with Cons.IH [OF rest] Cons.prems(3) show ?thesis by simp
  next
    case upgraded
    then have "reads s1 = []" by simp
    with rest have "reqs = []" "s' = s1"
      by (cases reqs; auto simp: runs_Cons_iff http_read_iff)+
    with upgraded(1) Cons.prems(3) show ?thesis by simp
  qed
qed

text \<open>
  Nothing bounds the responses under way: the next read is started before the write
  completes, so \<open>n\<close> requests sent without waiting leave \<open>n\<close> writes outstanding at once on
  the one stream, for every \<open>n\<close>.
\<close>

lemma HttpSession_pipelining:
  assumes "runs (http_step lib rm) (HttpSession_Run (HttpSession_new address port), w)
      (map (\<lambda>req. Read_done (Got_request req)) reqs) (s, w')"
    and "ws_started s = None"
  shows "length (writes s) = length reqs \<and> length (reads s) = 1"
  using pipelined_runs [OF assms(1) _ assms(2)] by (simp add: HttpSession_defs)

text \<open>Two requests for \<open>/test\<close> in one packet, the first of which closes the connection.\<close>

definition pipelined_after :: "(nat, nat) http_session" where
  "pipelined_after = replied sample_lib ((fresh_response (sample_request ''/test'' True))\<lparr>rs_body := ''ok''\<rparr>)
     ((replied sample_lib ((fresh_response (sample_request ''/test'' False))\<lparr>rs_body := ''ok''\<rparr>)
        (sample_session\<lparr>reads := []\<rparr>))\<lparr>reads := []\<rparr>)"

lemma sample_answer:
  "answer sample_lib sample_routes ''h'' 1 (sample_request ''/test'' a) w =
     Some ((fresh_response (sample_request ''/test'' a))\<lparr>rs_body := ''ok''\<rparr>, Suc w)"
proof -
  have "ParseUri sample_lib ''http'' ''h'' 1 (rq_target (sample_request ''/test'' a)) = Some ''http://h:1/test''"
    by (simp add: ParseUri_def sample_lib_def sample_request_def std_to_string_1)
  moreover have "uri_path sample_lib ''http://h:1/test'' = ''/test''" by (simp add: sample_lib_def)
  ultimately show ?thesis
    by (simp add: answer_def sample_not_upgrade sample_method sample_callback)
qed

lemma pipelined_run:
  "runs (http_step sample_lib (Some sample_routes)) (sample_session, w)
     [Read_done (Got_request (sample_request ''/test'' False)),
      Read_done (Got_request (sample_request ''/test'' True))] (pipelined_after, w + 2)"
proof -
  let ?s = "sample_session\<lparr>reads := []\<rparr>"
  let ?r = "\<lambda>a. (fresh_response (sample_request ''/test'' a))\<lparr>rs_body := ''ok''\<rparr>"
  let ?s1 = "replied sample_lib (?r False) ?s"
  have ends: "local_address sample_session = ''h''" "local_port sample_session = 1"
    "parser sample_session" "reads sample_session = [Read_op 10000 30]"
    by (simp_all add: sample_session_def HttpSession_defs)
  have "HttpSession_OnRead sample_lib (Some sample_routes)
      (Got_request (sample_request ''/test'' False)) ?s w = Inr (?s1, Suc w)"
    by (rule answer_OnRead) (simp_all add: ends sample_answer)
  then have one: "http_step sample_lib (Some sample_routes) (sample_session, w)
      (Read_done (Got_request (sample_request ''/test'' False))) (?s1, Suc w)"
    by (simp add: http_read_iff ends)
  have "HttpSession_OnRead sample_lib (Some sample_routes)
      (Got_request (sample_request ''/test'' True)) (?s1\<lparr>reads := []\<rparr>) (Suc w) =
      Inr (pipelined_after, w + 2)"
    unfolding pipelined_after_def
    by (rule answer_OnRead) (simp_all add: replied_def ends sample_answer)
  then have "http_step sample_lib (Some sample_routes) (?s1, Suc w)
      (Read_done (Got_request (sample_request ''/test'' True))) (pipelined_after, w + 2)"
    by (simp add: http_read_iff replied_def ends)
  with one show ?thesis by (auto simp: runs_Cons_iff)
qed

lemma HttpSession_pipelining_witness:
  "ws_started pipelined_after = None \<and> length (writes pipelined_after) = 2"
proof -
  have "ws_started pipelined_after = None"
    by (simp add: pipelined_after_def replied_def sample_session_def HttpSession_defs)
  moreover have "length (writes pipelined_after) = 2"
    using HttpSession_pipelining [of sample_lib "Some sample_routes" "''h''" 1 0
        "[sample_request ''/test'' False, sample_request ''/test'' True]" pipelined_after 2]
      pipelined_run [of 0] calculation by (simp add: sample_session_def numeral_2_eq_2)
  ultimately show ?thesis by simp
qed

section \<open>Every order of reads and writes\<close>

text \<open>The requests that were read, and how the writes ended.\<close>

fun requests_read :: "'v http_event list \<Rightarrow> 'v request list" where
  "requests_read [] = []"
| "requests_read (Read_done (Got_request req) # es) = req # requests_read es"
| "requests_read (e # es) = requests_read es"

fun writes_ended :: "'v http_event list \<Rightarrow> bool list" where
  "writes_ended [] = []"
| "writes_ended (Write_done ok # es) = ok # writes_ended es"
| "writes_ended (e # es) = writes_ended es"

lemma requests_read_append [simp]: "requests_read (es @ fs) = requests_read es @ requests_read fs"
  by (induction es rule: requests_read.induct) auto

lemma writes_ended_append [simp]: "writes_ended (es @ fs) = writes_ended es @ writes_ended fs"
  by (induction es rule: writes_ended.induct) auto

lemma serve_snoc:
  "serve lib rm address port (reqs @ [req]) w =
     (case serve lib rm address port reqs w of
        None \<Rightarrow> None
      | Some (rs, w') \<Rightarrow>
          (case answer lib rm address port req w' of
             None \<Rightarrow> None
           | Some (r, w'') \<Rightarrow> Some (rs @ [r], w'')))"
  by (induction reqs arbitrary: w) (auto split: option.splits)

text \<open>The responses of which the write succeeded.\<close>

definition sent_of :: "bool list \<Rightarrow> 'a list \<Rightarrow> 'a list" where
  "sent_of oks ps = map fst (filter snd (zip ps oks))"

lemma sent_of_more: "length oks \<le> length ps \<Longrightarrow> sent_of oks (ps @ qs) = sent_of oks ps"
  by (simp add: sent_of_def zip_append1)

lemma sent_of_write:
  "length oks < length ps \<Longrightarrow> sent_of (oks @ [ok]) ps = sent_of oks ps @ (if ok then [ps ! length oks] else [])"
  using zip_append2 [of ps oks "[]"]
  by (simp add: sent_of_def zip_append2 flip: Cons_nth_drop_Suc)

text \<open>The session is where its contract says, whenever the contract covers what was read.\<close>

definition keeps_contract ::
  "('v, 'u) http_lib \<Rightarrow> (('v, 'w) callback, 'h) route_manager \<Rightarrow> string \<Rightarrow> 16 word \<Rightarrow> 'w \<Rightarrow>
     'v http_event list \<Rightarrow> ('v, 'h) http_session \<Rightarrow> 'w \<Rightarrow> bool" where
  "keeps_contract lib rm address port start es s w \<longleftrightarrow>
     local_address s = address \<and> local_port s = port \<and> (reads s \<noteq> [] \<longrightarrow> parser s) \<and>
     (\<forall>rs w'. serve lib rm address port (requests_read es) start = Some (rs, w') \<longrightarrow>
        w' = w \<and> length (writes_ended es) \<le> length rs \<and>
        writes s = drop (length (writes_ended es)) (map (prepare_payload lib) rs) \<and>
        delivered s = sent_of (writes_ended es) (map (prepare_payload lib) rs))"

lemma OnRead_answer:
  assumes "HttpSession_OnRead lib (Some rm) (Got_request req) s w = Inr (s', w')"
    and "answer lib rm (local_address s) (local_port s) req w = Some (r, w'')"
  shows "s' = replied lib r s \<and> w' = w''"
proof -
  have "parser s" using assms(1) by (simp add: HttpSession_OnRead_def split: if_splits)
  with answer_OnRead [OF assms(2)] assms(1) show ?thesis by simp
qed

lemma OnRead_ends:
  assumes "HttpSession_OnRead lib rm result s w = Inr (s', w')"
  shows "local_address s' = local_address s \<and> local_port s' = local_port s \<and>
    delivered s' = delivered s \<and> (parser s \<longrightarrow> parser s')"
  using assms by (cases rule: OnRead_cases) (simp_all add: replied_def)

lemma step_keeps_contract:
  assumes "http_step lib (Some rm) (s, w) e (s', w')"
    and inv: "keeps_contract lib rm address port start es s w"
  shows "keeps_contract lib rm address port start (es @ [e]) s' w'"
  using assms(1)
proof (cases rule: http_step.cases)
  case (write_done m ms ok)
  let ?n = "length (writes_ended es)"
  have fields: "local_address s' = local_address s" "local_port s' = local_port s"
    "reads s' = reads s" "parser s' = parser s" "writes s' = ms"
    "delivered s' = delivered s @ (if ok then [m] else [])"
    using write_done(4) by (simp_all add: HttpSession_OnWrite_def HttpSession_Close_def)
  have next_one: "ms = drop (Suc ?n) ps \<and> m = ps ! ?n \<and> ?n < length ps"
    if "writes s = drop ?n ps" for ps :: "response list"
  proof -
    from that write_done(3) have "drop ?n ps = m # ms" by simp
    then show ?thesis by (metis drop_Suc drop_eq_Nil hd_drop_conv_nth linorder_not_less list.distinct(1)
      list.sel(1) list.sel(3) tl_drop)
  qed
  { fix as v
    assume "serve lib rm address port (requests_read es) start = Some (as, v)"
    then have v: "v = w" and writes: "writes s = drop ?n (map (prepare_payload lib) as)"
      and delivered: "delivered s = sent_of (writes_ended es) (map (prepare_payload lib) as)"
      using inv by (auto simp: keeps_contract_def)
    from next_one [OF writes] have "Suc ?n \<le> length as"
      "ms = drop (Suc ?n) (map (prepare_payload lib) as)" "m = map (prepare_payload lib) as ! ?n" by auto
    with v delivered have "v = w \<and> Suc ?n \<le> length as \<and> ms = drop (Suc ?n) (map (prepare_payload lib) as) \<and>
        delivered s' = sent_of (writes_ended es @ [ok]) (map (prepare_payload lib) as)"
      by (simp add: fields(6) sent_of_write)
  }
  with inv fields write_done(1,2) show ?thesis by (simp add: keeps_contract_def)
next
  case (read_done r rs result)
  then have parser: "parser s" using inv by (simp add: keeps_contract_def)
  note same = OnRead_ends [OF read_done(3)]
  show ?thesis
  proof (cases result)
    case (Got_request req)
    { fix as v
      assume "serve lib rm address port (requests_read es @ [req]) start = Some (as, v)"
      then obtain as' v' a where before: "serve lib rm address port (requests_read es) start = Some (as', v')"
        and now: "answer lib rm address port req v' = Some (a, v)" and as: "as = as' @ [a]"
        by (auto simp: serve_snoc split: option.splits)
      have s: "local_address s = address" "local_port s = port" "v' = w"
        "length (writes_ended es) \<le> length as'"
        "writes s = drop (length (writes_ended es)) (map (prepare_payload lib) as')"
        "delivered s = sent_of (writes_ended es) (map (prepare_payload lib) as')"
        using inv before by (auto simp: keeps_contract_def)
      have "s' = replied lib a (s\<lparr>reads := rs\<rparr>) \<and> w' = v"
        using OnRead_answer [OF read_done(3) [unfolded Got_request], of a v] now s by simp
      then have "v = w' \<and> length (writes_ended es) \<le> length as \<and>
          writes s' = drop (length (writes_ended es)) (map (prepare_payload lib) as) \<and>
          delivered s' = sent_of (writes_ended es) (map (prepare_payload lib) as)"
        using s by (simp add: as replied_def sent_of_more)
    }
    with same parser inv show ?thesis by (simp add: read_done(1) Got_request keeps_contract_def)
  next
    case End_of_stream
    then have "s' = s\<lparr>reads := rs, send_shutdown := True\<rparr>" "w' = w"
      using read_done(3) by (simp_all add: HttpSession_OnRead_def HttpSession_Close_def)
    with inv parser read_done(1) End_of_stream show ?thesis by (simp add: keeps_contract_def)
  next
    case Read_failed
    then have "s' = s\<lparr>reads := rs\<rparr>" "w' = w"
      using read_done(3) by (simp_all add: HttpSession_OnRead_def)
    with inv parser read_done(1) Read_failed show ?thesis by (simp add: keeps_contract_def)
  qed
qed


section \<open>One write at a time\<close>

text \<open>
  \<open>async_write\<close> must not be started on a stream while another write on it is under way, and
  what is written after the connection was shut down does not arrive. The steps that keep to
  that: none leaves two writes outstanding, and a write that was started after the shutdown
  (\<open>late\<close>) does not succeed.
\<close>

fun started_late :: "'v http_event \<Rightarrow> ('v, 'h) http_session \<Rightarrow> bool \<Rightarrow> bool" where
  "started_late (Read_done (Got_request req)) s late = send_shutdown s"
| "started_late e s late = late"

definition alone_step ::
  "('v, 'u) http_lib \<Rightarrow> (('v, 'w) callback, 'h) route_manager option \<Rightarrow>
     (('v, 'h) http_session \<times> 'w) \<times> bool \<Rightarrow> 'v http_event \<Rightarrow> (('v, 'h) http_session \<times> 'w) \<times> bool \<Rightarrow> bool" where
  "alone_step lib rm = (\<lambda>(c, late) e (c', late'). http_step lib rm c e c' \<and>
     length (writes (fst c')) \<le> 1 \<and> \<not> (e = Write_done True \<and> late) \<and> late' = started_late e (fst c) late)"

lemma sent_of_map: "sent_of oks (map f ps) = map f (sent_of oks ps)"
  by (simp add: sent_of_def zip_map1 filter_map comp_def case_prod_unfold)

text \<open>
  \<open>rs\<close> are the answers so far: the flag is that of the answer under way, the connection was
  shut down by the client or after an answer that asks for it, which is the last one sent,
  and a write started after that is late.
\<close>

definition closes_after ::
  "'v http_event list \<Rightarrow> response list \<Rightarrow> ('v, 'h) http_session \<Rightarrow> bool \<Rightarrow> bool" where
  "closes_after es rs s late \<longleftrightarrow> (writes s \<noteq> [] \<longrightarrow> keep_alive s = rs_keep_alive (last rs)) \<and>
     (send_shutdown s \<longleftrightarrow> Read_done End_of_stream \<in> set es \<or>
        (\<exists>r \<in> set (sent_of (writes_ended es) rs). \<not> rs_keep_alive r)) \<and>
     (\<forall>r \<in> set (butlast (sent_of (writes_ended es) rs)). rs_keep_alive r) \<and>
     (writes s \<noteq> [] \<longrightarrow> (\<exists>r \<in> set (sent_of (writes_ended es) rs). \<not> rs_keep_alive r) \<longrightarrow> late)"

definition alone_inv ::
  "('v, 'u) http_lib \<Rightarrow> (('v, 'w) callback, 'h) route_manager \<Rightarrow> string \<Rightarrow> 16 word \<Rightarrow> 'w \<Rightarrow>
     'v http_event list \<Rightarrow> (('v, 'h) http_session \<times> 'w) \<times> bool \<Rightarrow> bool" where
  "alone_inv lib rm address port start es = (\<lambda>((s, w), late).
     keeps_contract lib rm address port start es s w \<and> length (writes s) \<le> 1 \<and>
     (\<forall>rs w'. serve lib rm address port (requests_read es) start = Some (rs, w') \<longrightarrow>
        closes_after es rs s late))"

lemma closes_after_wrote:
  assumes "closes_after es rs s late" and "writes s = [m]" and "length rs = Suc (length (writes_ended es))"
    and "ok \<longrightarrow> \<not> late" and "s' = HttpSession_OnWrite ok (s\<lparr>writes := [], delivered := ds\<rparr>)"
  shows "closes_after (es @ [Write_done ok]) rs s' late"
proof -
  have "last rs = rs ! length (writes_ended es)"
    using assms(3) by (metis diff_Suc_1 last_conv_nth length_0_conv nat.distinct(1))
  with assms sent_of_write [of "writes_ended es" rs ok] show ?thesis
    by (auto simp: closes_after_def HttpSession_OnWrite_def HttpSession_Close_def)
qed

lemma closes_after_answered:
  assumes "closes_after es rs s late" and "writes s = []" and "length (writes_ended es) \<le> length rs"
  shows "closes_after (es @ [Read_done (Got_request req)]) (rs @ [r]) (replied lib r (s\<lparr>reads := q\<rparr>)) (send_shutdown s)"
  using assms by (auto simp: closes_after_def replied_def sent_of_more)

lemma alone_step_inv:
  assumes "alone_step lib (Some rm) ((s, w), late) e ((s', w'), late')"
    and inv: "alone_inv lib rm address port start es ((s, w), late)"
  shows "alone_inv lib rm address port start (es @ [e]) ((s', w'), late')"
proof -
  from assms(1) have step: "http_step lib (Some rm) (s, w) e (s', w')" and one: "length (writes s') \<le> 1"
    and late: "\<not> (e = Write_done True \<and> late)" "late' = started_late e s late"
    by (auto simp: alone_step_def)
  from inv have keeps: "keeps_contract lib rm address port start es s w" "length (writes s) \<le> 1"
    and closes: "\<And>rs v. serve lib rm address port (requests_read es) start = Some (rs, v) \<Longrightarrow> closes_after es rs s late"
    by (auto simp: alone_inv_def)
  have "closes_after (es @ [e]) rs s' late'"
    if serve: "serve lib rm address port (requests_read (es @ [e])) start = Some (rs, v)" for rs v
    using step
  proof (cases rule: http_step.cases)
    case (write_done m ms ok)
    then have ms: "ms = []" and old: "serve lib rm address port (requests_read es) start = Some (rs, v)"
      using keeps(2) serve by simp_all
    with keeps(1) write_done(3)
    have "drop (length (writes_ended es)) (map (prepare_payload lib) rs) = [m]" by (auto simp: keeps_contract_def)
    then have "length (drop (length (writes_ended es)) (map (prepare_payload lib) rs)) = 1" by simp
    then have "length rs = Suc (length (writes_ended es))" by simp
    from closes_after_wrote [OF closes [OF old] _ this] late write_done ms show ?thesis by auto
  next
    case (read_done r rs' result)
    show ?thesis
    proof (cases result)
      case (Got_request req)
      with serve read_done(1) obtain as v' a
        where before: "serve lib rm address port (requests_read es) start = Some (as, v')"
          and now: "answer lib rm address port req v' = Some (a, v)" and rs: "rs = as @ [a]"
        by (auto simp: serve_snoc split: option.splits)
      from before keeps(1) have s: "local_address s = address" "local_port s = port" "v' = w"
        "length (writes_ended es) \<le> length as"
        by (auto simp: keeps_contract_def)
      have s': "s' = replied lib a (s\<lparr>reads := rs'\<rparr>)"
        using OnRead_answer [OF read_done(3) [unfolded Got_request], of a v] now s by simp
      with one have "writes s = []" by (simp add: replied_def)
      from closes_after_answered [OF closes [OF before] this s(4)] show ?thesis
        using late(2) by (simp add: s' rs read_done(1) Got_request)
    next
      case End_of_stream
      with closes [of rs v] serve read_done late(2) show ?thesis
        by (auto simp: closes_after_def HttpSession_OnRead_def HttpSession_Close_def)
    next
      case Read_failed
      with closes [of rs v] serve read_done late(2) show ?thesis
        by (auto simp: closes_after_def HttpSession_OnRead_def)
    qed
  qed
  with step_keeps_contract [OF step keeps(1)] one show ?thesis by (auto simp: alone_inv_def)
qed

interpretation alone: trace_invariant "alone_step lib (Some rm)" "alone_inv lib rm address port start"
  for lib rm address port start
  by unfold_locales (metis alone_step_inv prod.collapse)

text \<open>
  C5. The session implements its contract towards every client, whichever writes fail, as
  long as no write is started while another one is under way: the answers are a function of
  the requests read so far (the callbacks run in that order, on the application's state), the
  write under way is that of the last answer, and on the wire are exactly the answers whose
  write succeeded, each once and in the order of the requests. An answer that asks for it
  closes the connection: nothing is sent after it, and the connection is shut down if and
  only if such an answer was sent or the client ended the stream.
\<close>

theorem HttpSession_in_order:
  assumes "runs (alone_step lib (Some rm)) ((HttpSession_Run (HttpSession_new address port), w), False) es ((s, w'), late)"
    and "serve lib rm address port (requests_read es) w = Some (rs, w'')"
  shows "w' = w'' \<and> writes s = drop (length (writes_ended es)) (map (prepare_payload lib) rs) \<and> length (writes s) \<le> 1 \<and>
    delivered s = map (prepare_payload lib) (sent_of (writes_ended es) rs) \<and>
    (\<forall>r \<in> set (butlast (sent_of (writes_ended es) rs)). rs_keep_alive r) \<and>
    (send_shutdown s \<longleftrightarrow> Read_done End_of_stream \<in> set es \<or>
       (\<exists>r \<in> set (sent_of (writes_ended es) rs). \<not> rs_keep_alive r))"
proof -
  have "alone_inv lib rm address port w [] ((HttpSession_Run (HttpSession_new address port), w), False)"
    by (simp add: alone_inv_def keeps_contract_def closes_after_def sent_of_def HttpSession_defs)
  from alone.runs_establish [OF assms(1) this] assms(2) show ?thesis
    by (auto simp: alone_inv_def keeps_contract_def closes_after_def sent_of_map)
qed

text \<open>A request that keeps the connection, whose answer's write fails, and one that closes it.\<close>

theorem HttpSession_in_order_witness:
  "\<exists>c. runs (alone_step sample_lib (Some sample_routes)) ((HttpSession_Run (HttpSession_new ''h'' 1), 0), False)
      [Read_done (Got_request (sample_request ''/test'' True)), Write_done False,
       Read_done (Got_request (sample_request ''/test'' False)), Write_done True] c \<and>
    map rs_keep_alive (delivered (fst (fst c))) = [False] \<and> send_shutdown (fst (fst c))"
proof -
  let ?ok = "\<lambda>a. (fresh_response (sample_request ''/test'' a))\<lparr>rs_body := ''ok''\<rparr>"
  let ?step = "alone_step sample_lib (Some sample_routes)"
  let ?s1 = "replied sample_lib (?ok True) (sample_session\<lparr>reads := []\<rparr>)"
  let ?s2 = "?s1\<lparr>writes := []\<rparr>"
  let ?s3 = "replied sample_lib (?ok False) (?s2\<lparr>reads := []\<rparr>)"
  let ?s4 = "?s3\<lparr>writes := [], delivered := [?ok False], send_shutdown := True\<rparr>"
  have ends: "local_address sample_session = ''h''" "local_port sample_session = 1" "parser sample_session"
    "reads sample_session = [Read_op 10000 30]" "writes sample_session = []" "\<not> send_shutdown sample_session"
    "delivered sample_session = []"
    by (simp_all add: sample_session_def HttpSession_defs)
  have read: "http_step sample_lib (Some sample_routes) (s, w)
      (Read_done (Got_request (sample_request ''/test'' a))) (replied sample_lib (?ok a) (s\<lparr>reads := []\<rparr>), Suc w)"
    if "local_address s = ''h''" "local_port s = 1" "parser s" "reads s = [Read_op 10000 30]" for s a w
    using that answer_OnRead [of sample_lib sample_routes "s\<lparr>reads := []\<rparr>"]
    by (simp add: http_read_iff sample_answer)
  have one: "?step ((sample_session, 0), False) (Read_done (Got_request (sample_request ''/test'' True))) ((?s1, 1), False)"
    using read [of sample_session 0 True] ends by (simp add: alone_step_def replied_def)
  have two: "?step ((?s1, 1), False) (Write_done False) ((?s2, 1), False)"
    using ends by (simp add: alone_step_def http_write_iff replied_def HttpSession_OnWrite_def)
  have three: "?step ((?s2, 1), False) (Read_done (Got_request (sample_request ''/test'' False))) ((?s3, 2), False)"
    using read [of ?s2 1 False] ends by (simp add: alone_step_def replied_def numeral_2_eq_2)
  have four: "?step ((?s3, 2), False) (Write_done True) ((?s4, 2), False)"
    using ends by (simp add: alone_step_def http_write_iff replied_def HttpSession_OnWrite_def
        HttpSession_Close_def fresh_response_def sample_request_def sample_lib_def)
  from one two three four have run: "runs ?step ((HttpSession_Run (HttpSession_new ''h'' 1), 0), False)
      [Read_done (Got_request (sample_request ''/test'' True)), Write_done False,
       Read_done (Got_request (sample_request ''/test'' False)), Write_done True] ((?s4, 2), False)"
    unfolding sample_session_def by (auto simp only: runs_Cons_iff runs_Nil_iff)
  have "serve sample_lib sample_routes ''h'' 1 (requests_read
      [Read_done (Got_request (sample_request ''/test'' True)), Write_done False,
       Read_done (Got_request (sample_request ''/test'' False)), Write_done True]) 0 = Some ([?ok True, ?ok False], 2)"
    by (simp add: sample_answer numeral_2_eq_2)
  from HttpSession_in_order [OF run this] run show ?thesis
    by (intro exI [of _ "((?s4, 2), False)"])
      (simp add: sent_of_def sample_lib_def fresh_response_def sample_request_def)
qed



text \<open>
  A target that does not parse as a URI (\<open>OPTIONS *\<close> gives \<open>http://host:port*\<close>) is
  answered by changing a response that may not exist: as the first request of a connection
  it is undefined behaviour, whatever the routes; later it gets a 404 which keeps the
  version, keep-alive and fields of what was left of the response before.
\<close>

lemma HttpSession_unparsable_target:
  assumes "parser s" and "request_uri lib req s = None"
  shows "HttpSession_OnRead lib rm (Got_request req) s w =
    (case response s of
       None \<Rightarrow> Inl (Undefined Empty_optional)
     | Some r \<Rightarrow> Inr (replied lib (r\<lparr>rs_status := 404,
         rs_body := ''Unknown HTTP-target: '' @ rq_target req\<rparr>) s, w))"
  using assms by (simp add: HttpSession_OnRead_def OnRequest_eq status_not_found_def split: option.split)

lemma HttpSession_unparsable_target_witness:
  "HttpSession_OnRead sample_lib (Some sample_routes) (Got_request (sample_request ''* *'' True))
     (sample_session\<lparr>reads := []\<rparr>) 0 = Inl (Undefined Empty_optional)"
proof -
  have "request_uri sample_lib (sample_request ''* *'' True) (sample_session\<lparr>reads := []\<rparr>) = None"
    by (simp add: sample_defs)
  moreover have "parser sample_session" "response sample_session = None"
    by (simp_all add: sample_defs)
  ultimately show ?thesis by (subst HttpSession_unparsable_target) simp_all
qed

definition answered_inv :: "'v http_event list \<Rightarrow> ('v, 'h) http_session \<Rightarrow> bool" where
  "answered_inv es s \<longleftrightarrow> http_inv s \<and> (response s = None \<longleftrightarrow> requests_read es = [])"

lemma answered_step:
  assumes "http_step lib rm (s, w) e (s', w')" and "answered_inv es s"
  shows "answered_inv (es @ [e]) s'"
proof -
  have "http_inv s'" using http_step_inv [OF assms(1)] assms(2) by (simp add: answered_inv_def)
  moreover have "response s' = None \<longleftrightarrow> requests_read (es @ [e]) = []"
    using assms(1)
  proof (cases rule: http_step.cases)
    case (read_done r rs result)
    from read_done(3) show ?thesis
      by (cases rule: OnRead_cases) (use assms(2) in \<open>auto simp: read_done(1) answered_inv_def replied_def\<close>)
  next
    case (write_done m ms ok)
    then show ?thesis
      using assms(2) by (simp add: answered_inv_def HttpSession_OnWrite_def HttpSession_Close_def)
  qed
  ultimately show ?thesis by (simp add: answered_inv_def)
qed

interpretation answering: trace_invariant "http_step lib rm" "\<lambda>es c. answered_inv es (fst c)" for lib rm
  by unfold_locales (metis answered_step prod.collapse)

text \<open>
  C34. On every connection, whatever came before: a target that does not parse is undefined
  behaviour when it comes with the connection's first request, since the response it changes
  does not exist yet; with any later one it is answered by a 404, which keeps the version,
  the keep-alive and the fields of what was left of the response before.
\<close>

theorem HttpSession_unparsable_run:
  assumes "runs (http_step lib rm) (HttpSession_Run (HttpSession_new address port), w) es (s, w')"
    and "reads s \<noteq> []" and "request_uri lib req s = None"
  shows "if requests_read es = []
    then HttpSession_OnRead lib rm (Got_request req) (s\<lparr>reads := []\<rparr>) w' = Inl (Undefined Empty_optional)
    else \<exists>r. response s = Some r \<and> HttpSession_OnRead lib rm (Got_request req) (s\<lparr>reads := []\<rparr>) w' =
      Inr (replied lib (r\<lparr>rs_status := 404, rs_body := ''Unknown HTTP-target: '' @ rq_target req\<rparr>)
        (s\<lparr>reads := []\<rparr>), w')"
proof -
  have "answered_inv [] (HttpSession_Run (HttpSession_new address port))"
    by (simp add: answered_inv_def http_inv_def HttpSession_defs)
  then have inv: "answered_inv es s" using answering.runs_establish [OF assms(1)] by simp
  then have "parser s" using assms(2) by (auto simp: answered_inv_def http_inv_def)
  moreover have "request_uri lib req (s\<lparr>reads := []\<rparr>) = None" using assms(3) by (simp add: request_uri_def)
  ultimately show ?thesis
    using HttpSession_unparsable_target [of "s\<lparr>reads := []\<rparr>" lib req rm w'] inv
    by (auto simp: answered_inv_def split: option.splits)
qed

theorem HttpSession_unparsable_run_witness:
  "HttpSession_OnRead sample_lib (Some sample_routes) (Got_request (sample_request ''* *'' True))
     (sample_session\<lparr>reads := []\<rparr>) 0 = Inl (Undefined Empty_optional)"
proof -
  have "runs (http_step sample_lib (Some sample_routes)) (HttpSession_Run (HttpSession_new ''h'' 1), 0)
      [] (sample_session, 0)" by (simp add: sample_session_def)
  from HttpSession_unparsable_run [OF this, of "sample_request ''* *'' True"] show ?thesis
    by (simp add: sample_defs)
qed

lemma ParseQuery_loop_eq:
  "ParseQuery_loop qs ps k = (case ps k of
     Some v \<Rightarrow> Some v
   | None \<Rightarrow> if k = '''' then None
       else map_option (\<lambda>v. case v of Some v \<Rightarrow> v | None \<Rightarrow> '''') (map_of qs k))"
  by (induction qs ps rule: ParseQuery_loop.induct)
    (auto simp: umap_emplace_def split: option.splits)

text \<open>
  A query's parameters: no empty key, the first of the values given for a key, in
  their encoded form, and the empty string for a key without a value; nothing at all when
  the query does not parse.
\<close>

lemma ParseQuery_correct:
  "ParseQuery lib u =
     (if query_parses lib u
      then Some (\<lambda>k. if k = '''' then None
        else map_option (\<lambda>v. case v of Some v \<Rightarrow> v | None \<Rightarrow> '''') (map_of (encoded_params lib u) k))
      else None)"
  by (auto simp: ParseQuery_def ParseQuery_loop_eq)

section \<open>The end of a session object\<close>

text \<open>
  Every operation holds a shared pointer to the session: the object is destroyed when none
  is left, and its destructor calls \<open>Close\<close>.
\<close>

definition HttpSession_destroy :: "('v, 'h) http_session \<Rightarrow> ('v, 'h) http_session" where
  "HttpSession_destroy s = HttpSession_Close s"

definition HttpSession_finished :: "('v, 'h) http_session \<Rightarrow> bool" where
  "HttpSession_finished s \<longleftrightarrow> reads s = [] \<and> writes s = []"

definition ends_session :: "'v http_event \<Rightarrow> bool" where
  "ends_session e \<longleftrightarrow> e = Read_done End_of_stream \<or> e = Read_done Read_failed"

definition reading_or_ended :: "'v http_event list \<Rightarrow> ('v, 'h) http_session \<Rightarrow> bool" where
  "reading_or_ended es s \<longleftrightarrow> reads s \<noteq> [] \<or> ws_started s \<noteq> None \<or> list_ex ends_session es"

lemma http_step_reading:
  assumes "http_step lib rm (s, w) e (s', w')" and "reading_or_ended es s"
  shows "reading_or_ended (es @ [e]) s'"
  using assms(1)
proof (cases rule: http_step.cases)
  case (read_done r rs result)
  from read_done(3) show ?thesis
    by (cases rule: OnRead_cases)
      (auto simp: reading_or_ended_def ends_session_def replied_def read_done(1))
next
  case (write_done m ms ok)
  then show ?thesis using assms(2)
    by (auto simp: reading_or_ended_def HttpSession_OnWrite_def HttpSession_Close_def)
qed

interpretation life: trace_invariant "http_step lib rm" "\<lambda>es c. reading_or_ended es (fst c)" for lib rm
  by unfold_locales (metis http_step_reading prod.collapse)

text \<open>
  A session object lives until its client ends the stream, a read fails (the timeout
  included), or the socket is handed to a websocket session, whatever its writes do; and its
  end shuts the connection down.
\<close>

lemma HttpSession_lives:
  assumes "runs (http_step lib rm) (HttpSession_Run (HttpSession_new address port), w) es (s, w')"
    and "HttpSession_finished s"
  shows "(ws_started s \<noteq> None \<or> list_ex ends_session es) \<and> send_shutdown (HttpSession_destroy s)"
proof -
  have "reading_or_ended [] (HttpSession_Run (HttpSession_new address port))"
    by (simp add: reading_or_ended_def HttpSession_defs)
  then have "reading_or_ended es s" using life.runs_establish [OF assms(1)] by simp
  with assms(2) show ?thesis
    by (simp add: reading_or_ended_def HttpSession_finished_def HttpSession_destroy_def HttpSession_Close_def)
qed

end
