(* ===== verification/Ws_Session.thy ===== *)
theory Ws_Session
  imports Http_Session
begin

text \<open>
  A websocket connection: \<open>networking/websocket/websocket_session.h\<close>,
  \<open>websocket_session.cpp\<close>, \<open>ws_context.hpp\<close> and \<open>ws_handler.hpp\<close>. The handlers of a route may
  send on any session they can reach, so the operations that call one act on a store of
  all session objects: a session is known by its number, which stands for its address and
  that of its context, and is never reused. A session object is destroyed when the last of
  its asynchronous operations has finished and the application holds no pointer that keeps
  it; using its number after that is undefined.
\<close>

section \<open>The dynamic buffer\<close>

text \<open>
  \<open>beast::flat_buffer\<close>, as far as it is used: \<open>prepare\<close>, a copy and \<open>commit\<close> append bytes,
  \<open>data\<close> gives the readable bytes and \<open>consume\<close> drops bytes from their front.
\<close>

record 'b flat_buffer_ops =
  fb_empty :: 'b
  fb_append :: "string \<Rightarrow> 'b \<Rightarrow> 'b"
  fb_data :: "'b \<Rightarrow> string"
  fb_consume :: "nat \<Rightarrow> 'b \<Rightarrow> 'b"

locale flat_buffer =
  fixes fb :: "'b flat_buffer_ops"
  assumes data_empty: "fb_data fb (fb_empty fb) = ''''"
    and data_append: "fb_data fb (fb_append fb d b) = fb_data fb b @ d"
    and data_consume: "fb_data fb (fb_consume fb n b) = drop n (fb_data fb b)"

text \<open>Buffers that are their readable bytes.\<close>

definition readable_bytes :: "string flat_buffer_ops" where
  "readable_bytes = \<lparr>fb_empty = '''', fb_append = (\<lambda>d b. b @ d), fb_data = (\<lambda>b. b), fb_consume = drop\<rparr>"

interpretation readable: flat_buffer readable_bytes
  by unfold_locales (simp_all add: readable_bytes_def)

section \<open>A session\<close>

type_synonym endpoint = "string \<times> 16 word"

text \<open>\<open>ctx_ws_session\<close> is the weak pointer: the number it was set to.\<close>

record ws_context =
  ctx_remote_endpoint :: endpoint
  ctx_local_endpoint :: endpoint
  ctx_uuid :: string
  ctx_ws_session :: "nat option"
  ctx_target :: string

text \<open>
  The members, the stream's settings, and the operations under way: \<open>ws_writing\<close> holds the
  mode and the bytes each outstanding write was started with, \<open>ws_sent\<close> the messages the
  client was sent. \<open>ws_handler_ref\<close> names the handler the session refers to.
\<close>

record ('v, 'b, 'h) ws_session =
  ctx :: ws_context
  ws_write_buf :: 'b
  ws_buffer :: 'b
  ws_req :: "'v request"
  ws_params :: "params option"
  ws_handler_ref :: 'h
  ws_server_field :: "string option"
  ws_suggested_timeout :: bool
  ws_text :: bool
  ws_open :: bool
  ws_accepting :: bool
  ws_reading :: nat
  ws_writing :: "(bool \<times> string) list"
  ws_sent :: "(bool \<times> string) list"

definition WebSocketSession_new ::
  "'b flat_buffer_ops \<Rightarrow> 'v request \<Rightarrow> params option \<Rightarrow> 'h \<Rightarrow> ('v, 'b, 'h) ws_session" where
  "WebSocketSession_new fb req params handler =
     \<lparr>ctx = \<lparr>ctx_remote_endpoint = ('''', 0), ctx_local_endpoint = ('''', 0), ctx_uuid = '''',
        ctx_ws_session = None, ctx_target = ''''\<rparr>,
      ws_write_buf = fb_empty fb, ws_buffer = fb_empty fb, ws_req = req, ws_params = params,
      ws_handler_ref = handler, ws_server_field = None, ws_suggested_timeout = False,
      ws_text = True, ws_open = False, ws_accepting = False, ws_reading = 0, ws_writing = [],
      ws_sent = []\<rparr>"

definition WebSocketSession_Run ::
  "endpoint \<Rightarrow> endpoint \<Rightarrow> ('v, 'b, 'h) ws_session \<Rightarrow> ('v, 'b, 'h) ws_session" where
  "WebSocketSession_Run remote local_end s =
     s\<lparr>ctx := (ctx s)\<lparr>ctx_remote_endpoint := remote, ctx_local_endpoint := local_end,
         ctx_target := rq_target (ws_req s)\<rparr>,
       ws_suggested_timeout := True,
       ws_server_field := Some (server_version @ '' advanced-server''),
       ws_accepting := True\<rparr>"

definition WebSocketSession_Read :: "('v, 'b, 'h) ws_session \<Rightarrow> ('v, 'b, 'h) ws_session" where
  "WebSocketSession_Read s = s\<lparr>ws_reading := Suc (ws_reading s)\<rparr>"

text \<open>A write is started on all bytes the write buffer holds.\<close>

definition WebSocketSession_Write ::
  "'b flat_buffer_ops \<Rightarrow> ('v, 'b, 'h) ws_session \<Rightarrow> ('v, 'b, 'h) ws_session" where
  "WebSocketSession_Write fb s =
     s\<lparr>ws_writing := ws_writing s @ [(ws_text s, fb_data fb (ws_write_buf s))]\<rparr>"

definition WebSocketSession_Send ::
  "'b flat_buffer_ops \<Rightarrow> string \<Rightarrow> ('v, 'b, 'h) ws_session \<Rightarrow> ('v, 'b, 'h) ws_session" where
  "WebSocketSession_Send fb data s =
     WebSocketSession_Write fb (s\<lparr>ws_write_buf := fb_append fb data (ws_write_buf s)\<rparr>)"

text \<open>The destructor calls \<open>Close\<close>.\<close>

definition WebSocketSession_Close :: "('v, 'b, 'h) ws_session \<Rightarrow> ('v, 'b, 'h) ws_session" where
  "WebSocketSession_Close s = (if ws_open s then s\<lparr>ws_open := False\<rparr> else s)"

section \<open>The store of sessions\<close>

text \<open>
  \<open>ws_ended\<close> keeps destroyed sessions, to speak of what their clients were sent. \<open>app\<close> is the
  state of the application, which the handlers reach.
\<close>

record ('v, 'b, 'h, 'a) ws_world =
  ws_sessions :: "nat \<rightharpoonup> ('v, 'b, 'h) ws_session"
  ws_ended :: "nat \<rightharpoonup> ('v, 'b, 'h) ws_session"
  ws_next :: nat
  app :: 'a

definition get_session ::
  "nat \<Rightarrow> ('v, 'b, 'h, 'a) ws_world \<Rightarrow> ('v, 'b, 'h) ws_session res" where
  "get_session sid w = (case ws_sessions w sid of
     None \<Rightarrow> Inl (Undefined Dangling_pointer) | Some s \<Rightarrow> Inr s)"

definition put_session ::
  "nat \<Rightarrow> ('v, 'b, 'h) ws_session \<Rightarrow> ('v, 'b, 'h, 'a) ws_world \<Rightarrow> ('v, 'b, 'h, 'a) ws_world" where
  "put_session sid s w = w\<lparr>ws_sessions := (ws_sessions w)(sid \<mapsto> s)\<rparr>"

definition on_session ::
  "nat \<Rightarrow> (('v, 'b, 'h) ws_session \<Rightarrow> ('v, 'b, 'h) ws_session) \<Rightarrow>
     ('v, 'b, 'h, 'a) ws_world \<Rightarrow> ('v, 'b, 'h, 'a) ws_world res" where
  "on_session sid f w = bind_res (get_session sid w) (\<lambda>s. Inr (put_session sid (f s) w))"

text \<open>\<open>std::weak_ptr::lock\<close>\<close>

definition lock :: "nat option \<Rightarrow> ('v, 'b, 'h, 'a) ws_world \<Rightarrow> nat option" where
  "lock p w = (case p of None \<Rightarrow> None
     | Some sid \<Rightarrow> if ws_sessions w sid = None then None else Some sid)"

text \<open>Error codes are numbers; a context is passed as the number of its session.\<close>

record 'w ws_handler =
  on_connect :: "nat \<Rightarrow> 'w \<Rightarrow> 'w res"
  on_disconnect :: "nat \<Rightarrow> 'w \<Rightarrow> 'w res"
  on_receive :: "nat \<Rightarrow> string \<Rightarrow> nat \<Rightarrow> bool \<Rightarrow> 'w \<Rightarrow> 'w res"
  on_error :: "nat \<Rightarrow> string \<Rightarrow> 'w \<Rightarrow> 'w res"

definition WSHandler_default :: "'w ws_handler" where
  "WSHandler_default = \<lparr>on_connect = (\<lambda>c w. Inr w), on_disconnect = (\<lambda>c w. Inr w),
     on_receive = (\<lambda>c d n b w. Inr w), on_error = (\<lambda>e at w. Inr w)\<rparr>"

text \<open>\<open>req_.at\<close> throws when the request has no such field.\<close>

definition WebSocketSession_OnAccept ::
  "('v, 'b, 'h, 'a) ws_world ws_handler \<Rightarrow> nat \<Rightarrow> nat option \<Rightarrow> ('v, 'b, 'h, 'a) ws_world \<Rightarrow>
     ('v, 'b, 'h, 'a) ws_world res" where
  "WebSocketSession_OnAccept handler sid ec w =
     (case ec of
        Some e \<Rightarrow> on_error handler e ''on accept'' w
      | None \<Rightarrow> bind_res (get_session sid w) (\<lambda>s.
          case rq_fields (ws_req s) ''Sec-WebSocket-Key'' of
            None \<Rightarrow> Inl Out_of_range
          | Some key \<Rightarrow>
              bind_res (on_connect handler sid (put_session sid
                (s\<lparr>ctx := (ctx s)\<lparr>ctx_ws_session := Some sid, ctx_uuid := key\<rparr>\<rparr>) w))
                (on_session sid WebSocketSession_Read)))"

text \<open>
  What a read ends with: a message and whether it is text, \<open>websocket::error::closed\<close>, or
  another error. The bytes of a message are in the buffer when the handler runs.
\<close>

datatype ws_read_result = Got_message string bool | Closed | Ws_read_failed nat

definition WebSocketSession_OnRead ::
  "'b flat_buffer_ops \<Rightarrow> ('v, 'b, 'h, 'a) ws_world ws_handler \<Rightarrow> nat \<Rightarrow> ws_read_result \<Rightarrow>
     ('v, 'b, 'h, 'a) ws_world \<Rightarrow> ('v, 'b, 'h, 'a) ws_world res" where
  "WebSocketSession_OnRead fb handler sid result w =
     (case result of
        Closed \<Rightarrow> on_disconnect handler sid w
      | Ws_read_failed e \<Rightarrow> on_error handler e ''on read'' w
      | Got_message msg got_text \<Rightarrow> bind_res (get_session sid w) (\<lambda>s.
          let p = fb_data fb (ws_buffer s);
              s' = s\<lparr>ws_text := got_text\<rparr>
          in bind_res (on_receive handler sid p (length p) (\<not> ws_text s') (put_session sid s' w))
            (\<lambda>w'. on_session sid (\<lambda>s. WebSocketSession_Read
               (s\<lparr>ws_buffer := fb_consume fb (length p) (ws_buffer s)\<rparr>)) w')))"

definition WebSocketSession_OnWrite ::
  "'b flat_buffer_ops \<Rightarrow> ('v, 'b, 'h, 'a) ws_world ws_handler \<Rightarrow> nat \<Rightarrow> nat option \<Rightarrow> nat \<Rightarrow>
     ('v, 'b, 'h, 'a) ws_world \<Rightarrow> ('v, 'b, 'h, 'a) ws_world res" where
  "WebSocketSession_OnWrite fb handler sid ec bytes w =
     (case ec of
        Some e \<Rightarrow> on_error handler e ''on write'' w
      | None \<Rightarrow> on_session sid
          (\<lambda>s. s\<lparr>ws_write_buf := fb_consume fb bytes (ws_write_buf s)\<rparr>) w)"

section \<open>Completions\<close>

datatype ws_event =
    Ws_accepted nat "nat option"
  | Ws_read nat ws_read_result
  | Ws_wrote nat "nat option"

text \<open>The session an operation of which completes, without that operation.\<close>

definition started :: "ws_event \<Rightarrow> ('v, 'b, 'h) ws_session \<Rightarrow> bool" where
  "started e s = (case e of Ws_accepted _ _ \<Rightarrow> ws_accepting s
     | Ws_read _ _ \<Rightarrow> ws_reading s \<noteq> 0 | Ws_wrote _ _ \<Rightarrow> ws_writing s \<noteq> [])"

fun event_session :: "ws_event \<Rightarrow> nat" where
  "event_session (Ws_accepted sid ec) = sid"
| "event_session (Ws_read sid result) = sid"
| "event_session (Ws_wrote sid ec) = sid"

definition ws_enabled :: "ws_event \<Rightarrow> ('v, 'b, 'h, 'a) ws_world \<Rightarrow> bool" where
  "ws_enabled e w = (case ws_sessions w (event_session e) of None \<Rightarrow> False | Some s \<Rightarrow> started e s)"

text \<open>
  What the stream does when an operation completes: it is open after a successful accept
  and no longer after \<open>closed\<close>; the bytes of a message are appended to the buffer; a
  successful write has put its bytes on the wire, of which it reports the number.
\<close>

fun ws_finish :: "'b flat_buffer_ops \<Rightarrow> ws_event \<Rightarrow> ('v, 'b, 'h) ws_session \<Rightarrow> ('v, 'b, 'h) ws_session" where
  "ws_finish fb (Ws_accepted sid ec) s = s\<lparr>ws_accepting := False, ws_open := (ec = None)\<rparr>"
| "ws_finish fb (Ws_read sid result) s =
     (let s' = s\<lparr>ws_reading := ws_reading s - 1\<rparr>
      in case result of
           Got_message msg got_text \<Rightarrow> s'\<lparr>ws_buffer := fb_append fb msg (ws_buffer s)\<rparr>
         | Closed \<Rightarrow> s'\<lparr>ws_open := False\<rparr>
         | Ws_read_failed e \<Rightarrow> s')"
| "ws_finish fb (Ws_wrote sid ec) s =
     s\<lparr>ws_writing := tl (ws_writing s),
       ws_sent := ws_sent s @ (if ec = None then [hd (ws_writing s)] else [])\<rparr>"

definition busy :: "('v, 'b, 'h) ws_session \<Rightarrow> bool" where
  "busy s \<longleftrightarrow> ws_accepting s \<or> ws_reading s \<noteq> 0 \<or> ws_writing s \<noteq> []"

text \<open>The last owner of a session is gone: \<open>holds\<close> lists those the application owns.\<close>

definition release ::
  "('a \<Rightarrow> nat list) \<Rightarrow> nat \<Rightarrow> ('v, 'b, 'h, 'a) ws_world \<Rightarrow> ('v, 'b, 'h, 'a) ws_world" where
  "release holds sid w =
     (case ws_sessions w sid of
        None \<Rightarrow> w
      | Some s \<Rightarrow>
          if busy s \<or> sid \<in> set (holds (app w)) then w
          else w\<lparr>ws_sessions := (ws_sessions w)(sid := None),
                 ws_ended := (ws_ended w)(sid \<mapsto> WebSocketSession_Close s)\<rparr>)"

fun ws_call ::
  "'b flat_buffer_ops \<Rightarrow> ('v, 'b, 'h, 'a) ws_world ws_handler \<Rightarrow> ws_event \<Rightarrow> nat \<Rightarrow>
     ('v, 'b, 'h, 'a) ws_world \<Rightarrow> ('v, 'b, 'h, 'a) ws_world res" where
  "ws_call fb handler (Ws_accepted sid ec) bytes w = WebSocketSession_OnAccept handler sid ec w"
| "ws_call fb handler (Ws_read sid result) bytes w = WebSocketSession_OnRead fb handler sid result w"
| "ws_call fb handler (Ws_wrote sid ec) bytes w = WebSocketSession_OnWrite fb handler sid ec bytes w"

text \<open>\<open>handlers\<close> gives the handler a session refers to.\<close>

definition ws_complete ::
  "'b flat_buffer_ops \<Rightarrow> ('h \<Rightarrow> ('v, 'b, 'h, 'a) ws_world ws_handler) \<Rightarrow> ('a \<Rightarrow> nat list) \<Rightarrow>
     ws_event \<Rightarrow> ('v, 'b, 'h, 'a) ws_world \<Rightarrow> ('v, 'b, 'h, 'a) ws_world res" where
  "ws_complete fb handlers holds e w =
     bind_res (get_session (event_session e) w) (\<lambda>s.
       let bytes = (case ws_writing s of [] \<Rightarrow> 0 | v # vs \<Rightarrow> length (snd v))
       in bind_res (ws_call fb (handlers (ws_handler_ref s)) e bytes
            (put_session (event_session e) (ws_finish fb e s) w))
          (\<lambda>w'. Inr (release holds (event_session e) w')))"

text \<open>\<open>std::make_shared<WebSocketSession>(...)->Run()\<close>\<close>

definition start_session ::
  "'b flat_buffer_ops \<Rightarrow> 'v request \<Rightarrow> params option \<Rightarrow> 'h \<Rightarrow> endpoint \<Rightarrow> endpoint \<Rightarrow>
     ('v, 'b, 'h, 'a) ws_world \<Rightarrow> ('v, 'b, 'h, 'a) ws_world" where
  "start_session fb req params handler remote local_end w =
     w\<lparr>ws_sessions := (ws_sessions w)(ws_next w \<mapsto>
         WebSocketSession_Run remote local_end (WebSocketSession_new fb req params handler)),
       ws_next := Suc (ws_next w)\<rparr>"

section \<open>Sending\<close>

text \<open>A write completes: its bytes are on the wire, and as many are consumed.\<close>

definition write_completed ::
  "'b flat_buffer_ops \<Rightarrow> ('v, 'b, 'h) ws_session \<Rightarrow> ('v, 'b, 'h) ws_session" where
  "write_completed fb s =
     (ws_finish fb (Ws_wrote 0 None) s)\<lparr>ws_write_buf :=
        fb_consume fb (length (snd (hd (ws_writing s)))) (ws_write_buf s)\<rparr>"

lemmas Send_defs = WebSocketSession_Send_def WebSocketSession_Write_def write_completed_def

lemma get_put [simp]: "get_session sid (put_session sid s w) = Inr s"
  by (simp add: get_session_def put_session_def)

lemma put_put [simp]: "put_session sid s (put_session sid s' w) = put_session sid s w"
  by (simp add: put_session_def)

lemma get_session_Inr [simp]: "get_session sid w = Inr s \<longleftrightarrow> ws_sessions w sid = Some s"
  by (simp add: get_session_def split: option.splits)

lemma get_session_Some [simp]: "ws_sessions w sid = Some s \<Longrightarrow> get_session sid w = Inr s"
  by (simp add: get_session_def)

lemma ws_complete_wrote:
  assumes "ws_sessions w sid = Some s" and "ws_writing s \<noteq> []"
  shows "ws_complete fb handlers holds (Ws_wrote sid None) w =
    Inr (release holds sid (put_session sid (write_completed fb s) w))"
  using assms
  by (cases "ws_writing s")
    (auto simp: ws_complete_def on_session_def WebSocketSession_OnWrite_def
      write_completed_def)

context flat_buffer
begin

lemma burst:
  "fb_data fb (ws_write_buf (fold (WebSocketSession_Send fb) ms s)) =
     fb_data fb (ws_write_buf s) @ concat ms \<and>
   ws_writing (fold (WebSocketSession_Send fb) ms s) =
     ws_writing s @ map (\<lambda>k. (ws_text s, fb_data fb (ws_write_buf s) @ concat (take (Suc k) ms)))
       [0..<length ms]"
proof (induction ms arbitrary: s)
  case Nil
  then show ?case by simp
next
  case (Cons m ms)
  have "[0..<length (m # ms)] = 0 # map Suc [0..<length ms]"
    by (simp add: map_Suc_upt upt_conv_Cons del: upt_Suc)
  with Cons.IH [of "WebSocketSession_Send fb m s"] show ?case
    by (simp add: Send_defs data_append comp_def del: upt_Suc)
qed

lemma spaced_one:
  assumes "fb_data fb (ws_write_buf s) = ''''" and "ws_writing s = []"
  shows "fb_data fb (ws_write_buf (write_completed fb (WebSocketSession_Send fb m s))) = ''''"
    and "ws_writing (write_completed fb (WebSocketSession_Send fb m s)) = []"
    and "ws_sent (write_completed fb (WebSocketSession_Send fb m s)) = ws_sent s @ [(ws_text s, m)]"
    and "ws_text (write_completed fb (WebSocketSession_Send fb m s)) = ws_text s"
  using assms by (simp_all add: Send_defs data_append data_consume)

lemma spaced:
  assumes "fb_data fb (ws_write_buf s) = ''''" and "ws_writing s = []"
  shows "ws_sent (fold (\<lambda>m s. write_completed fb (WebSocketSession_Send fb m s)) ms s) =
      ws_sent s @ map (\<lambda>m. (ws_text s, m)) ms \<and>
    fb_data fb (ws_write_buf (fold (\<lambda>m s. write_completed fb (WebSocketSession_Send fb m s)) ms s)) = ''''"
  using assms
proof (induction ms arbitrary: s)
  case Nil
  then show ?case by simp
next
  case (Cons m ms)
  from Cons.IH [OF spaced_one(1,2) [OF Cons.prems, of m]] show ?case
    by (simp add: spaced_one [OF Cons.prems])
qed

end

text \<open>
  When each \<open>Send\<close> is called after the write of the one before has completed, the
  client is sent exactly the messages, in order, each once, and the write buffer is empty
  in between.
\<close>

lemma WebSocket_spaced_sends:
  assumes "flat_buffer fb" and "fb_data fb (ws_write_buf s) = ''''" and "ws_writing s = []"
  shows "ws_sent (fold (\<lambda>m s. write_completed fb (WebSocketSession_Send fb m s)) ms s) =
      ws_sent s @ map (\<lambda>m. (ws_text s, m)) ms \<and>
    fb_data fb (ws_write_buf (fold (\<lambda>m s. write_completed fb (WebSocketSession_Send fb m s)) ms s)) = ''''"
  using assms by (rule flat_buffer.spaced)

definition sample_ws_session :: "(nat, string, nat) ws_session" where
  "sample_ws_session = WebSocketSession_new readable_bytes (sample_request ''/'' True) None 7"

lemma WebSocket_spaced_sends_witness:
  "ws_sent (fold (\<lambda>m s. write_completed readable_bytes (WebSocketSession_Send readable_bytes m s))
     [''A'', ''B''] sample_ws_session) = [(True, ''A''), (True, ''B'')]"
  using WebSocket_spaced_sends [OF readable.flat_buffer_axioms, of sample_ws_session "[''A'', ''B'']"]
  by (simp add: sample_ws_session_def WebSocketSession_new_def readable_bytes_def)

text \<open>
  \<open>Send\<close> does not wait for the write before it: every write is started on the whole
  write buffer, so the \<open>k\<close>-th of several messages sent in a row goes out with all the
  messages before it in front.
\<close>

lemma WebSocket_burst_repeats:
  assumes "flat_buffer fb" and "fb_data fb (ws_write_buf s) = ''''" and "ws_writing s = []"
  shows "map snd (ws_writing (fold (WebSocketSession_Send fb) ms s)) =
    map (\<lambda>k. concat (take (Suc k) ms)) [0..<length ms]"
  using flat_buffer.burst [OF assms(1), of ms s] assms(2,3) by (simp add: comp_def)

lemma WebSocket_burst_repeats_witness:
  "map snd (ws_sent (write_completed readable_bytes (write_completed readable_bytes
     (fold (WebSocketSession_Send readable_bytes) [''A'', ''B''] sample_ws_session)))) = [''A'', ''AB'']"
proof -
  have "map snd (ws_writing (fold (WebSocketSession_Send readable_bytes) [''A'', ''B''] sample_ws_session)) =
      [''A'', ''AB'']"
    by (subst WebSocket_burst_repeats [OF readable.flat_buffer_axioms])
      (simp_all add: sample_ws_session_def WebSocketSession_new_def readable_bytes_def)
  then show ?thesis
    by (simp add: Send_defs sample_ws_session_def WebSocketSession_new_def readable_bytes_def)
qed

section \<open>Sessions under an application\<close>

text \<open>
  The members that only the session's own functions write. A handler can send on sessions
  and change the application's state, nothing else.
\<close>

definition own_state ::
  "('v, 'b, 'h) ws_session \<Rightarrow> ws_context \<times> 'b \<times> 'v request \<times> 'h \<times> bool \<times> nat \<times> (bool \<times> string) list" where
  "own_state s = (ctx s, ws_buffer s, ws_req s, ws_handler_ref s, ws_accepting s, ws_reading s, ws_sent s)"

definition sends_only ::
  "('v, 'b, 'h, 'a) ws_world \<Rightarrow> ('v, 'b, 'h, 'a) ws_world \<Rightarrow> bool" where
  "sends_only w w' \<longleftrightarrow> ws_next w' = ws_next w \<and> ws_ended w' = ws_ended w \<and>
     (\<forall>sid. map_option own_state (ws_sessions w' sid) = map_option own_state (ws_sessions w sid))"

lemma sends_only_refl [simp]: "sends_only w w"
  by (simp add: sends_only_def)

lemma sends_only_trans: "sends_only u v \<Longrightarrow> sends_only v w \<Longrightarrow> sends_only u w"
  by (simp add: sends_only_def)

lemma sends_only_app [simp]: "sends_only w (w'\<lparr>app := a\<rparr>) = sends_only w w'"
  by (simp add: sends_only_def)

lemma sends_only_back:
  assumes "sends_only w w'" and "ws_sessions w' sid = Some s'"
  obtains s where "ws_sessions w sid = Some s" and "own_state s' = own_state s"
  using assms unfolding sends_only_def
  by (cases "ws_sessions w sid") (auto dest!: spec [of _ sid])

lemma sends_only_forth:
  assumes "sends_only w w'" and "ws_sessions w sid = Some s"
  obtains s' where "ws_sessions w' sid = Some s'" and "own_state s' = own_state s"
  using assms unfolding sends_only_def
  by (cases "ws_sessions w' sid") (auto dest!: spec [of _ sid])

lemma sends_only_dom: "sends_only w w' \<Longrightarrow> ws_sessions w' sid = None \<longleftrightarrow> ws_sessions w sid = None"
  unfolding sends_only_def by (metis option.map_disc_iff)

lemma own_state_Send [simp]: "own_state (WebSocketSession_Send fb d s) = own_state s"
  by (simp add: own_state_def Send_defs)

lemma sends_only_Send:
  assumes "on_session sid (WebSocketSession_Send fb d) w = Inr w'"
  shows "sends_only w w'"
  using assms by (auto simp: on_session_def res_eq put_session_def sends_only_def)

text \<open>
  The invariant of a session: it is accepting, with nothing known of its client yet, or has
  at most one read outstanding, with its context filled in and its buffer empty.
\<close>

definition session_inv :: "'b flat_buffer_ops \<Rightarrow> nat \<Rightarrow> ('v, 'b, 'h) ws_session \<Rightarrow> bool" where
  "session_inv fb sid s \<longleftrightarrow> fb_data fb (ws_buffer s) = '''' \<and> ws_reading s \<le> 1 \<and>
     \<not> (ws_accepting s \<and> (ws_reading s \<noteq> 0 \<or> ctx_ws_session (ctx s) \<noteq> None)) \<and>
     ctx_ws_session (ctx s) \<in> {None, Some sid} \<and>
     \<not> (ctx_ws_session (ctx s) = Some sid \<and>
         rq_fields (ws_req s) ''Sec-WebSocket-Key'' \<noteq> Some (ctx_uuid (ctx s))) \<and>
     \<not> (ws_reading s \<noteq> 0 \<and> ctx_ws_session (ctx s) = None)"

lemma session_inv_own: "own_state s' = own_state s \<Longrightarrow> session_inv fb sid s' = session_inv fb sid s"
  by (simp add: session_inv_def own_state_def)

text \<open>All sessions but those in \<open>X\<close> keep the invariant.\<close>

definition sessions_inv :: "'b flat_buffer_ops \<Rightarrow> nat set \<Rightarrow> ('v, 'b, 'h, 'a) ws_world \<Rightarrow> bool" where
  "sessions_inv fb X w \<longleftrightarrow> (\<forall>sid s. ws_sessions w sid = Some s \<longrightarrow>
     sid < ws_next w \<and> (sid \<in> X \<or> session_inv fb sid s))"

lemma sessions_inv_sends_only:
  assumes "sends_only w w'" and "sessions_inv fb X w"
  shows "sessions_inv fb X w'"
  unfolding sessions_inv_def
proof (intro allI impI)
  fix sid s'
  assume "ws_sessions w' sid = Some s'"
  with assms(1) obtain s where s: "ws_sessions w sid = Some s" and own: "own_state s' = own_state s"
    by (rule sends_only_back)
  have "ws_next w' = ws_next w" using assms(1) by (simp add: sends_only_def)
  moreover have "sid < ws_next w \<and> (sid \<in> X \<or> session_inv fb sid s)"
    using assms(2) s unfolding sessions_inv_def by blast
  ultimately show "sid < ws_next w' \<and> (sid \<in> X \<or> session_inv fb sid s')"
    by (simp add: session_inv_own [OF own])
qed

lemma sessions_inv_put:
  assumes "sessions_inv fb X w" and "sid < ws_next w" and "sid \<in> Y \<or> session_inv fb sid s" and "X \<subseteq> insert sid Y"
  shows "sessions_inv fb Y (put_session sid s w)"
  unfolding sessions_inv_def
proof (intro allI impI)
  fix j t assume "ws_sessions (put_session sid s w) j = Some t"
  then show "j < ws_next (put_session sid s w) \<and> (j \<in> Y \<or> session_inv fb j t)"
    using assms by (cases "j = sid") (auto simp: sessions_inv_def put_session_def)
qed

lemma sessions_inv_release: "sessions_inv fb X w \<Longrightarrow> sessions_inv fb X (release holds sid w)"
  by (auto simp: sessions_inv_def release_def split: option.splits)

lemma sessions_inv_start:
  assumes "flat_buffer fb" and "sessions_inv fb X w"
  shows "sessions_inv fb X (start_session fb req params h remote local_end w)"
proof -
  have "session_inv fb (ws_next w)
      (WebSocketSession_Run remote local_end (WebSocketSession_new fb req params h))"
    using flat_buffer.data_empty [OF assms(1)]
    by (simp add: session_inv_def WebSocketSession_Run_def WebSocketSession_new_def)
  with assms(2) show ?thesis
    by (auto simp: sessions_inv_def start_session_def less_Suc_eq)
qed

text \<open>
  An application whose handlers only send and change its own state.
\<close>

locale ws_application = flat_buffer fb for fb :: "'b flat_buffer_ops" +
  fixes handlers :: "'h \<Rightarrow> ('v, 'b, 'h, 'a) ws_world ws_handler"
    and holds :: "'a \<Rightarrow> nat list"
  assumes connect_sends: "on_connect (handlers h) sid w = Inr w' \<Longrightarrow> sends_only w w'"
    and disconnect_sends: "on_disconnect (handlers h) sid w = Inr w' \<Longrightarrow> sends_only w w'"
    and receive_sends: "on_receive (handlers h) sid d n b w = Inr w' \<Longrightarrow> sends_only w w'"
    and error_sends: "on_error (handlers h) e at w = Inr w' \<Longrightarrow> sends_only w w'"
begin

lemma OnAccept_inv:
  assumes "WebSocketSession_OnAccept (handlers h) sid ec w = Inr w'"
    and "ws_sessions w sid = Some s" and "\<not> ws_accepting s" and "ws_reading s = 0"
    and "sessions_inv fb {} w"
  shows "sessions_inv fb {} w'"
proof (cases ec)
  case (Some e)
  with assms show ?thesis
    by (auto simp: WebSocketSession_OnAccept_def intro: sessions_inv_sends_only error_sends)
next
  case None
  with assms(1,2) obtain key w1 s1
    where key: "rq_fields (ws_req s) ''Sec-WebSocket-Key'' = Some key"
      and con: "on_connect (handlers h) sid (put_session sid
        (s\<lparr>ctx := (ctx s)\<lparr>ctx_ws_session := Some sid, ctx_uuid := key\<rparr>\<rparr>) w) = Inr w1"
      and s1: "ws_sessions w1 sid = Some s1" and w': "w' = put_session sid (WebSocketSession_Read s1) w1"
    by (auto simp: WebSocketSession_OnAccept_def res_eq on_session_def split: option.splits)
  let ?s = "s\<lparr>ctx := (ctx s)\<lparr>ctx_ws_session := Some sid, ctx_uuid := key\<rparr>\<rparr>"
  have sid: "sid < ws_next w" "session_inv fb sid s"
    using assms(2,5) by (auto simp: sessions_inv_def)
  then have "session_inv fb sid ?s" using assms(3,4) key by (simp add: session_inv_def)
  then have "sessions_inv fb {} (put_session sid ?s w)"
    using sid assms(5) by (intro sessions_inv_put) auto
  with con have w1: "sessions_inv fb {} w1" by (blast intro: sessions_inv_sends_only connect_sends)
  from connect_sends [OF con] s1 have own: "own_state s1 = own_state ?s"
    unfolding sends_only_def by (auto simp: put_session_def dest!: spec [of _ sid])
  have "session_inv fb sid (WebSocketSession_Read s1)"
    using own sid(2) assms(3,4) key
    by (simp add: session_inv_def own_state_def WebSocketSession_Read_def)
  with w1 s1 show ?thesis unfolding w'
    by (intro sessions_inv_put [of fb "{}"]) (auto simp: sessions_inv_def)
qed

text \<open>A message is passed on as it is.\<close>

lemma OnRead_message:
  assumes "ws_sessions w sid = Some s" and "fb_data fb (ws_buffer s) = msg"
  shows "WebSocketSession_OnRead fb (handlers h) sid (Got_message m got_text) w =
    bind_res (on_receive (handlers h) sid msg (length msg) (\<not> got_text)
        (put_session sid (s\<lparr>ws_text := got_text\<rparr>) w))
      (\<lambda>w'. on_session sid (\<lambda>s. WebSocketSession_Read
         (s\<lparr>ws_buffer := fb_consume fb (length msg) (ws_buffer s)\<rparr>)) w')"
  using assms by (simp add: WebSocketSession_OnRead_def Let_def)

lemma OnRead_inv:
  assumes "WebSocketSession_OnRead fb (handlers h) sid result w = Inr w'"
    and "ws_sessions w sid = Some s" and "ws_reading s = 0" and "\<not> ws_accepting s"
    and "session_inv fb sid (s\<lparr>ws_buffer := fb_empty fb\<rparr>)" and "ctx_ws_session (ctx s) = Some sid"
    and "sessions_inv fb {sid} w"
    and "\<not> ((\<forall>m t. result \<noteq> Got_message m t) \<and> fb_data fb (ws_buffer s) \<noteq> '''')"
  shows "sessions_inv fb {} w'"
proof (cases "\<exists>m t. result = Got_message m t")
  case False
  then have "session_inv fb sid s" using assms(5,8) by (auto simp: session_inv_def)
  have "sessions_inv fb {} w" unfolding sessions_inv_def
  proof (intro allI impI)
    fix j t assume "ws_sessions w j = Some t"
    with assms(2,7) \<open>session_inv fb sid s\<close> show "j < ws_next w \<and> (j \<in> {} \<or> session_inv fb j t)"
      by (cases "j = sid") (auto simp: sessions_inv_def)
  qed
  with assms(1) False show ?thesis
    by (auto simp: WebSocketSession_OnRead_def split: ws_read_result.splits
        intro: sessions_inv_sends_only disconnect_sends error_sends)
next
  case True
  then obtain m t where "result = Got_message m t" by blast
  let ?p = "fb_data fb (ws_buffer s)" and ?s = "s\<lparr>ws_text := t\<rparr>"
  from assms(1) \<open>result = Got_message m t\<close> obtain w1 s1
    where rec: "on_receive (handlers h) sid ?p (length ?p) (\<not> t) (put_session sid ?s w) = Inr w1"
      and s1: "ws_sessions w1 sid = Some s1"
      and w': "w' = put_session sid (WebSocketSession_Read
         (s1\<lparr>ws_buffer := fb_consume fb (length ?p) (ws_buffer s1)\<rparr>)) w1"
    by (auto simp: OnRead_message [OF assms(2) refl] res_eq on_session_def)
  have sid: "sid < ws_next w" using assms(2,7) by (auto simp: sessions_inv_def)
  then have "sessions_inv fb {sid} (put_session sid ?s w)"
    using assms(7) by (intro sessions_inv_put [of fb "{sid}"]) auto
  with rec have w1: "sessions_inv fb {sid} w1" by (blast intro: sessions_inv_sends_only receive_sends)
  from receive_sends [OF rec] s1 have own: "own_state s1 = own_state ?s"
    unfolding sends_only_def by (auto simp: put_session_def dest!: spec [of _ sid])
  have "session_inv fb sid (WebSocketSession_Read
      (s1\<lparr>ws_buffer := fb_consume fb (length ?p) (ws_buffer s1)\<rparr>))"
    using own assms(3-6)
    by (simp add: session_inv_def own_state_def WebSocketSession_Read_def data_consume)
  with w1 s1 show ?thesis unfolding w'
    by (intro sessions_inv_put [of fb "{sid}"]) (auto simp: sessions_inv_def)
qed

lemma OnWrite_inv:
  assumes "WebSocketSession_OnWrite fb (handlers h) sid ec n w = Inr w'" and "sessions_inv fb {} w"
  shows "sessions_inv fb {} w'"
proof (cases ec)
  case (Some e)
  with assms show ?thesis
    by (auto simp: WebSocketSession_OnWrite_def intro: sessions_inv_sends_only error_sends)
next
  case None
  with assms(1) obtain s where s: "ws_sessions w sid = Some s"
    and w': "w' = put_session sid (s\<lparr>ws_write_buf := fb_consume fb n (ws_write_buf s)\<rparr>) w"
    by (auto simp: WebSocketSession_OnWrite_def on_session_def res_eq)
  from s assms(2) have "sid < ws_next w" "session_inv fb sid s" by (auto simp: sessions_inv_def)
  then have "session_inv fb sid (s\<lparr>ws_write_buf := fb_consume fb n (ws_write_buf s)\<rparr>)"
    by (simp add: session_inv_def)
  with \<open>sid < ws_next w\<close> assms(2) show ?thesis
    unfolding w' by (intro sessions_inv_put [of fb "{}"]) auto
qed

lemma ws_completeE:
  assumes "ws_complete fb handlers holds e w = Inr w'" and "ws_sessions w (event_session e) = Some s"
  obtains w1 n where "ws_call fb (handlers (ws_handler_ref s)) e n
      (put_session (event_session e) (ws_finish fb e s) w) = Inr w1"
    and "w' = release holds (event_session e) w1"
  using assms by (auto simp: ws_complete_def res_eq Let_def)

lemma finish_read_inv:
  assumes "session_inv fb sid s" and "ws_reading s \<noteq> 0" and "s' = ws_finish fb (Ws_read sid result) s"
  shows "ws_reading s' = 0" and "\<not> ws_accepting s'"
    and "session_inv fb sid (s'\<lparr>ws_buffer := fb_empty fb\<rparr>)" and "ctx_ws_session (ctx s') = Some sid"
    and "\<not> ((\<forall>m t. result \<noteq> Got_message m t) \<and> fb_data fb (ws_buffer s') \<noteq> '''')"
  using assms by (auto simp: session_inv_def Let_def data_empty split: ws_read_result.splits)

lemma complete_inv:
  assumes "ws_enabled e w" and "ws_complete fb handlers holds e w = Inr w'"
    and inv: "sessions_inv fb {} w"
  shows "sessions_inv fb {} w'"
proof -
  let ?sid = "event_session e"
  from assms(1) obtain s where s: "ws_sessions w ?sid = Some s" and st: "started e s"
    by (auto simp: ws_enabled_def split: option.splits)
  let ?s = "ws_finish fb e s" and ?h = "handlers (ws_handler_ref s)"
  let ?w = "put_session ?sid ?s w"
  from ws_completeE [OF assms(2) s] obtain w1 n
    where call: "ws_call fb ?h e n ?w = Inr w1" and w': "w' = release holds ?sid w1" by metis
  from s inv have sid: "?sid < ws_next w" and si: "session_inv fb ?sid s"
    by (auto simp: sessions_inv_def)
  have put: "ws_sessions ?w ?sid = Some ?s" by (simp add: put_session_def)
  have "sessions_inv fb {} w1"
  proof (cases e)
    case (Ws_accepted j ec)
    then have "\<not> ws_accepting ?s" "ws_reading ?s = 0" "session_inv fb ?sid ?s"
      using si st by (auto simp: session_inv_def started_def)
    moreover from this(3) have "sessions_inv fb {} ?w"
      using sid inv by (intro sessions_inv_put [of fb "{}"]) auto
    moreover have "WebSocketSession_OnAccept ?h ?sid ec ?w = Inr w1"
      using call Ws_accepted by simp
    ultimately show ?thesis using put OnAccept_inv by blast
  next
    case (Ws_read j result)
    then have "ws_reading s \<noteq> 0" and "?s = ws_finish fb (Ws_read ?sid result) s"
      using st by (simp_all add: started_def)
    note fin = finish_read_inv [OF si this]
    have "sessions_inv fb {?sid} ?w" using sid inv by (intro sessions_inv_put [of fb "{}"]) auto
    moreover have "WebSocketSession_OnRead fb ?h ?sid result ?w = Inr w1"
      using call Ws_read by simp
    ultimately show ?thesis using OnRead_inv [OF _ put fin(1-4) _ fin(5)] by blast
  next
    case (Ws_wrote j ec)
    then have "session_inv fb ?sid ?s" using si by (simp add: session_inv_def)
    then have "sessions_inv fb {} ?w" using sid inv by (intro sessions_inv_put [of fb "{}"]) auto
    moreover have "WebSocketSession_OnWrite fb ?h ?sid ec n ?w = Inr w1"
      using call Ws_wrote by simp
    ultimately show ?thesis using OnWrite_inv by blast
  qed
  then show ?thesis unfolding w' by (rule sessions_inv_release)
qed

text \<open>\<open>on_receive\<close> gets the message that was read, nothing of an older one.\<close>

lemma complete_message:
  assumes "ws_sessions w sid = Some s" and "ws_reading s \<noteq> 0" and "sessions_inv fb {} w"
  shows "ws_complete fb handlers holds (Ws_read sid (Got_message msg got_text)) w =
    bind_res
      (bind_res (on_receive (handlers (ws_handler_ref s)) sid msg (length msg) (\<not> got_text)
          (put_session sid (s\<lparr>ws_reading := ws_reading s - 1,
             ws_buffer := fb_append fb msg (ws_buffer s), ws_text := got_text\<rparr>) w))
        (on_session sid (\<lambda>s. WebSocketSession_Read
           (s\<lparr>ws_buffer := fb_consume fb (length msg) (ws_buffer s)\<rparr>))))
      (\<lambda>w'. Inr (release holds sid w'))"
proof -
  have "session_inv fb sid s" using assms(1,3) by (auto simp: sessions_inv_def)
  then have "fb_data fb (fb_append fb msg (ws_buffer s)) = msg"
    by (simp add: session_inv_def data_append)
  with assms(1) show ?thesis
    by (simp add: ws_complete_def Let_def WebSocketSession_OnRead_def)
qed

end

end
