(* ===== verification/Write_Buffers.thy ===== *)
theory Write_Buffers
  imports Ws_Session
begin

text \<open>
  The memory behind the writes of a websocket session (\<open>networking/websocket/websocket_session.h\<close>
  and \<open>.cpp\<close>): a write under way reads the bytes of \<open>write_buf_\<close> in place, through the view
  \<open>cdata()\<close> gave it. By the documentation of \<open>beast::flat_buffer\<close> every view is invalid after
  a later \<open>prepare\<close> or \<open>consume\<close>. \<open>Ws_Session\<close> lets a write carry the bytes it was started with;
  here each write under way also has its view, and a write that completes after its view
  became invalid has read memory that is no longer its own.
\<close>

section \<open>Views\<close>

text \<open>For each write under way, in their order, whether its view is still valid.\<close>

type_synonym views = "bool list"

definition invalidated :: "views \<Rightarrow> views" where
  "invalidated vs = map (\<lambda>_. False) vs"

text \<open>\<open>Send\<close>: \<open>prepare\<close> makes all views invalid, \<open>Write\<close> takes a new one.\<close>

definition Send_view ::
  "'b flat_buffer_ops \<Rightarrow> string \<Rightarrow> ('v, 'b, 'h) ws_session \<times> views \<Rightarrow> (('v, 'b, 'h) ws_session \<times> views) res" where
  "Send_view fb data sv =
     Inr (WebSocketSession_Send fb data (fst sv), invalidated (snd sv) @ [True])"

text \<open>A write has succeeded: its view has been read, and \<open>OnWrite\<close> calls \<open>consume\<close>.\<close>

definition OnWrite_view ::
  "'b flat_buffer_ops \<Rightarrow> ('v, 'b, 'h) ws_session \<times> views \<Rightarrow> (('v, 'b, 'h) ws_session \<times> views) res" where
  "OnWrite_view fb sv =
     (case snd sv of
        [] \<Rightarrow> Inr sv
      | valid # vs \<Rightarrow>
          if valid then Inr (write_completed fb (fst sv), invalidated vs)
          else Inl (Undefined Dangling_pointer))"

datatype write_call = Send_call string | Write_completes

fun run_write_call ::
  "'b flat_buffer_ops \<Rightarrow> write_call \<Rightarrow> ('v, 'b, 'h) ws_session \<times> views \<Rightarrow> (('v, 'b, 'h) ws_session \<times> views) res" where
  "run_write_call fb (Send_call data) sv = Send_view fb data sv"
| "run_write_call fb Write_completes sv = OnWrite_view fb sv"

section \<open>The contract of Send\<close>

text \<open>A write completes only if one is under way: with \<open>n\<close> of them before the calls.\<close>

fun possible :: "nat \<Rightarrow> write_call list \<Rightarrow> bool" where
  "possible n [] = True"
| "possible n (Send_call m # cs) = possible (Suc n) cs"
| "possible n (Write_completes # cs) = (n \<noteq> 0 \<and> possible (n - 1) cs)"

text \<open>Whenever a write completes, it is the only one under way.\<close>

fun one_at_a_time :: "nat \<Rightarrow> write_call list \<Rightarrow> bool" where
  "one_at_a_time n [] = True"
| "one_at_a_time n (Send_call m # cs) = one_at_a_time (Suc n) cs"
| "one_at_a_time n (Write_completes # cs) = (n = 1 \<and> one_at_a_time 0 cs)"

fun sent_messages :: "write_call list \<Rightarrow> string list" where
  "sent_messages [] = []"
| "sent_messages (Send_call m # cs) = m # sent_messages cs"
| "sent_messages (Write_completes # cs) = sent_messages cs"

definition fresh_views :: "nat \<Rightarrow> views" where
  "fresh_views n = (if n = 0 then [] else replicate (n - 1) False @ [True])"

lemma invalidated_fresh: "invalidated (fresh_views n) @ [True] = fresh_views (Suc n)"
  by (auto simp: invalidated_def fresh_views_def map_replicate_const replicate_append_same
      simp flip: replicate_Suc gr0_conv_Suc)

lemma fresh_views_simps [simp]:
  "fresh_views 0 = []" "fresh_views (Suc 0) = [True]" "fresh_views (Suc (Suc n)) = False # replicate n False @ [True]"
  by (simp_all add: fresh_views_def)

lemma possible_one: "one_at_a_time n cs \<Longrightarrow> possible n cs"
  by (induction n cs rule: one_at_a_time.induct) auto

definition run_writes ::
  "'b flat_buffer_ops \<Rightarrow> write_call list \<Rightarrow> ('v, 'b, 'h) ws_session \<Rightarrow> (('v, 'b, 'h) ws_session \<times> views) res" where
  "run_writes fb cs s = fold_res (run_write_call fb) cs (s, [])"

lemma overlapping_undefined:
  "possible n cs \<Longrightarrow> \<not> one_at_a_time n cs \<Longrightarrow>
   fold_res (run_write_call fb) cs (s, fresh_views n) = Inl (Undefined Dangling_pointer)"
proof (induction n cs arbitrary: s rule: one_at_a_time.induct)
  case (2 n m cs)
  then show ?case by (simp add: Send_view_def invalidated_fresh)
next
  case (3 n cs)
  show ?case
  proof (cases "n = 1")
    case True
    with 3 show ?thesis by (simp add: OnWrite_view_def invalidated_def)
  next
    case False
    with 3 obtain k where "n = Suc (Suc k)" by (cases n rule: nat.exhaust; cases "n - 1") auto
    then show ?thesis by (simp add: OnWrite_view_def)
  qed
qed simp

text \<open>\<open>ps\<close> are the messages whose writes are under way.\<close>

context flat_buffer
begin

lemma one_at_a_time_sends:
  "one_at_a_time n cs \<Longrightarrow> length ps = n \<Longrightarrow> fb_data fb (ws_write_buf s) = concat ps \<Longrightarrow>
   length (ws_writing s) = n \<Longrightarrow> (\<And>m. ps = [m] \<Longrightarrow> ws_writing s = [(ws_text s, m)]) \<Longrightarrow>
   \<exists>s' vs. fold_res (run_write_call fb) cs (s, fresh_views n) = Inr (s', vs) \<and>
     ws_sent s' = ws_sent s @ map (\<lambda>m. (ws_text s, m))
       (take (count_list cs Write_completes) (ps @ sent_messages cs))"
proof (induction n cs arbitrary: s ps rule: one_at_a_time.induct)
  case (1 n)
  then show ?case by simp
next
  case (2 n m cs)
  let ?s = "WebSocketSession_Send fb m s"
  have "\<exists>s' vs. fold_res (run_write_call fb) cs (?s, fresh_views (Suc n)) = Inr (s', vs) \<and>
      ws_sent s' = ws_sent ?s @ map (\<lambda>m. (ws_text ?s, m))
        (take (count_list cs Write_completes) ((ps @ [m]) @ sent_messages cs))"
    using 2 by (intro "2.IH") (auto simp: Send_defs data_append)
  then show ?case by (simp add: Send_view_def invalidated_fresh Send_defs)
next
  case (3 n cs)
  then obtain m where ps: "ps = [m]" and w: "ws_writing s = [(ws_text s, m)]"
    by (cases ps) auto
  let ?s = "write_completed fb s"
  have "\<exists>s' vs. fold_res (run_write_call fb) cs (?s, fresh_views 0) = Inr (s', vs) \<and>
      ws_sent s' = ws_sent ?s @ map (\<lambda>m. (ws_text ?s, m))
        (take (count_list cs Write_completes) ([] @ sent_messages cs))"
    using 3 w ps by (intro "3.IH") (auto simp: write_completed_def data_consume)
  with 3(2) w ps show ?case by (simp add: OnWrite_view_def invalidated_def write_completed_def)
qed

end

section \<open>Properties\<close>

text \<open>
  C30. The contract of \<open>Send\<close>, for every sequence of sends and completed writes on a session that
  starts with nothing to send: if every write is alone when it completes, all views read
  are valid and the client is sent exactly the messages whose writes completed, each once,
  in order; if one completes while another is under way, it has read a view that a later
  \<open>prepare\<close> or \<open>consume\<close> made invalid, which is undefined.
\<close>

theorem WebSocket_send_contract:
  assumes "flat_buffer fb" and "fb_data fb (ws_write_buf s) = ''''" and "ws_writing s = []"
    and "possible 0 cs"
  shows "if one_at_a_time 0 cs
    then \<exists>s' vs. run_writes fb cs s = Inr (s', vs) \<and>
      ws_sent s' = ws_sent s @ map (\<lambda>m. (ws_text s, m))
        (take (count_list cs Write_completes) (sent_messages cs))
    else run_writes fb cs s = Inl (Undefined Dangling_pointer)"
  using flat_buffer.one_at_a_time_sends [OF assms(1), of 0 cs "[]" s]
    overlapping_undefined [OF assms(4), of fb s] assms(2,3)
  by (simp add: run_writes_def)

text \<open>Two messages, each written before the next; and two in a row.\<close>

theorem WebSocket_send_contract_witness:
  "(\<exists>s' vs. run_writes readable_bytes [Send_call ''A'', Write_completes, Send_call ''B'', Write_completes]
      sample_ws_session = Inr (s', vs) \<and> ws_sent s' = [(True, ''A''), (True, ''B'')]) \<and>
   run_writes readable_bytes [Send_call ''A'', Send_call ''B'', Write_completes] sample_ws_session =
     Inl (Undefined Dangling_pointer)"
proof -
  have s: "fb_data readable_bytes (ws_write_buf sample_ws_session) = ''''" "ws_writing sample_ws_session = []"
    "ws_sent sample_ws_session = []" "ws_text sample_ws_session"
    by (simp_all add: sample_ws_session_def WebSocketSession_new_def readable_bytes_def)
  note contract = WebSocket_send_contract [OF readable.flat_buffer_axioms s(1,2)]
  from contract [of "[Send_call ''A'', Write_completes, Send_call ''B'', Write_completes]"]
    contract [of "[Send_call ''A'', Send_call ''B'', Write_completes]"] s(3,4)
  show ?thesis by simp
qed

end
