(* ===== verification/Simple_Game.thy ===== *)
theory Simple_Game
  imports Ws_Session "HOL-Library.List_Lexorder" "HOL-Library.Char_ord"
begin

text \<open>
  The server of \<open>apps/simple_game/beast.cpp\<close>: its routes, the registry \<open>ctxs_\<close> of connected
  websocket clients, the state they share, and the timers of delayed broadcasts. The HTTP
  and websocket sessions of all connections run on one thread, so the steps of the server
  are the completions of their operations and of the timers, in any order.
\<close>

section \<open>The listener's state\<close>

text \<open>A timer's handler keeps the session it sends on; timers are in the order they were started.\<close>

record simple_game =
  ctxs :: "string \<rightharpoonup> nat"
  state :: string
  timers :: "(nat \<times> int) list"

definition TestListener_new :: simple_game where
  "TestListener_new = \<lparr>ctxs = Map.empty, state = '''', timers = []\<rparr>"

datatype game_ws_handler = Root_handler

type_synonym ('v, 'b) game_world = "('v, 'b, game_ws_handler, simple_game) ws_world"

type_synonym ('v, 'b) game_callback = "('v, ('v, 'b) game_world) callback"

text \<open>
  The sessions the application owns: those of the timers.
\<close>

definition timer_sessions :: "simple_game \<Rightarrow> nat list" where
  "timer_sessions g = map fst (timers g)"

section \<open>The HTTP callbacks\<close>

text \<open>
  The order in which a loop over an unordered map meets the keys is not specified; it is
  the parameter \<open>order\<close>, which lists each key once.
\<close>

definition lists_keys :: "(string set \<Rightarrow> string list) \<Rightarrow> bool" where
  "lists_keys order \<longleftrightarrow> (\<forall>K. finite K \<longrightarrow> distinct (order K) \<and> set (order K) = K)"

definition ForEachParam ::
  "(string set \<Rightarrow> string list) \<Rightarrow> params option \<Rightarrow> (string \<Rightarrow> string \<Rightarrow> 's \<Rightarrow> 's) \<Rightarrow> 's \<Rightarrow> 's" where
  "ForEachParam order ps f acc =
     (case ps of
        None \<Rightarrow> acc
      | Some m \<Rightarrow> fold (\<lambda>key acc. case m key of None \<Rightarrow> acc | Some v \<Rightarrow> f key v acc) (order (dom m)) acc)"

definition newline :: string where "newline = [CHR 0x0A]"
definition quote_mark :: string where "quote_mark = [CHR 0x22]"

definition get_test :: "(string set \<Rightarrow> string list) \<Rightarrow> ('v, 'b) game_callback" where
  "get_test order req ps res w =
     (let body = ''UwU Kawaiiiiiiii!'' @ newline @ ''Params: {'';
          body = ForEachParam order ps (\<lambda>key v acc. acc @ newline @ ''  '' @ quote_mark @ key @
            quote_mark @ '' : '' @ quote_mark @ v @ quote_mark @ '','') body;
          body = body @ newline @ ''}''
      in Inr (res\<lparr>rs_fields := (rs_fields res)(''Content-Type'' \<mapsto> ''text/plain; charset=utf-8''),
                 rs_body := body\<rparr>, w))"

text \<open>Every exception of \<open>std::stoi\<close> is caught and leaves the delay 0.\<close>

definition parse_delay :: "string \<Rightarrow> int" where
  "parse_delay v = (case std_stoi v of Inl e \<Rightarrow> 0 | Inr d \<Rightarrow> d)"

text \<open>The body of the broadcast loop for one entry of the registry.\<close>

definition broadcast_ctx ::
  "'b flat_buffer_ops \<Rightarrow> params option \<Rightarrow> string \<Rightarrow> ('v, 'b) game_world \<Rightarrow> ('v, 'b) game_world res" where
  "broadcast_ctx fb ps uuid w =
     (case ctxs (app w) uuid of
        None \<Rightarrow> Inr w
      | Some sid \<Rightarrow> bind_res (get_session sid w) (\<lambda>s.
          case lock (ctx_ws_session (ctx s)) w of
            None \<Rightarrow> Inr w
          | Some target \<Rightarrow>
              (case (case ps of None \<Rightarrow> None | Some m \<Rightarrow> m ''delay'') of
                 Some v \<Rightarrow> Inr (w\<lparr>app := (app w)\<lparr>timers := timers (app w) @ [(target, parse_delay v)]\<rparr>\<rparr>)
               | None \<Rightarrow> on_session target (WebSocketSession_Send fb (state (app w))) w)))"

definition post_set_state ::
  "'b flat_buffer_ops \<Rightarrow> (string set \<Rightarrow> string list) \<Rightarrow> ('v, 'b) game_callback" where
  "post_set_state fb order req ps res w =
     (let w1 = w\<lparr>app := (app w)\<lparr>state := rq_body req\<rparr>\<rparr>;
          res1 = res\<lparr>rs_fields := (rs_fields res)(''Content-Type'' \<mapsto> ''text/json; charset=utf-8''),
                   rs_body := ''Setting state to: '' @ newline @ state (app w1)\<rparr>
      in bind_res (fold_res (broadcast_ctx fb ps) (order (dom (ctxs (app w1)))) w1)
           (\<lambda>w2. Inr (res1, w2)))"

section \<open>The websocket handler\<close>

definition game_on_connect :: "nat \<Rightarrow> ('v, 'b) game_world \<Rightarrow> ('v, 'b) game_world res" where
  "game_on_connect sid w = bind_res (get_session sid w) (\<lambda>s.
     Inr (w\<lparr>app := (app w)\<lparr>ctxs := umap_assign (ctx_uuid (ctx s)) sid (ctxs (app w))\<rparr>\<rparr>))"

definition erase_ctx :: "string \<Rightarrow> ('v, 'b) game_world \<Rightarrow> ('v, 'b) game_world" where
  "erase_ctx uuid w =
     (if umap_count uuid (ctxs (app w)) \<noteq> 0
      then w\<lparr>app := (app w)\<lparr>ctxs := umap_erase uuid (ctxs (app w))\<rparr>\<rparr> else w)"

definition game_on_disconnect :: "nat \<Rightarrow> ('v, 'b) game_world \<Rightarrow> ('v, 'b) game_world res" where
  "game_on_disconnect sid w = bind_res (get_session sid w) (\<lambda>s. Inr (erase_ctx (ctx_uuid (ctx s)) w))"

definition game_on_receive ::
  "'b flat_buffer_ops \<Rightarrow> nat \<Rightarrow> string \<Rightarrow> nat \<Rightarrow> bool \<Rightarrow> ('v, 'b) game_world \<Rightarrow> ('v, 'b) game_world res" where
  "game_on_receive fb sid buf n is_binary w = bind_res (get_session sid w) (\<lambda>s.
     case lock (ctx_ws_session (ctx s)) w of
       Some target \<Rightarrow> on_session target (WebSocketSession_Send fb (buf @ '' UwU Kawaiiiiiiii!'')) w
     | None \<Rightarrow> Inr (erase_ctx (ctx_uuid (ctx s)) w))"

definition game_handlers ::
  "'b flat_buffer_ops \<Rightarrow> game_ws_handler \<Rightarrow> ('v, 'b) game_world ws_handler" where
  "game_handlers fb h = WSHandler_default\<lparr>on_connect := game_on_connect,
     on_disconnect := game_on_disconnect, on_receive := game_on_receive fb\<rparr>"

text \<open>The route manager of the listener: what its chain of builder calls builds.\<close>

definition TestListener_routes ::
  "'v verbs \<Rightarrow> 'b flat_buffer_ops \<Rightarrow> (string set \<Rightarrow> string list) \<Rightarrow>
     (('v, 'b) game_callback, game_ws_handler) route_manager option res" where
  "TestListener_routes verbs fb order =
     bind_res (run_builder
       [Add_call (ConvertVerbBeast_to_method verbs (verb_get verbs)) ''/test'' (get_test order),
        Add_call (ConvertVerbBeast_to_method verbs (verb_post verbs)) ''/test/set_state''
          (post_set_state fb order),
        AddWebsocket_call ''/'' Root_handler] RouteManagerBuilder_new)
       (\<lambda>b. Inr (fst (Build b)))"

section \<open>Timers\<close>

text \<open>
  The handler of the \<open>i\<close>-th timer: it sends the state of now. Its pointer to the session goes
  with the handler.
\<close>

definition timer_expired ::
  "'b flat_buffer_ops \<Rightarrow> nat \<Rightarrow> ('v, 'b) game_world \<Rightarrow> ('v, 'b) game_world res" where
  "timer_expired fb i w =
     (let sid = fst (timers (app w) ! i);
          rest = take i (timers (app w)) @ drop (Suc i) (timers (app w))
      in bind_res (on_session sid (WebSocketSession_Send fb (state (app w))) w)
           (\<lambda>w1. Inr (release timer_sessions sid (w1\<lparr>app := (app w1)\<lparr>timers := rest\<rparr>\<rparr>))))"

section \<open>The program\<close>

text \<open>
  \<open>main\<close> up to the listener: the port, 8880 unless there is an argument, cut to 16 bits; an
  argument that \<open>std::stoi\<close> refuses ends the program with the code 1.
\<close>

definition simple_game_port :: "string list \<Rightarrow> nat + 16 word" where
  "simple_game_port argv =
     (if 1 < length argv
      then (case std_stoi (argv ! 1) of Inl e \<Rightarrow> Inl 1 | Inr port \<Rightarrow> Inr (word_of_int port))
      else Inr (word_of_int 8880))"

section \<open>The server\<close>

text \<open>
  An HTTP session with the address of its client. \<open>Connect\<close> is the listener's \<open>OnAccept\<close>:
  it makes a session and runs it. When a session hands its connection over, the websocket
  session starts in its place.
\<close>

record ('v, 'b) game_server =
  http_sessions :: "nat \<rightharpoonup> endpoint \<times> ('v, game_ws_handler) http_session"
  world :: "('v, 'b) game_world"

definition game_world_new :: "('v, 'b) game_world" where
  "game_world_new = \<lparr>ws_sessions = Map.empty, ws_ended = Map.empty, ws_next = 0, app = TestListener_new\<rparr>"

definition game_server_new :: "('v, 'b) game_server" where
  "game_server_new = \<lparr>http_sessions = Map.empty, world = game_world_new\<rparr>"

definition TestListener_OnAccept ::
  "nat \<Rightarrow> endpoint \<Rightarrow> endpoint \<Rightarrow> ('v, 'b) game_server \<Rightarrow> ('v, 'b) game_server" where
  "TestListener_OnAccept k peer local_end srv =
     srv\<lparr>http_sessions := (http_sessions srv)(k \<mapsto>
       (peer, HttpSession_Run (HttpSession_new (fst local_end) (snd local_end))))\<rparr>"

definition hand_over ::
  "'b flat_buffer_ops \<Rightarrow> nat \<Rightarrow> endpoint \<Rightarrow> ('v, game_ws_handler) http_session \<Rightarrow>
     ('v, 'b) game_world \<Rightarrow> ('v, 'b) game_server \<Rightarrow> ('v, 'b) game_server" where
  "hand_over fb k peer s w srv =
     (case ws_started s of
        None \<Rightarrow> srv\<lparr>http_sessions := (http_sessions srv)(k \<mapsto> (peer, s)), world := w\<rparr>
      | Some (req, ps, h) \<Rightarrow> srv\<lparr>http_sessions := (http_sessions srv)(k := None),
          world := start_session fb req ps h peer (local_address s, local_port s) w\<rparr>)"

datatype 'v server_event =
    Connect nat endpoint endpoint
  | Http nat "'v http_event"
  | Ws ws_event
  | Timer nat

text \<open>
  A handshake succeeds only for a request with a \<open>Sec-WebSocket-Key\<close>, which the websocket
  library checks.
\<close>

definition handshake_checked :: "ws_event \<Rightarrow> ('v, 'b, 'h, 'a) ws_world \<Rightarrow> bool" where
  "handshake_checked e w = (case e of
     Ws_accepted sid None \<Rightarrow> (case ws_sessions w sid of None \<Rightarrow> True
       | Some s \<Rightarrow> rq_fields (ws_req s) ''Sec-WebSocket-Key'' \<noteq> None)
   | _ \<Rightarrow> True)"

inductive server_step ::
  "('v, 'u) http_lib \<Rightarrow> 'b flat_buffer_ops \<Rightarrow> (string set \<Rightarrow> string list) \<Rightarrow>
     ('v, 'b) game_server \<Rightarrow> 'v server_event \<Rightarrow> ('v, 'b) game_server \<Rightarrow> bool"
  for lib fb order where
  connect: "http_sessions srv k = None \<Longrightarrow>
     server_step lib fb order srv (Connect k peer local_end) (TestListener_OnAccept k peer local_end srv)"
| http: "http_sessions srv k = Some (peer, s) \<Longrightarrow>
     TestListener_routes (lib_verbs lib) fb order = Inr rm \<Longrightarrow>
     http_step lib rm (s, world srv) e (s', w') \<Longrightarrow>
     server_step lib fb order srv (Http k e) (hand_over fb k peer s' w' srv)"
| ws: "ws_enabled e (world srv) \<Longrightarrow> handshake_checked e (world srv) \<Longrightarrow>
     ws_complete fb (game_handlers fb) timer_sessions e (world srv) = Inr w' \<Longrightarrow>
     server_step lib fb order srv (Ws e) (srv\<lparr>world := w'\<rparr>)"
| timer: "i < length (timers (app (world srv))) \<Longrightarrow> timer_expired fb i (world srv) = Inr w' \<Longrightarrow>
     server_step lib fb order srv (Timer i) (srv\<lparr>world := w'\<rparr>)"

section \<open>What the handlers do\<close>

lemma on_session_Some:
  "ws_sessions w sid = Some s \<Longrightarrow> on_session sid f w = Inr (put_session sid (f s) w)"
  by (simp add: on_session_def)

lemma put_session_sel [simp]:
  "ws_sessions (put_session sid s w) = (ws_sessions w)(sid \<mapsto> s)"
  "app (put_session sid s w) = app w" "ws_next (put_session sid s w) = ws_next w"
  "ws_ended (put_session sid s w) = ws_ended w"
  by (simp_all add: put_session_def)

lemma erase_ctx_sel [simp]:
  "ws_sessions (erase_ctx u w) = ws_sessions w" "ws_next (erase_ctx u w) = ws_next w"
  "ws_ended (erase_ctx u w) = ws_ended w" "timers (app (erase_ctx u w)) = timers (app w)"
  "ctxs (app (erase_ctx u w)) = (ctxs (app w))(u := None)"
  by (auto simp: erase_ctx_def umap_count_def umap_erase_def split: option.splits)

lemma erase_ctx_sends_only [simp]: "sends_only w (erase_ctx u w')  = sends_only w w'"
  by (simp add: sends_only_def)

lemma game_handlers_sel [simp]:
  "on_connect (game_handlers fb h) = game_on_connect"
  "on_disconnect (game_handlers fb h) = game_on_disconnect"
  "on_receive (game_handlers fb h) = game_on_receive fb"
  "on_error (game_handlers fb h) = (\<lambda>e at w. Inr w)"
  by (simp_all add: game_handlers_def WSHandler_default_def)

lemma game_application: "flat_buffer fb \<Longrightarrow> ws_application fb (game_handlers fb)"
  unfolding ws_application_def ws_application_axioms_def
  by (auto simp: game_on_connect_def game_on_disconnect_def game_on_receive_def res_eq
      intro: sends_only_Send split: option.splits)

interpretation game: ws_application readable_bytes "game_handlers readable_bytes" timer_sessions
  by (rule game_application) unfold_locales

text \<open>What each completion does to the world, for the handlers of the server.\<close>

lemma game_accepted:
  assumes "ws_sessions w sid = Some s" and "rq_fields (ws_req s) ''Sec-WebSocket-Key'' = Some key"
  shows "ws_complete fb (game_handlers fb) timer_sessions (Ws_accepted sid None) w =
    Inr (put_session sid (s\<lparr>ws_accepting := False, ws_open := True,
        ctx := (ctx s)\<lparr>ctx_ws_session := Some sid, ctx_uuid := key\<rparr>, ws_reading := Suc (ws_reading s)\<rparr>)
      (w\<lparr>app := (app w)\<lparr>ctxs := (ctxs (app w))(key \<mapsto> sid)\<rparr>\<rparr>))"
  using assms
  by (simp add: ws_complete_def WebSocketSession_OnAccept_def game_on_connect_def on_session_def
      WebSocketSession_Read_def umap_assign_def release_def busy_def put_session_def)

lemma game_accept_failed:
  assumes "ws_sessions w sid = Some s"
  shows "ws_complete fb (game_handlers fb) timer_sessions (Ws_accepted sid (Some e)) w =
    Inr (release timer_sessions sid (put_session sid (s\<lparr>ws_accepting := False, ws_open := False\<rparr>) w))"
  using assms by (simp add: ws_complete_def WebSocketSession_OnAccept_def)

lemma game_closed:
  assumes "ws_sessions w sid = Some s"
  shows "ws_complete fb (game_handlers fb) timer_sessions (Ws_read sid Closed) w =
    Inr (release timer_sessions sid (erase_ctx (ctx_uuid (ctx s))
      (put_session sid (s\<lparr>ws_reading := ws_reading s - 1, ws_open := False\<rparr>) w)))"
  using assms by (simp add: ws_complete_def WebSocketSession_OnRead_def game_on_disconnect_def)

lemma game_read_failed:
  assumes "ws_sessions w sid = Some s"
  shows "ws_complete fb (game_handlers fb) timer_sessions (Ws_read sid (Ws_read_failed e)) w =
    Inr (release timer_sessions sid (put_session sid (s\<lparr>ws_reading := ws_reading s - 1\<rparr>) w))"
  using assms by (simp add: ws_complete_def WebSocketSession_OnRead_def)

text \<open>A session after it has received and echoed a message.\<close>

definition echoed ::
  "'b flat_buffer_ops \<Rightarrow> string \<Rightarrow> bool \<Rightarrow> ('v, 'b, 'h) ws_session \<Rightarrow> ('v, 'b, 'h) ws_session" where
  "echoed fb msg got_text s =
     (WebSocketSession_Send fb (msg @ '' UwU Kawaiiiiiiii!'') (s\<lparr>ws_text := got_text\<rparr>))
       \<lparr>ws_buffer := fb_consume fb (length msg) (fb_append fb msg (ws_buffer s)),
        ws_reading := Suc (ws_reading s - 1)\<rparr>"

lemma game_message:
  assumes "flat_buffer fb" and "sessions_inv fb {} w"
    and "ws_sessions w sid = Some s" and "ws_reading s \<noteq> 0"
  shows "ws_complete fb (game_handlers fb) timer_sessions (Ws_read sid (Got_message msg t)) w =
    Inr (put_session sid (echoed fb msg t s) w)"
proof -
  have "session_inv fb sid s" using assms(2,3) by (auto simp: sessions_inv_def)
  then have "ctx_ws_session (ctx s) = Some sid" using assms(4) by (auto simp: session_inv_def)
  then show ?thesis
    by (simp add: ws_application.complete_message [OF game_application [OF assms(1)] assms(3,4,2)]
        game_on_receive_def lock_def on_session_Some WebSocketSession_Read_def echoed_def
        Send_defs release_def busy_def)
qed

lemma game_wrote:
  assumes "ws_sessions w sid = Some s"
  shows "\<exists>s'. ws_complete fb (game_handlers fb) timer_sessions (Ws_wrote sid ec) w =
      Inr (release timer_sessions sid (put_session sid s' w)) \<and>
    ctx s' = ctx s \<and> ws_reading s' = ws_reading s"
  using assms
  by (cases ec) (auto simp: ws_complete_def WebSocketSession_OnWrite_def on_session_def Let_def)

section \<open>The invariant of the server\<close>

text \<open>
  Every entry of the registry is a live session that waits for a message and whose client
  has that identity; every timer's session is alive.
\<close>

definition registry_inv :: "('v, 'b) game_world \<Rightarrow> bool" where
  "registry_inv w \<longleftrightarrow> finite (dom (ctxs (app w))) \<and>
     (\<forall>u sid. ctxs (app w) u = Some sid \<longrightarrow>
       (\<exists>s. ws_sessions w sid = Some s \<and> ws_reading s \<noteq> 0 \<and> ctx_uuid (ctx s) = u)) \<and>
     (\<forall>sid \<in> set (timer_sessions (app w)). ws_sessions w sid \<noteq> None)"

lemma registry_inv_release: "registry_inv w \<Longrightarrow> registry_inv (release timer_sessions sid w)"
  unfolding registry_inv_def release_def
  by (auto simp: busy_def split: option.splits) fastforce

lemma registry_inv_put:
  assumes "registry_inv w" and "ws_sessions w sid = Some s" and "ctx s' = ctx s"
    and "\<not> (ws_reading s \<noteq> 0 \<and> ws_reading s' = 0)"
  shows "registry_inv (put_session sid s' w)"
  using assms unfolding registry_inv_def by (auto split: if_splits) fastforce+

definition read_fails :: "ws_event \<Rightarrow> bool" where
  "read_fails e = (case e of Ws_read sid (Ws_read_failed c) \<Rightarrow> True | _ \<Rightarrow> False)"

lemma registered:
  assumes "registry_inv w" and "ctxs (app w) u = Some sid"
  obtains s where "ws_sessions w sid = Some s" and "ws_reading s \<noteq> 0" and "ctx_uuid (ctx s) = u"
  using assms unfolding registry_inv_def by blast

lemma registry_inv_accepted:
  assumes "registry_inv w" and "ws_sessions w sid = Some s" and "ws_reading s = 0"
    and "ctx_uuid (ctx s') = key" and "ws_reading s' \<noteq> 0"
  shows "registry_inv (put_session sid s' (w\<lparr>app := (app w)\<lparr>ctxs := (ctxs (app w))(key \<mapsto> sid)\<rparr>\<rparr>))"
proof -
  have "j \<noteq> sid" if "ctxs (app w) u = Some j" for u j
    using registered [OF assms(1) that] assms(2,3) by (metis option.inject)
  with assms show ?thesis unfolding registry_inv_def timer_sessions_def by (auto split: if_splits)
qed

lemma registry_inv_erased:
  assumes "registry_inv w" and "ws_sessions w sid = Some s"
  shows "registry_inv (erase_ctx (ctx_uuid (ctx s)) (put_session sid s' w))"
proof -
  have "j \<noteq> sid" if "ctxs (app w) u = Some j" "u \<noteq> ctx_uuid (ctx s)" for u j
    using registered [OF assms(1) that(1)] assms(2) that(2) by (metis option.inject)
  with assms show ?thesis unfolding registry_inv_def timer_sessions_def by (auto split: if_splits)
qed

text \<open>As long as no read fails other than by a close, no handler fails and the invariant is kept.\<close>

lemma game_complete:
  assumes fb: "flat_buffer fb" and inv: "sessions_inv fb {} w" and reg: "registry_inv w"
    and en: "ws_enabled e w" and hs: "handshake_checked e w" and nf: "\<not> read_fails e"
  shows "\<exists>w'. ws_complete fb (game_handlers fb) timer_sessions e w = Inr w' \<and> registry_inv w'"
proof -
  from en obtain s where s: "ws_sessions w (event_session e) = Some s" and st: "started e s"
    by (auto simp: ws_enabled_def split: option.splits)
  have si: "session_inv fb (event_session e) s" using s inv by (auto simp: sessions_inv_def)
  show ?thesis
  proof (cases e)
    case (Ws_accepted sid ec)
    then have sid: "ws_sessions w sid = Some s" and r: "ws_reading s = 0"
      using s st si by (auto simp: started_def session_inv_def)
    show ?thesis
    proof (cases ec)
      case None
      then obtain key where "rq_fields (ws_req s) ''Sec-WebSocket-Key'' = Some key"
        using hs sid Ws_accepted by (auto simp: handshake_checked_def)
      from game_accepted [OF sid this] Ws_accepted None show ?thesis
        by (auto intro!: registry_inv_accepted [OF reg sid r])
    next
      case (Some c)
      then show ?thesis using game_accept_failed [OF sid] Ws_accepted r
        by (auto intro!: registry_inv_release registry_inv_put [OF reg sid])
    qed
  next
    case (Ws_read sid result)
    then have sid: "ws_sessions w sid = Some s" and r: "ws_reading s \<noteq> 0"
      using s st by (auto simp: started_def)
    show ?thesis
    proof (cases result)
      case (Got_message m t)
      with game_message [OF fb inv sid r] Ws_read show ?thesis
        by (auto intro!: registry_inv_put [OF reg sid] simp: echoed_def Send_defs)
    next
      case Closed
      with game_closed [OF sid] Ws_read show ?thesis
        by (auto intro!: registry_inv_release registry_inv_erased [OF reg sid])
    next
      case (Ws_read_failed c)
      with nf Ws_read show ?thesis by (simp add: read_fails_def)
    qed
  next
    case (Ws_wrote sid ec)
    then have sid: "ws_sessions w sid = Some s" using s by simp
    from game_wrote [OF sid, of fb ec] Ws_wrote show ?thesis
      by (auto intro!: registry_inv_release registry_inv_put [OF reg sid])
  qed
qed

lemma registry_inv_timers:
  assumes "registry_inv w" and "\<And>t. t \<in> set ts \<Longrightarrow> ws_sessions w (fst t) \<noteq> None"
  shows "registry_inv (w\<lparr>app := (app w)\<lparr>timers := ts\<rparr>\<rparr>)"
  using assms unfolding registry_inv_def timer_sessions_def by simp

lemma registry_inv_timer: "registry_inv w \<Longrightarrow> t \<in> set (timers (app w)) \<Longrightarrow> ws_sessions w (fst t) \<noteq> None"
  unfolding registry_inv_def timer_sessions_def by simp

lemma timer_total:
  assumes "registry_inv w" and "i < length (timers (app w))"
  shows "\<exists>w'. timer_expired fb i w = Inr w' \<and> registry_inv w'"
proof -
  let ?sid = "fst (timers (app w) ! i)"
  let ?rest = "take i (timers (app w)) @ drop (Suc i) (timers (app w))"
  have "?sid \<in> set (timer_sessions (app w))" using assms(2) by (simp add: timer_sessions_def)
  then obtain s where s: "ws_sessions w ?sid = Some s"
    using assms(1) unfolding registry_inv_def by blast
  let ?w = "put_session ?sid (WebSocketSession_Send fb (state (app w)) s) w"
  have w: "registry_inv ?w"
    by (intro registry_inv_put [OF assms(1) s]) (auto simp: Send_defs)
  have "t \<in> set (timers (app ?w))" if "t \<in> set ?rest" for t
    using that by (auto dest: in_set_takeD in_set_dropD)
  then have "registry_inv (?w\<lparr>app := (app ?w)\<lparr>timers := ?rest\<rparr>\<rparr>)"
    by (intro registry_inv_timers [OF w] registry_inv_timer [OF w])
  with s show ?thesis
    by (auto simp: timer_expired_def Let_def on_session_Some intro: registry_inv_release)
qed

section \<open>The broadcast\<close>

text \<open>The world in which the sessions of the clients \<open>ks\<close> have been sent \<open>d\<close>.\<close>

definition sent_to ::
  "'b flat_buffer_ops \<Rightarrow> string \<Rightarrow> string set \<Rightarrow> ('v, 'b) game_world \<Rightarrow> ('v, 'b) game_world" where
  "sent_to fb d ks w = w\<lparr>ws_sessions := (\<lambda>sid.
     if \<exists>u \<in> ks. ctxs (app w) u = Some sid
     then map_option (WebSocketSession_Send fb d) (ws_sessions w sid) else ws_sessions w sid)\<rparr>"

lemma broadcast_ctx_eq:
  assumes "sessions_inv fb {} w" and "registry_inv w" and "ctxs (app w) u = Some sid"
  shows "\<exists>s. ws_sessions w sid = Some s \<and> ctx_uuid (ctx s) = u \<and> broadcast_ctx fb ps u w =
    (case (case ps of None \<Rightarrow> None | Some m \<Rightarrow> m ''delay'') of
       Some v \<Rightarrow> Inr (w\<lparr>app := (app w)\<lparr>timers := timers (app w) @ [(sid, parse_delay v)]\<rparr>\<rparr>)
     | None \<Rightarrow> Inr (put_session sid (WebSocketSession_Send fb (state (app w)) s) w))"
proof -
  from registered [OF assms(2,3)] obtain s
    where s: "ws_sessions w sid = Some s" "ws_reading s \<noteq> 0" "ctx_uuid (ctx s) = u" .
  then have "session_inv fb sid s" using assms(1) by (auto simp: sessions_inv_def)
  with s(2) have "ctx_ws_session (ctx s) = Some sid" by (auto simp: session_inv_def)
  with s assms(3) show ?thesis
    by (auto simp: broadcast_ctx_def lock_def on_session_Some split: option.split)
qed

lemma broadcast_now:
  assumes "sessions_inv fb {} w" and "registry_inv w" and "distinct ks"
    and "set ks \<subseteq> dom (ctxs (app w))" and "(case ps of None \<Rightarrow> None | Some m \<Rightarrow> m ''delay'') = None"
  shows "fold_res (broadcast_ctx fb ps) ks w = Inr (sent_to fb (state (app w)) (set ks) w)"
  using assms
proof (induction ks arbitrary: w)
  case Nil
  then show ?case by (simp add: sent_to_def)
next
  case (Cons k ks)
  from Cons.prems(4) obtain sid where k: "ctxs (app w) k = Some sid" by auto
  from broadcast_ctx_eq [OF Cons.prems(1,2) k, where ps = ps] obtain s
    where s: "ws_sessions w sid = Some s" and "ctx_uuid (ctx s) = k"
      and step: "broadcast_ctx fb ps k w = Inr (put_session sid (WebSocketSession_Send fb (state (app w)) s) w)"
    by (auto simp: Cons.prems(5))
  let ?w = "put_session sid (WebSocketSession_Send fb (state (app w)) s) w"
  have "sessions_inv fb {} ?w"
    by (rule sessions_inv_sends_only [OF sends_only_Send Cons.prems(1)]) (rule on_session_Some [OF s])
  moreover have "registry_inv ?w"
    by (intro registry_inv_put [OF Cons.prems(2) s]) (auto simp: Send_defs)
  ultimately have rest: "fold_res (broadcast_ctx fb ps) ks ?w = Inr (sent_to fb (state (app w)) (set ks) ?w)"
    using Cons by simp
  have one: "u = k" if "ctxs (app w) u = Some sid" for u
    using registered [OF Cons.prems(2) that] s \<open>ctx_uuid (ctx s) = k\<close> by (metis option.inject)
  have "sent_to fb d (set ks) ?w = sent_to fb d (set (k # ks)) w" if "d = state (app w)" for d
  proof -
    have "\<not> (\<exists>u \<in> set ks. ctxs (app w) u = Some sid)" using one Cons.prems(3) by auto
    then show ?thesis using k s that
      by (auto simp: sent_to_def put_session_def fun_eq_iff)
  qed
  with rest step show ?case by simp
qed

lemma broadcast_later:
  assumes "sessions_inv fb {} w" and "registry_inv w"
    and "set ks \<subseteq> dom (ctxs (app w))" and "(case ps of None \<Rightarrow> None | Some m \<Rightarrow> m ''delay'') = Some v"
  shows "fold_res (broadcast_ctx fb ps) ks w = Inr (w\<lparr>app := (app w)\<lparr>timers :=
    timers (app w) @ map (\<lambda>u. (the (ctxs (app w) u), parse_delay v)) ks\<rparr>\<rparr>)"
  using assms
proof (induction ks arbitrary: w)
  case Nil
  then show ?case by simp
next
  case (Cons k ks)
  from Cons.prems(3) obtain sid where k: "ctxs (app w) k = Some sid" by auto
  let ?ts = "timers (app w) @ [(sid, parse_delay v)]"
  let ?w = "w\<lparr>app := (app w)\<lparr>timers := ?ts\<rparr>\<rparr>"
  from broadcast_ctx_eq [OF Cons.prems(1,2) k, where ps = ps] obtain s
    where s: "ws_sessions w sid = Some s" and step: "broadcast_ctx fb ps k w = Inr ?w"
    by (auto simp: Cons.prems(4))
  have "sessions_inv fb {} ?w" using Cons.prems(1) by (simp add: sessions_inv_def)
  moreover have "ws_sessions w (fst t) \<noteq> None" if "t \<in> set ?ts" for t
    using that s registry_inv_timer [OF Cons.prems(2), of t] by auto
  then have "registry_inv ?w" by (intro registry_inv_timers [OF Cons.prems(2)])
  ultimately have "fold_res (broadcast_ctx fb ps) ks ?w = Inr (?w\<lparr>app := (app ?w)\<lparr>timers :=
      timers (app ?w) @ map (\<lambda>u. (the (ctxs (app ?w) u), parse_delay v)) ks\<rparr>\<rparr>)"
    using Cons.prems by (intro Cons.IH) auto
  with step k show ?case by simp
qed

section \<open>The server keeps its invariant\<close>

lemma post_set_state_eq:
  assumes "lists_keys order" and "sessions_inv fb {} w" and "registry_inv w"
  shows "post_set_state fb order req ps res w =
    (let w1 = w\<lparr>app := (app w)\<lparr>state := rq_body req\<rparr>\<rparr>;
         w2 = (case (case ps of None \<Rightarrow> None | Some m \<Rightarrow> m ''delay'') of
             None \<Rightarrow> sent_to fb (rq_body req) (dom (ctxs (app w))) w1
           | Some v \<Rightarrow> w1\<lparr>app := (app w1)\<lparr>timers := timers (app w) @
               map (\<lambda>u. (the (ctxs (app w) u), parse_delay v)) (order (dom (ctxs (app w))))\<rparr>\<rparr>)
     in Inr (res\<lparr>rs_fields := (rs_fields res)(''Content-Type'' \<mapsto> ''text/json; charset=utf-8''),
               rs_body := ''Setting state to: '' @ newline @ rq_body req\<rparr>, w2))"
proof -
  let ?w = "w\<lparr>app := (app w)\<lparr>state := rq_body req\<rparr>\<rparr>" and ?ks = "order (dom (ctxs (app w)))"
  have ks: "distinct ?ks" "set ?ks = dom (ctxs (app w))"
    using assms(1,3) by (auto simp: lists_keys_def registry_inv_def)
  have inv: "sessions_inv fb {} ?w" "registry_inv ?w"
    using assms(2,3) by (simp_all add: sessions_inv_def registry_inv_def timer_sessions_def)
  show ?thesis
  proof (cases "case ps of None \<Rightarrow> None | Some m \<Rightarrow> m ''delay''")
    case None
    with broadcast_now [OF inv, of ?ks ps] ks show ?thesis
      by (simp add: post_set_state_def Let_def)
  next
    case (Some v)
    with broadcast_later [OF inv, of ?ks ps v] ks show ?thesis
      by (simp add: post_set_state_def Let_def)
  qed
qed

lemma sent_to_inv:
  assumes "sessions_inv fb {} w" and "registry_inv w"
  shows "sessions_inv fb {} (sent_to fb d ks w)" and "registry_inv (sent_to fb d ks w)"
proof -
  have "sends_only w (sent_to fb d ks w)"
    by (simp add: sends_only_def sent_to_def option.map_comp comp_def)
  then show "sessions_inv fb {} (sent_to fb d ks w)"
    using assms(1) by (rule sessions_inv_sends_only)
  show "registry_inv (sent_to fb d ks w)"
    using assms(2) unfolding registry_inv_def sent_to_def timer_sessions_def
    by (fastforce simp: Send_defs)
qed

lemma post_set_state_inv:
  assumes "lists_keys order" and inv: "sessions_inv fb {} w" "registry_inv w"
    and "post_set_state fb order req ps res w = Inr (res', w')"
  shows "sessions_inv fb {} w' \<and> registry_inv w'"
proof -
  let ?w = "w\<lparr>app := (app w)\<lparr>state := rq_body req\<rparr>\<rparr>" and ?ks = "order (dom (ctxs (app w)))"
  have ks: "set ?ks = dom (ctxs (app w))"
    using assms(1) inv(2) by (auto simp: lists_keys_def registry_inv_def)
  have w: "sessions_inv fb {} ?w" "registry_inv ?w"
    using inv by (simp_all add: sessions_inv_def registry_inv_def timer_sessions_def)
  show ?thesis
  proof (cases "case ps of None \<Rightarrow> None | Some m \<Rightarrow> m ''delay''")
    case None
    then show ?thesis
      using assms(4) sent_to_inv [OF w] by (simp add: post_set_state_eq [OF assms(1) inv] Let_def) blast
  next
    case (Some v)
    let ?ts = "timers (app w) @ map (\<lambda>u. (the (ctxs (app w) u), parse_delay v)) ?ks"
    have "ws_sessions ?w (fst t) \<noteq> None" if "t \<in> set ?ts" for t
      using that ks registry_inv_timer [OF inv(2), of t] registered [OF inv(2)] by fastforce
    then have "registry_inv (?w\<lparr>app := (app ?w)\<lparr>timers := ?ts\<rparr>\<rparr>)"
      by (intro registry_inv_timers [OF w(2)])
    with Some w(1) assms(4) show ?thesis
      by (auto simp: post_set_state_eq [OF assms(1) inv] Let_def sessions_inv_def)
  qed
qed

lemma TestListener_routes_eq:
  "TestListener_routes verbs fb order = Inr (Some (AddWSCallbackInternal ''/'' Root_handler
     (AddCallbackInternal (ConvertVerbBeast_to_method verbs (verb_post verbs)) ''/test/set_state''
        (post_set_state fb order)
     (AddCallbackInternal (ConvertVerbBeast_to_method verbs (verb_get verbs)) ''/test'' (get_test order)
        RouteManagerBase_default))))"
  by (simp add: TestListener_routes_def run_builder_def RouteManagerBuilder_new_def Add_def
      AddWebsocket_def Build_def)

lemma default_routes [simp]:
  "GetCallback m p RouteManagerBase_default = None" "GetWSHandler m p RouteManagerBase_default = None"
  by (simp_all add: GetCallback_def GetWSHandler_def RouteManagerBase_default_def)

lemma routes_callback:
  assumes "TestListener_routes verbs fb order = Inr (Some rm)" and "GetCallback m p rm = Some cb"
  shows "cb = get_test order \<or> cb = post_set_state fb order"
  using assms by (auto simp: TestListener_routes_eq GetCallback_AddCallbackInternal split: if_splits)

text \<open>What an HTTP session makes of the world is what a callback of its routes makes of it.\<close>

lemma http_step_world:
  assumes "http_step lib rm (s, w) e (s', w')" and "I w"
    and "\<And>req ps r r' m p cb u u' m'. rm = Some m' \<Longrightarrow> GetCallback m p m' = Some cb \<Longrightarrow>
      cb req ps r u = Inr (r', u') \<Longrightarrow> I u \<Longrightarrow> I u'"
  shows "I w'"
  using assms(1)
proof (cases rule: http_step.cases)
  case (read_done r rs result)
  then show ?thesis
    using assms(2,3)
    by (auto simp: HttpSession_OnRead_def HttpSession_Close_def OnRequest_eq res_eq
        split: read_result.splits option.splits if_splits prod.splits)
next
  case (write_done m ms ok)
  with assms(2) show ?thesis by simp
qed

definition server_inv :: "'b flat_buffer_ops \<Rightarrow> ('v, 'b) game_server \<Rightarrow> bool" where
  "server_inv fb srv \<longleftrightarrow> sessions_inv fb {} (world srv) \<and> registry_inv (world srv)"

lemma server_inv_new: "server_inv fb game_server_new"
  by (simp add: server_inv_def game_server_new_def game_world_new_def sessions_inv_def
      registry_inv_def TestListener_new_def timer_sessions_def)

lemma server_inv_hand_over:
  assumes "flat_buffer fb" and "sessions_inv fb {} w" and "registry_inv w"
  shows "server_inv fb (hand_over fb k peer s w srv)"
proof (cases "ws_started s")
  case None
  with assms show ?thesis by (simp add: hand_over_def server_inv_def)
next
  case (Some a)
  obtain req ps h where a: "a = (req, ps, h)" by (cases a)
  let ?w = "start_session fb req ps h peer (local_address s, local_port s) w"
  have "ws_next w \<notin> dom (ws_sessions w)"
    using assms(2) by (auto simp: sessions_inv_def)
  then have "registry_inv ?w"
    using assms(3) unfolding registry_inv_def start_session_def timer_sessions_def
    by (auto split: if_splits) fastforce+
  with Some a assms show ?thesis
    by (simp add: hand_over_def server_inv_def sessions_inv_start)
qed

text \<open>No read of a websocket fails, other than by a close.\<close>

definition no_read_fails :: "'v server_event list \<Rightarrow> bool" where
  "no_read_fails es \<longleftrightarrow> \<not> (\<exists>e. Ws e \<in> set es \<and> read_fails e)"

lemma server_step_inv:
  assumes "flat_buffer fb" and "lists_keys order" and "server_step lib fb order srv e srv'"
    and "\<not> (\<exists>x. e = Ws x \<and> read_fails x)" and "server_inv fb srv"
  shows "server_inv fb srv'"
  using assms(3)
proof (cases rule: server_step.cases)
  case (connect k peer local_end)
  with assms(5) show ?thesis by (simp add: server_inv_def TestListener_OnAccept_def)
next
  case (http k peer s rm x s' w')
  have "sessions_inv fb {} w' \<and> registry_inv w'"
  proof (rule http_step_world [OF http(5)])
    show "sessions_inv fb {} (world srv) \<and> registry_inv (world srv)"
      using assms(5) by (simp add: server_inv_def)
  next
    fix req ps r r' m p cb u u' m'
    assume "rm = Some m'" and "GetCallback m p m' = Some cb" and cb: "cb req ps r u = Inr (r', u')"
      and inv: "sessions_inv fb {} u \<and> registry_inv u"
    with http(4) have "cb = get_test order \<or> cb = post_set_state fb order"
      by (auto dest: routes_callback)
    then show "sessions_inv fb {} u' \<and> registry_inv u'"
    proof
      assume "cb = get_test order"
      with cb inv show ?thesis by (auto simp: get_test_def Let_def)
    next
      assume "cb = post_set_state fb order"
      with cb inv show ?thesis by (blast dest: post_set_state_inv [OF assms(2)])
    qed
  qed
  with http(2) assms(1) show ?thesis by (simp add: server_inv_hand_over)
next
  case (ws x w')
  have inv: "sessions_inv fb {} (world srv)" "registry_inv (world srv)"
    using assms(5) by (simp_all add: server_inv_def)
  have "sessions_inv fb {} w'"
    by (rule ws_application.complete_inv [OF game_application [OF assms(1)] ws(3,5) inv(1)])
  moreover have "registry_inv w'"
    using game_complete [OF assms(1) inv ws(3,4)] ws(1,5) assms(4) by auto
  ultimately show ?thesis using ws(2) by (simp add: server_inv_def)
next
  case (timer i w')
  have inv: "sessions_inv fb {} (world srv)" "registry_inv (world srv)"
    using assms(5) by (simp_all add: server_inv_def)
  from timer(4) obtain s where w': "w' = release timer_sessions (fst (timers (app (world srv)) ! i))
      (s\<lparr>app := (app s)\<lparr>timers := take i (timers (app (world srv))) @ drop (Suc i) (timers (app (world srv)))\<rparr>\<rparr>)"
    and "on_session (fst (timers (app (world srv)) ! i))
      (WebSocketSession_Send fb (state (app (world srv)))) (world srv) = Inr s"
    by (auto simp: timer_expired_def Let_def res_eq)
  then have "sends_only (world srv) s" by (auto intro: sends_only_Send)
  then have "sessions_inv fb {} w'"
    unfolding w' using inv(1)
    by (intro sessions_inv_release) (rule sessions_inv_sends_only [of "world srv"], simp_all)
  moreover have "registry_inv w'" using timer_total [OF inv(2) timer(3), of fb] timer(4) by auto
  ultimately show ?thesis using timer(2) by (simp add: server_inv_def)
qed

interpretation serving: preserved
  "\<lambda>srv e srv'. server_step lib fb order srv e srv' \<and>
     (flat_buffer fb \<and> lists_keys order \<and> \<not> (\<exists>x. e = Ws x \<and> read_fails x))"
  "server_inv fb" for lib fb order
  by unfold_locales (auto intro: server_step_inv)

lemma server_runs_inv:
  assumes "flat_buffer fb" and "lists_keys order" and "no_read_fails es"
    and "runs (server_step lib fb order) game_server_new es srv"
  shows "sessions_inv fb {} (world srv)" and "registry_inv (world srv)"
proof -
  have "runs (\<lambda>srv e srv'. server_step lib fb order srv e srv' \<and>
      (flat_buffer fb \<and> lists_keys order \<and> \<not> (\<exists>x. e = Ws x \<and> read_fails x))) game_server_new es srv"
    using assms by (intro runs_restrict) (auto simp: no_read_fails_def)
  then have "server_inv fb srv" using server_inv_new by (rule serving.runs_preserve)
  then show "sessions_inv fb {} (world srv)" and "registry_inv (world srv)"
    by (simp_all add: server_inv_def)
qed

section \<open>A first client\<close>

text \<open>
  The parameters instantiated: buffers of bytes, keys in alphabetical order, and a client
  with the key \<open>k\<close> which connects, upgrades and is accepted.
\<close>

definition key_request :: "string \<Rightarrow> nat request" where
  "key_request k = (sample_request ''/'' True)\<lparr>rq_fields :=
     [''Upgrade'' \<mapsto> ''websocket'', ''Sec-WebSocket-Key'' \<mapsto> k]\<rparr>"

abbreviation sample_step :: "(nat, string) game_server \<Rightarrow> nat server_event \<Rightarrow> (nat, string) game_server \<Rightarrow> bool" where
  "sample_step \<equiv> server_step sample_lib readable_bytes sorted_list_of_set"

definition accepted_session :: "nat \<Rightarrow> string \<Rightarrow> (nat, string, game_ws_handler) ws_session" where
  "accepted_session sid k =
     (let s = WebSocketSession_Run (''p'', 2) (''h'', 1)
        (WebSocketSession_new readable_bytes (key_request k) (Some Map.empty) Root_handler)
      in s\<lparr>ws_accepting := False, ws_open := True,
           ctx := (ctx s)\<lparr>ctx_ws_session := Some sid, ctx_uuid := k\<rparr>, ws_reading := 1\<rparr>)"

definition joined :: "string \<Rightarrow> (nat, string) game_server" where
  "joined k = \<lparr>http_sessions = Map.empty, world = \<lparr>ws_sessions = [0 \<mapsto> accepted_session 0 k],
     ws_ended = Map.empty, ws_next = 1, app = \<lparr>ctxs = [k \<mapsto> 0], state = '''', timers = []\<rparr>\<rparr>\<rparr>"

definition join_events :: "string \<Rightarrow> nat server_event list" where
  "join_events k = [Connect 0 (''p'', 2) (''h'', 1), Http 0 (Read_done (Got_request (key_request k))),
     Ws (Ws_accepted 0 None)]"

lemma lists_keys_sorted: "lists_keys sorted_list_of_set"
  by (simp add: lists_keys_def)

lemma key_request_read:
  assumes "local_address s = ''h''" and "local_port s = 1" and "parser s"
  shows "HttpSession_OnRead sample_lib (Some (AddWSCallbackInternal ''/'' Root_handler rm))
      (Got_request (key_request k)) s w =
    (case GetWSHandler GET ''/'' rm of
       None \<Rightarrow> Inr (s\<lparr>response := Some (fresh_response (key_request k)),
         ws_started := Some (key_request k, Some Map.empty, Root_handler)\<rparr>, w)
     | Some h \<Rightarrow> Inr (s\<lparr>response := Some (fresh_response (key_request k)),
         ws_started := Some (key_request k, Some Map.empty, h)\<rparr>, w))"
proof -
  have "is_upgrade sample_lib (key_request k)" by (simp add: key_request_def sample_lib_def)
  moreover from this have "request_uri sample_lib (key_request k) s = Some ''ws://h:1/''"
    using assms by (simp add: request_uri_def ParseUri_def key_request_def sample_request_def
        sample_lib_def std_to_string_1)
  moreover have "uri_path sample_lib ''ws://h:1/'' = ''/''" by (simp add: sample_lib_def)
  moreover have "request_method sample_lib (key_request k) = GET"
    using sample_method by (simp add: key_request_def request_method_def)
  moreover have "ParseQuery sample_lib u = Some Map.empty" for u
    by (simp add: ParseQuery_def sample_lib_def)
  ultimately show ?thesis
    using assms(3)
    by (auto simp: HttpSession_OnRead_def OnRequest_eq GetWSHandler_AddWSCallbackInternal
        split: option.split)
qed

lemma join_runs: "runs sample_step game_server_new (join_events k) (joined k)"
proof -
  let ?http = "HttpSession_Run (HttpSession_new ''h'' 1) :: (nat, game_ws_handler) http_session"
  let ?up = "?http\<lparr>reads := [], response := Some (fresh_response (key_request k)),
    ws_started := Some (key_request k, Some Map.empty, Root_handler)\<rparr>"
  let ?w = "start_session readable_bytes (key_request k) (Some Map.empty) Root_handler (''p'', 2) (''h'', 1)
    (game_world_new :: (nat, string) game_world)"
  let ?srv1 = "TestListener_OnAccept 0 (''p'', 2) (''h'', 1) (game_server_new :: (nat, string) game_server)"
  let ?srv2 = "(game_server_new :: (nat, string) game_server)\<lparr>world := ?w\<rparr>"
  have "sample_step game_server_new (Connect 0 (''p'', 2) (''h'', 1)) ?srv1"
    by (rule server_step.connect) (simp add: game_server_new_def)
  moreover have "sample_step ?srv1 (Http 0 (Read_done (Got_request (key_request k)))) ?srv2"
  proof -
    obtain rm where rm: "TestListener_routes (lib_verbs sample_lib) readable_bytes sorted_list_of_set =
        Inr (Some (AddWSCallbackInternal ''/'' Root_handler rm))" and free: "GetWSHandler GET ''/'' rm = None"
      by (simp add: TestListener_routes_eq)
    have "http_step sample_lib (Some (AddWSCallbackInternal ''/'' Root_handler rm))
        (?http, world ?srv1) (Read_done (Got_request (key_request k))) (?up, world ?srv1)"
      by (simp add: http_read_iff key_request_read HttpSession_defs free)
    then have "sample_step ?srv1 (Http 0 (Read_done (Got_request (key_request k))))
        (hand_over readable_bytes 0 (''p'', 2) ?up (world ?srv1) ?srv1)"
      by (intro server_step.http [where s = ?http, OF _ rm]) (simp_all add: TestListener_OnAccept_def)
    also have "hand_over readable_bytes 0 (''p'', 2) ?up (world ?srv1) ?srv1 = ?srv2"
      by (simp add: hand_over_def TestListener_OnAccept_def game_server_new_def HttpSession_defs)
    finally show ?thesis .
  qed
  moreover have "sample_step ?srv2 (Ws (Ws_accepted 0 None)) (joined k)"
  proof -
    let ?s = "WebSocketSession_Run (''p'', 2) (''h'', 1)
      (WebSocketSession_new readable_bytes (key_request k) (Some Map.empty) Root_handler)"
    have s: "ws_sessions ?w 0 = Some ?s" by (simp add: start_session_def game_world_new_def)
    have key: "rq_fields (ws_req ?s) ''Sec-WebSocket-Key'' = Some k"
      by (simp add: WebSocketSession_Run_def WebSocketSession_new_def key_request_def)
    let ?w' = "put_session 0 (accepted_session 0 k)
      (?w\<lparr>app := (app ?w)\<lparr>ctxs := (ctxs (app ?w))(k \<mapsto> 0)\<rparr>\<rparr>)"
    have done_eq: "?srv2\<lparr>world := ?w'\<rparr> = joined k"
      by (simp add: joined_def game_server_new_def start_session_def put_session_def
          game_world_new_def TestListener_new_def)
    have "ws_enabled (Ws_accepted 0 None) ?w" "handshake_checked (Ws_accepted 0 None) ?w"
      using s key by (simp_all add: ws_enabled_def started_def handshake_checked_def WebSocketSession_Run_def)
    moreover have "ws_complete readable_bytes (game_handlers readable_bytes) timer_sessions
        (Ws_accepted 0 None) ?w = Inr ?w'"
      using game_accepted [OF s key]
      by (simp add: accepted_session_def WebSocketSession_Run_def WebSocketSession_new_def)
    ultimately have "sample_step ?srv2 (Ws (Ws_accepted 0 None)) (?srv2\<lparr>world := ?w'\<rparr>)"
      by (intro server_step.ws) simp_all
    then show ?thesis by (simp only: done_eq)
  qed
  ultimately show ?thesis by (auto simp: join_events_def runs_Cons_iff)
qed

lemma join_no_read_fails: "no_read_fails (join_events k)"
  by (auto simp: no_read_fails_def join_events_def read_fails_def)

section \<open>Properties of the server\<close>

text \<open>
  C1. As long as no websocket read fails other than by a close, the registry never holds a
  dangling pointer: in every reachable state each entry is a live session that waits for
  a message, whose context carries the entry's key; and the session of every timer is
  alive.
\<close>

theorem SimpleGame_registry:
  assumes "flat_buffer fb" and "lists_keys order" and "no_read_fails es"
    and "runs (server_step lib fb order) game_server_new es srv"
  shows "(\<forall>u sid. ctxs (app (world srv)) u = Some sid \<longrightarrow>
      (\<exists>s. ws_sessions (world srv) sid = Some s \<and> ws_reading s = 1 \<and>
        ctx_ws_session (ctx s) = Some sid \<and> ctx_uuid (ctx s) = u)) \<and>
    (\<forall>t \<in> set (timers (app (world srv))). ws_sessions (world srv) (fst t) \<noteq> None)"
proof (intro conjI allI impI ballI)
  fix u sid
  assume "ctxs (app (world srv)) u = Some sid"
  with server_runs_inv [OF assms] obtain s where s: "ws_sessions (world srv) sid = Some s"
    "ws_reading s \<noteq> 0" "ctx_uuid (ctx s) = u" and inv: "sessions_inv fb {} (world srv)"
    by (meson registered)
  then have "session_inv fb sid s" by (auto simp: sessions_inv_def)
  with s show "\<exists>s. ws_sessions (world srv) sid = Some s \<and> ws_reading s = 1 \<and>
      ctx_ws_session (ctx s) = Some sid \<and> ctx_uuid (ctx s) = u"
    by (intro exI [of _ s]) (auto simp: session_inv_def)
next
  fix t
  assume "t \<in> set (timers (app (world srv)))"
  then show "ws_sessions (world srv) (fst t) \<noteq> None"
    using registry_inv_timer server_runs_inv(2) [OF assms] by blast
qed

theorem SimpleGame_registry_witness:
  "runs sample_step game_server_new (join_events ''k1'') (joined ''k1'') \<and>
   (\<exists>s. ws_sessions (world (joined ''k1'')) 0 = Some s \<and> ws_reading s = 1 \<and> ctx_uuid (ctx s) = ''k1'')"
proof -
  have "ctxs (app (world (joined ''k1''))) ''k1'' = Some 0" by (simp add: joined_def)
  with SimpleGame_registry [OF readable.flat_buffer_axioms lists_keys_sorted join_no_read_fails join_runs]
  show ?thesis using join_runs by blast
qed

text \<open>
  C17. In every such state no handler fails: whatever operation of a websocket session
  completes, other than by a failing read, its handler returns, and so does the handler of
  every timer.
\<close>

theorem SimpleGame_handlers_total:
  assumes "flat_buffer fb" and "lists_keys order" and "no_read_fails es"
    and "runs (server_step lib fb order) game_server_new es srv"
  shows "(\<forall>e. ws_enabled e (world srv) \<and> handshake_checked e (world srv) \<and> \<not> read_fails e \<longrightarrow>
      (\<exists>w'. ws_complete fb (game_handlers fb) timer_sessions e (world srv) = Inr w')) \<and>
    (\<forall>i < length (timers (app (world srv))). \<exists>w'. timer_expired fb i (world srv) = Inr w')"
  using game_complete [OF assms(1) server_runs_inv [OF assms]]
    timer_total [OF server_runs_inv(2) [OF assms]] by blast

theorem SimpleGame_handlers_total_witness:
  "\<exists>w'. ws_complete readable_bytes (game_handlers readable_bytes) timer_sessions (Ws_read 0 Closed)
     (world (joined ''k1'')) = Inr w'"
proof -
  have "ws_enabled (Ws_read 0 Closed) (world (joined ''k1''))"
    and "handshake_checked (Ws_read 0 Closed) (world (joined ''k1''))" and "\<not> read_fails (Ws_read 0 Closed)"
    by (simp_all add: ws_enabled_def joined_def started_def accepted_session_def handshake_checked_def
        read_fails_def Let_def)
  with SimpleGame_handlers_total [OF readable.flat_buffer_axioms lists_keys_sorted join_no_read_fails
      join_runs [of "''k1''"]]
  show ?thesis by blast
qed

text \<open>
  C16. \<open>POST /test/set_state\<close> sets the state to the body, answers with it, and reaches every
  registered client once: without a \<open>delay\<close> the state is sent at once on each registered
  session and on no other; with one, a timer of that many seconds (0 when it is no number)
  is started for each, in the order of the loop, and nothing is sent yet.
\<close>

theorem SimpleGame_set_state:
  assumes "flat_buffer fb" and "lists_keys order" and "no_read_fails es"
    and "runs (server_step lib fb order) game_server_new es srv"
  shows "\<exists>w'. post_set_state fb order req ps res (world srv) =
      Inr (res\<lparr>rs_fields := (rs_fields res)(''Content-Type'' \<mapsto> ''text/json; charset=utf-8''),
               rs_body := ''Setting state to: '' @ newline @ rq_body req\<rparr>, w') \<and>
    state (app w') = rq_body req \<and> ctxs (app w') = ctxs (app (world srv)) \<and>
    (case (case ps of None \<Rightarrow> None | Some m \<Rightarrow> m ''delay'') of
       None \<Rightarrow> timers (app w') = timers (app (world srv)) \<and>
         (\<forall>sid. ws_sessions w' sid =
           (if sid \<in> ran (ctxs (app (world srv)))
            then map_option (WebSocketSession_Send fb (rq_body req)) (ws_sessions (world srv) sid)
            else ws_sessions (world srv) sid))
     | Some v \<Rightarrow> ws_sessions w' = ws_sessions (world srv) \<and>
         timers (app w') = timers (app (world srv)) @
           map (\<lambda>u. (the (ctxs (app (world srv)) u), parse_delay v)) (order (dom (ctxs (app (world srv))))))"
proof -
  have ran_iff: "(\<exists>u \<in> dom (ctxs (app (world srv))). ctxs (app (world srv)) u = Some sid) \<longleftrightarrow>
      sid \<in> ran (ctxs (app (world srv)))" for sid
    by (auto simp: ran_def)
  show ?thesis
    unfolding post_set_state_eq [OF assms(2) server_runs_inv [OF assms]] Let_def
    by (cases "case ps of None \<Rightarrow> None | Some m \<Rightarrow> m ''delay''")
      (simp_all add: sent_to_def ran_iff del: Bex_def)
qed

theorem SimpleGame_set_state_witness:
  "\<exists>res w'. post_set_state readable_bytes sorted_list_of_set
      ((sample_request ''/test/set_state'' True)\<lparr>rq_body := ''X''\<rparr>) (Some Map.empty)
      (fresh_response (sample_request ''/test/set_state'' True)) (world (joined ''k1'')) = Inr (res, w') \<and>
    map_option ws_writing (ws_sessions w' 0) = Some [(True, ''X'')]"
proof -
  let ?req = "(sample_request ''/test/set_state'' True)\<lparr>rq_body := ''X''\<rparr>"
  have ran: "0 \<in> ran (ctxs (app (world (joined ''k1''))))"
    and s: "ws_sessions (world (joined ''k1'')) 0 = Some (accepted_session 0 ''k1'')"
    by (simp_all add: joined_def)
  from SimpleGame_set_state [OF readable.flat_buffer_axioms lists_keys_sorted join_no_read_fails
      join_runs [of "''k1''"], of ?req "Some Map.empty" "fresh_response (sample_request ''/test/set_state'' True)"]
  obtain res w' where w': "post_set_state readable_bytes sorted_list_of_set ?req (Some Map.empty)
      (fresh_response (sample_request ''/test/set_state'' True)) (world (joined ''k1'')) = Inr (res, w')"
    and "ws_sessions w' 0 = map_option (WebSocketSession_Send readable_bytes ''X'')
      (ws_sessions (world (joined ''k1'')) 0)"
    using ran by auto
  then show ?thesis unfolding s
    by (intro exI [of _ res] exI [of _ w'])
      (simp add: Send_defs accepted_session_def WebSocketSession_Run_def WebSocketSession_new_def
        readable_bytes_def Let_def)
qed

text \<open>
  In every such state a message that arrives on a live session is echoed on that
  session with the suffix, in its own mode, behind what is still in the write buffer; the
  next read is started, and no other session and nothing of the application changes.
\<close>

lemma SimpleGame_echo:
  assumes "flat_buffer fb" and "lists_keys order" and "no_read_fails es"
    and "runs (server_step lib fb order) game_server_new es srv"
    and "ws_sessions (world srv) sid = Some s" and "ws_reading s \<noteq> 0"
  shows "\<exists>s'. ws_complete fb (game_handlers fb) timer_sessions (Ws_read sid (Got_message msg got_text))
      (world srv) = Inr ((world srv)\<lparr>ws_sessions := (ws_sessions (world srv))(sid \<mapsto> s')\<rparr>) \<and>
    ws_writing s' = ws_writing s @
      [(got_text, fb_data fb (ws_write_buf s) @ msg @ '' UwU Kawaiiiiiiii!'')] \<and>
    ws_reading s' = ws_reading s \<and> fb_data fb (ws_buffer s') = ''''"
proof -
  note inv = server_runs_inv(1) [OF assms(1-4)]
  have "session_inv fb sid s" using inv assms(5) by (auto simp: sessions_inv_def)
  then have "fb_data fb (ws_buffer s) = ''''" by (simp add: session_inv_def)
  then show ?thesis
    using game_message [OF assms(1) inv assms(5,6), of msg got_text] assms(6)
    by (intro exI [of _ "echoed fb msg got_text s"])
      (simp add: echoed_def Send_defs put_session_def flat_buffer.data_append [OF assms(1)]
        flat_buffer.data_consume [OF assms(1)])
qed

lemma SimpleGame_echo_witness:
  "\<exists>w'. ws_complete readable_bytes (game_handlers readable_bytes) timer_sessions
      (Ws_read 0 (Got_message ''hi'' False)) (world (joined ''k1'')) = Inr w' \<and>
    map_option ws_writing (ws_sessions w' 0) = Some [(False, ''hi UwU Kawaiiiiiiii!'')]"
proof -
  have "ws_sessions (world (joined ''k1'')) 0 = Some (accepted_session 0 ''k1'')"
    by (simp add: joined_def)
  moreover have "ws_reading (accepted_session 0 ''k1'') \<noteq> 0"
    "ws_writing (accepted_session 0 ''k1'') = []" "ws_write_buf (accepted_session 0 ''k1'') = ''''"
    by (simp_all add: accepted_session_def WebSocketSession_Run_def WebSocketSession_new_def
        readable_bytes_def Let_def)
  ultimately show ?thesis
    using SimpleGame_echo [OF readable.flat_buffer_axioms lists_keys_sorted join_no_read_fails
      join_runs [of "''k1''"], of 0 "accepted_session 0 ''k1''" "''hi''" False]
    by (auto simp: readable_bytes_def)
qed

lemma broadcast_dangles:
  assumes "ctxs (app w) u = Some sid" and "ws_sessions w sid = None" and "u \<in> set ks"
  shows "fold_res (broadcast_ctx fb ps) ks w = Inl (Undefined Dangling_pointer)"
  using assms
proof (induction ks arbitrary: w)
  case Nil
  then show ?case by simp
next
  case (Cons k ks)
  show ?case
  proof (cases "broadcast_ctx fb ps k w")
    case (Inl e)
    then have "e = Undefined Dangling_pointer"
      by (auto simp: broadcast_ctx_def on_session_def get_session_def res_eq
          split: option.splits)
    with Inl show ?thesis by simp
  next
    case (Inr w1)
    then have w1: "ctxs (app w1) = ctxs (app w)" "ws_sessions w1 sid = None \<or> (\<exists>s. lock (Some sid) w = Some s)"
      and "k \<noteq> u"
      using Cons.prems(1,2)
      by (auto simp: broadcast_ctx_def on_session_def res_eq lock_def get_session_def
          put_session_def split: option.splits if_splits)
    then have "ws_sessions w1 sid = None" using Cons.prems(2) by (simp add: lock_def)
    with Cons.IH [of w1] Cons.prems \<open>k \<noteq> u\<close> w1(1) Inr show ?thesis by simp
  qed
qed

text \<open>
  The identity of a client is the key it chose for its handshake. Of two live clients
  with the same key only the one accepted last is registered, and when the other one
  closes its connection, that entry goes too: no later broadcast reaches the client that
  is still connected.
\<close>

lemma SimpleGame_same_key:
  assumes "ws_sessions w old = Some s" and "ws_sessions w new = Some s'" and "old \<noteq> new"
    and "ctx_uuid (ctx s) = key" and "ws_reading s = 1"
    and "rq_fields (ws_req s') ''Sec-WebSocket-Key'' = Some key"
  shows "\<exists>w1 w2. ws_complete fb (game_handlers fb) timer_sessions (Ws_accepted new None) w = Inr w1 \<and>
    ctxs (app w1) key = Some new \<and>
    ws_complete fb (game_handlers fb) timer_sessions (Ws_read old Closed) w1 = Inr w2 \<and>
    ctxs (app w2) key = None \<and> map_option ws_reading (ws_sessions w2 new) = Some (Suc (ws_reading s'))"
proof -
  let ?w1 = "put_session new (s'\<lparr>ws_accepting := False, ws_open := True,
      ctx := (ctx s')\<lparr>ctx_ws_session := Some new, ctx_uuid := key\<rparr>,
      ws_reading := Suc (ws_reading s')\<rparr>) (w\<lparr>app := (app w)\<lparr>ctxs := (ctxs (app w))(key \<mapsto> new)\<rparr>\<rparr>)"
  have "ws_sessions ?w1 old = Some s" using assms(1,3) by simp
  from game_closed [OF this, of fb] game_accepted [OF assms(2,6), of fb] assms(3,4)
  show ?thesis by (auto simp: release_def)
qed

definition second_handshake :: "(nat, string) game_world" where
  "second_handshake = start_session readable_bytes (key_request ''k1'') None Root_handler
     (''q'', 3) (''h'', 1) (world (joined ''k1''))"

lemma SimpleGame_same_key_witness:
  "\<exists>w1 w2. ws_complete readable_bytes (game_handlers readable_bytes) timer_sessions
      (Ws_accepted 1 None) second_handshake = Inr w1 \<and>
    ws_complete readable_bytes (game_handlers readable_bytes) timer_sessions (Ws_read 0 Closed) w1 = Inr w2 \<and>
    ctxs (app w2) ''k1'' = None \<and> map_option ws_reading (ws_sessions w2 1) = Some 1"
proof -
  have "ws_sessions second_handshake 0 = Some (accepted_session 0 ''k1'')"
    by (simp add: second_handshake_def joined_def start_session_def)
  moreover obtain s' where "ws_sessions second_handshake 1 = Some s'" "ws_reading s' = 0"
      "rq_fields (ws_req s') ''Sec-WebSocket-Key'' = Some ''k1''"
    by (simp add: second_handshake_def joined_def start_session_def WebSocketSession_Run_def
        WebSocketSession_new_def key_request_def)
  moreover have "ws_reading (accepted_session 0 ''k1'') = 1"
    "ctx_uuid (ctx (accepted_session 0 ''k1'')) = ''k1''"
    by (simp_all add: accepted_session_def Let_def)
  ultimately obtain w1 w2 where
    "ws_complete readable_bytes (game_handlers readable_bytes) timer_sessions
      (Ws_accepted 1 None) second_handshake = Inr w1"
    "ws_complete readable_bytes (game_handlers readable_bytes) timer_sessions (Ws_read 0 Closed) w1 = Inr w2"
    "ctxs (app w2) ''k1'' = None" "map_option ws_reading (ws_sessions w2 1) = Some (Suc 0)"
    using SimpleGame_same_key [of second_handshake 0 "accepted_session 0 ''k1''" 1 s' "''k1''" readable_bytes]
    by (metis zero_neq_one)
  then show ?thesis by simp
qed

text \<open>
  The listener's routes are \<open>GET /test\<close>, \<open>POST /test/set_state\<close> and the websocket at
  \<open>/\<close>, which is answered for \<open>GET\<close> only; every other method and path has none. The chain
  of builder calls never fails.
\<close>

lemma SimpleGame_routes:
  assumes "distinct_verbs verbs"
  shows "\<exists>rm. TestListener_routes verbs fb order = Inr (Some rm) \<and>
    (\<forall>m p. GetCallback m p rm =
      (if m = GET \<and> p = ''/test'' then Some (get_test order)
       else if m = POST \<and> p = ''/test/set_state'' then Some (post_set_state fb order) else None) \<and>
     GetWSHandler m p rm = (if m = GET \<and> p = ''/'' then Some Root_handler else None))"
proof -
  have "ConvertVerbBeast_to_method verbs (verb_get verbs) = GET"
    "ConvertVerbBeast_to_method verbs (verb_post verbs) = POST"
    using assms by (auto simp: ConvertVerb_defs distinct_verbs_def)
  then show ?thesis
    unfolding TestListener_routes_eq
  proof (intro exI conjI allI)
    fix m p
    let ?rm = "AddWSCallbackInternal ''/'' Root_handler (AddCallbackInternal POST ''/test/set_state''
      (post_set_state fb order) (AddCallbackInternal GET ''/test'' (get_test order) RouteManagerBase_default))"
    show "GetWSHandler m p ?rm = (if m = GET \<and> p = ''/'' then Some Root_handler else None)"
      by (cases "m = GET") (auto simp: GetWSHandler_AddWSCallbackInternal, simp add: GetWSHandler_def)
    show "GetCallback m p ?rm = (if m = GET \<and> p = ''/test'' then Some (get_test order)
       else if m = POST \<and> p = ''/test/set_state'' then Some (post_set_state fb order) else None)"
      by (auto simp: GetCallback_AddCallbackInternal)
  qed simp
qed

lemma SimpleGame_routes_witness:
  "\<exists>rm. TestListener_routes numbered_verbs readable_bytes sorted_list_of_set = Inr (Some rm) \<and>
     GetWSHandler GET ''/'' rm = Some Root_handler \<and> GetWSHandler POST ''/'' rm = None"
  using SimpleGame_routes [of numbered_verbs readable_bytes sorted_list_of_set]
  by (auto simp: distinct_verbs_def numbered_verbs_def)

text \<open>
  The port of the simple game server: 8880 without an argument; a decimal argument
  that fits \<open>int\<close> is cut to 16 bits, so that a port out of range silently becomes another
  one; an argument with no number, or one out of the range of \<open>int\<close>, ends the program.
\<close>

lemma simple_game_port_correct:
  "simple_game_port [prog] = Inr 8880 \<and>
   simple_game_port [prog, std_to_string n] =
     (if n \<le> 2147483647 then Inr (word_of_nat (n mod 65536)) else Inl 1) \<and>
   simple_game_port [prog, ''http''] = Inl 1"
proof -
  have "(word_of_int (int n) :: 16 word) = word_of_nat (n mod 65536)"
    by (simp add: word_of_nat_eq_iff take_bit_eq_mod)
  moreover have "std_stoi ''http'' = Inl Invalid_argument"
    by (simp add: std_stoi_def is_space_char_def is_digit_char_def)
  moreover have "std_stoi (std_to_string n) =
      (if n \<le> 2147483647 then Inr (int n) else Inl Out_of_range)"
    using std_stoi_digits [OF std_to_string_not_Nil std_to_string_digits, of n]
    by (simp add: std_to_string_value)
  ultimately show ?thesis by (simp add: simple_game_port_def)
qed

section \<open>Requests to the server\<close>

text \<open>The HTTP sessions of the server keep their own invariant, whatever happens.\<close>

definition connections_inv :: "('v, 'b) game_server \<Rightarrow> bool" where
  "connections_inv srv \<longleftrightarrow> (\<forall>k c. http_sessions srv k = Some c \<longrightarrow> http_inv (snd c))"

lemma connections_invD:
  "connections_inv srv \<Longrightarrow> http_sessions srv k = Some (peer, s) \<Longrightarrow> http_inv s"
  unfolding connections_inv_def by (metis snd_conv)

lemma connections_inv_step:
  assumes "server_step lib fb order srv e srv'" and "connections_inv srv"
  shows "connections_inv srv'"
  using assms(1)
proof (cases rule: server_step.cases)
  case (connect k peer local_end)
  have "http_inv (HttpSession_Run (HttpSession_new a p))" for a p
    by (simp add: http_inv_def HttpSession_defs)
  with connect(2) assms(2) show ?thesis
    by (auto simp: connections_inv_def TestListener_OnAccept_def split: if_splits)
next
  case (http k peer s rm x s' w')
  with assms(2) have "http_inv s" by (blast intro: connections_invD)
  with http(5) have "http_inv s'" by (rule http_step_inv)
  with http(2) assms(2) show ?thesis
    by (auto simp: connections_inv_def hand_over_def split: option.splits if_splits)
next
  case (ws x w')
  with assms(2) show ?thesis by (simp add: connections_inv_def)
next
  case (timer i w')
  with assms(2) show ?thesis by (simp add: connections_inv_def)
qed

interpretation connections: preserved "server_step lib fb order" connections_inv for lib fb order
  by unfold_locales (rule connections_inv_step)

lemma connections_runs:
  assumes "runs (server_step lib fb order) game_server_new es srv"
    and "http_sessions srv k = Some (peer, s)"
  shows "http_inv s"
proof -
  have "connections_inv game_server_new" by (simp add: connections_inv_def game_server_new_def)
  from connections.runs_preserve [OF assms(1) this] assms(2) show ?thesis
    by (rule connections_invD)
qed

lemma routes_return:
  assumes "lists_keys order" and "sessions_inv fb {} w" and "registry_inv w"
    and "cb = get_test order \<or> cb = post_set_state fb order"
  shows "\<exists>r w'. cb req ps res w = Inr (r, w')"
  using assms(4) post_set_state_eq [OF assms(1-3), of req ps res] by (auto simp: get_test_def Let_def)

text \<open>A request with a parsable target is answered, or a websocket session is started for it.\<close>

lemma routes_dispatch:
  assumes "lists_keys order" and "sessions_inv fb {} w" and "registry_inv w"
    and rm: "TestListener_routes (lib_verbs lib) fb order = Inr (Some rm)"
    and u: "request_uri lib req s = Some u"
  shows "(\<exists>r w'. HttpSession_OnRequest lib (Some rm) req s w = Inr (replied lib r s, w') \<and>
      ws_next w' = ws_next w) \<or>
    (\<exists>h. HttpSession_OnRequest lib (Some rm) req s w =
      Inr (s\<lparr>response := Some (fresh_response req), ws_started := Some (req, ParseQuery lib u, h)\<rparr>, w))"
proof (cases "is_upgrade lib req")
  case True
  with u show ?thesis
    by (cases "GetWSHandler (request_method lib req) (uri_path lib u) rm") (auto simp: OnRequest_eq)
next
  case False
  show ?thesis
  proof (cases "GetCallback (request_method lib req) (uri_path lib u) rm")
    case None
    with False u show ?thesis by (auto simp: OnRequest_eq)
  next
    case (Some cb)
    with rm have cb: "cb = get_test order \<or> cb = post_set_state fb order" by (rule routes_callback)
    from routes_return [OF assms(1-3) cb] obtain r w'
      where call: "cb req (ParseQuery lib u) (fresh_response req) w = Inr (r, w')" by blast
    have "ws_next w' = ws_next w"
      using cb call post_set_state_eq [OF assms(1-3)]
      by (auto simp: get_test_def Let_def sent_to_def split: option.splits)
    moreover have "HttpSession_OnRequest lib (Some rm) req s w = Inr (replied lib r s, w')"
      using False u Some call by (simp add: OnRequest_eq)
    ultimately show ?thesis by blast
  qed
qed

text \<open>
  C2. As long as no websocket read fails other than by a close, the server answers every
  request whose target parses: in every reachable state the arrival of such a request on a
  waiting connection is a step of the server, which either writes one response on that
  connection and starts its next read, or hands the connection to one new websocket
  session.
\<close>

theorem SimpleGame_answers:
  assumes "flat_buffer fb" and "lists_keys order" and "no_read_fails es"
    and run: "runs (server_step lib fb order) game_server_new es srv"
    and k: "http_sessions srv k = Some (peer, s)" and rd: "reads s \<noteq> []"
    and uri: "request_uri lib req s \<noteq> None"
  shows "\<exists>srv'. server_step lib fb order srv (Http k (Read_done (Got_request req))) srv' \<and>
    ((\<exists>s' r. http_sessions srv' k = Some (peer, s') \<and>
        writes s' = writes s @ [prepare_payload lib r] \<and> reads s' = [Read_op 10000 30] \<and>
        ws_next (world srv') = ws_next (world srv)) \<or>
     (http_sessions srv' k = None \<and> ws_next (world srv') = Suc (ws_next (world srv)) \<and>
        map_option ws_req (ws_sessions (world srv') (ws_next (world srv))) = Some req))"
proof -
  note inv = server_runs_inv [OF assms(1-3) run]
  have hi: "reads s = [Read_op 10000 30]" "parser s" "ws_started s = None"
    using connections_runs [OF run k] rd by (auto simp: http_inv_def)
  obtain rm where rm: "TestListener_routes (lib_verbs lib) fb order = Inr (Some rm)"
    by (simp add: TestListener_routes_eq)
  obtain u where u: "request_uri lib req s = Some u" using uri by blast
  let ?s = "s\<lparr>reads := []\<rparr>"
  have u': "request_uri lib req ?s = Some u" using u by (simp add: request_uri_def)
  have stepI: "server_step lib fb order srv (Http k (Read_done (Got_request req)))
      (hand_over fb k peer s' w' srv)"
    if "HttpSession_OnRead lib (Some rm) (Got_request req) ?s (world srv) = Inr (s', w')" for s' w'
  proof -
    have "http_step lib (Some rm) (s, world srv) (Read_done (Got_request req)) (s', w')"
      using that hi(1) by (simp add: http_read_iff)
    with k rm show ?thesis by (rule server_step.http)
  qed
  have OnRead: "HttpSession_OnRead lib (Some rm) (Got_request req) ?s (world srv) =
      HttpSession_OnRequest lib (Some rm) req ?s (world srv)"
    using hi(2) by (simp add: HttpSession_OnRead_def)
  from routes_dispatch [OF assms(2) inv rm u'] show ?thesis
  proof (elim disjE exE conjE)
    fix r w'
    assume a: "HttpSession_OnRequest lib (Some rm) req ?s (world srv) = Inr (replied lib r ?s, w')"
      and w': "ws_next w' = ws_next (world srv)"
    show ?thesis
      by (rule exI, rule conjI [OF stepI [unfolded OnRead, OF a]])
        (use hi w' in \<open>auto simp: hand_over_def replied_def\<close>)
  next
    fix h
    assume "HttpSession_OnRequest lib (Some rm) req ?s (world srv) = Inr (?s\<lparr>response := Some (fresh_response req),
        ws_started := Some (req, ParseQuery lib u, h)\<rparr>, world srv)"
    from stepI [unfolded OnRead, OF this] show ?thesis
      by (intro exI conjI, assumption)
        (simp add: hand_over_def start_session_def WebSocketSession_Run_def WebSocketSession_new_def)
  qed
qed

theorem SimpleGame_answers_witness:
  "\<exists>srv. sample_step (TestListener_OnAccept 0 (''p'', 2) (''h'', 1) game_server_new)
     (Http 0 (Read_done (Got_request (sample_request ''/nope'' True)))) srv"
proof -
  let ?srv = "TestListener_OnAccept 0 (''p'', 2) (''h'', 1) (game_server_new :: (nat, string) game_server)"
  let ?s = "HttpSession_Run (HttpSession_new ''h'' 1) :: (nat, game_ws_handler) http_session"
  have run: "runs sample_step game_server_new [Connect 0 (''p'', 2) (''h'', 1)] ?srv"
    by (auto simp: runs_Cons_iff game_server_new_def intro: server_step.connect)
  have "http_sessions ?srv 0 = Some ((''p'', 2), ?s)" by (simp add: TestListener_OnAccept_def)
  moreover have "reads ?s \<noteq> []" by (simp add: HttpSession_defs)
  moreover have "request_uri sample_lib (sample_request ''/nope'' True) ?s \<noteq> None"
    by (simp add: sample_defs)
  moreover have "no_read_fails [Connect 0 (''p'', 2) (''h'', 1) :: nat server_event]"
    by (simp add: no_read_fails_def)
  ultimately show ?thesis
    using SimpleGame_answers [OF readable.flat_buffer_axioms lists_keys_sorted _ run] by blast
qed

lemma ForEachParam_append:
  "ForEachParam order ps (\<lambda>k v acc. acc @ f k v) acc =
     acc @ (case ps of None \<Rightarrow> [] | Some m \<Rightarrow>
       concat (map (\<lambda>k. case m k of None \<Rightarrow> [] | Some v \<Rightarrow> f k v) (order (dom m))))"
proof -
  have "fold (\<lambda>k acc. case m k of None \<Rightarrow> acc | Some v \<Rightarrow> acc @ f k v) ks acc =
      acc @ concat (map (\<lambda>k. case m k of None \<Rightarrow> [] | Some v \<Rightarrow> f k v) ks)" for m ks
    by (induction ks arbitrary: acc) (auto split: option.split)
  then show ?thesis by (simp add: ForEachParam_def split: option.split)
qed

text \<open>One line of the answer of \<open>GET /test\<close>.\<close>

definition param_line :: "string \<Rightarrow> string \<Rightarrow> string" where
  "param_line key v = newline @ ''  '' @ quote_mark @ key @ quote_mark @ '' : '' @ quote_mark @ v @
     quote_mark @ '',''"

lemma get_test_eq:
  "get_test order req ps res w =
     Inr (res\<lparr>rs_fields := (rs_fields res)(''Content-Type'' \<mapsto> ''text/plain; charset=utf-8''),
       rs_body := ''UwU Kawaiiiiiiii!'' @ newline @ ''Params: {'' @
         (case ps of None \<Rightarrow> [] | Some m \<Rightarrow>
           concat (map (\<lambda>k. case m k of None \<Rightarrow> [] | Some v \<Rightarrow> param_line k v) (order (dom m)))) @
         newline @ ''}''\<rparr>, w)"
  unfolding get_test_def Let_def param_line_def [symmetric] ForEachParam_append by simp

text \<open>
  \<open>GET /test\<close> from the wire to the wire: the answer is a 200 with a text body that has one
  line for each key of the query, with its first value, keys without a name left out; the
  next read is started and nothing else changes.
\<close>

lemma SimpleGame_get_test:
  assumes "distinct_verbs (lib_verbs lib)" and "TestListener_routes (lib_verbs lib) fb order = Inr rm"
    and "parser s" and "\<not> is_upgrade lib req" and "rq_method req = verb_get (lib_verbs lib)"
    and "request_uri lib req s = Some u" and "uri_path lib u = ''/test''" and "query_parses lib u"
    and "value = (\<lambda>k. case the (map_of (encoded_params lib u) k) of Some v \<Rightarrow> v | None \<Rightarrow> '''')"
    and "lists_keys order"
  shows "\<exists>s'. HttpSession_OnRead lib rm (Got_request req) s w = Inr (s', w) \<and>
    writes s' = writes s @ [prepare_payload lib
      \<lparr>rs_status = 200, rs_version = rq_version req, rs_keep_alive = rq_keep_alive req,
       rs_fields = [''Server'' \<mapsto> server_version, ''Content-Type'' \<mapsto> ''text/plain; charset=utf-8''],
       rs_body = ''UwU Kawaiiiiiiii!'' @ newline @ ''Params: {'' @
         concat (map (\<lambda>k. param_line k (value k)) (order (fst ` set (encoded_params lib u) - {''''}))) @
         newline @ ''}''\<rparr>] \<and>
    reads s' = reads s @ [Read_op 10000 30]"
proof -
  let ?qs = "encoded_params lib u"
  obtain m where m: "ParseQuery lib u = Some m" and dom: "dom m = fst ` set ?qs - {''''}"
    and val: "\<And>k. m k = (if k \<in> dom m then Some (value k) else None)"
  proof
    let ?m = "ParseQuery_loop ?qs Map.empty"
    show "ParseQuery lib u = Some ?m" using assms(8) by (simp add: ParseQuery_def)
    show "dom ?m = fst ` set ?qs - {''''}"
    proof (rule set_eqI)
      fix k
      show "k \<in> dom ?m \<longleftrightarrow> k \<in> fst ` set ?qs - {''''}"
        using map_of_eq_None_iff [of ?qs k]
        by (cases "map_of ?qs k") (simp_all add: domIff ParseQuery_loop_eq)
    qed
    show "?m k = (if k \<in> dom ?m then Some (value k) else None)" for k
      using assms(9) by (cases "map_of ?qs k") (simp_all add: ParseQuery_loop_eq domIff)
  qed
  obtain rm' where rm: "rm = Some rm'" and cb: "GetCallback GET ''/test'' rm' = Some (get_test order)"
  proof -
    have "ConvertVerbBeast_to_method (lib_verbs lib) (verb_get (lib_verbs lib)) = GET"
      "ConvertVerbBeast_to_method (lib_verbs lib) (verb_post (lib_verbs lib)) = POST"
      using assms(1) by (auto simp: ConvertVerb_defs distinct_verbs_def)
    with assms(2) that show ?thesis by (auto simp: TestListener_routes_eq GetCallback_AddCallbackInternal)
  qed
  have "request_method lib req = GET"
    using assms(1,5) by (auto simp: request_method_def ConvertVerb_defs distinct_verbs_def)
  with cb assms(7) have "GetCallback (request_method lib req) (uri_path lib u) rm' = Some (get_test order)"
    by simp
  moreover have lines: "map (\<lambda>k. case m k of None \<Rightarrow> [] | Some v \<Rightarrow> param_line k v) (order (dom m)) =
      map (\<lambda>k. param_line k (value k)) (order (fst ` set ?qs - {''''}))"
  proof -
    have "set (order (dom m)) = dom m" using assms(10) by (simp add: lists_keys_def dom)
    then have "map (\<lambda>k. case m k of None \<Rightarrow> [] | Some v \<Rightarrow> param_line k v) (order (dom m)) =
        map (\<lambda>k. param_line k (value k)) (order (dom m))"
      using val by (intro map_cong refl) simp
    then show ?thesis by (simp only: dom)
  qed
  ultimately show ?thesis
    using assms(3,4,6) m rm
    by (simp add: HttpSession_OnRead_def OnRequest_eq get_test_eq replied_def fresh_response_def
        status_ok_def del: append_Cons)
qed

definition test_request :: "nat request" where
  "test_request = sample_request ''/test'' True"

text \<open>The sample library with a query of two parameters, one of them given twice.\<close>

definition query_lib :: "(nat, string) http_lib" where
  "query_lib = sample_lib\<lparr>encoded_params := (\<lambda>u. [(''a'', Some ''1''), ('''', Some ''x''), (''a'', Some ''2'')])\<rparr>"

lemma SimpleGame_get_test_witness:
  "\<exists>rm s'. TestListener_routes (lib_verbs query_lib) readable_bytes sorted_list_of_set = Inr rm \<and>
     HttpSession_OnRead query_lib rm (Got_request test_request)
       (HttpSession_Run (HttpSession_new ''h'' 1)) game_world_new = Inr (s', game_world_new) \<and>
     map rs_body (writes s') =
       [''UwU Kawaiiiiiiii!'' @ newline @ ''Params: {'' @ param_line ''a'' ''1'' @ newline @ ''}'']"
proof -
  let ?s = "HttpSession_Run (HttpSession_new ''h'' 1) :: (nat, game_ws_handler) http_session"
  obtain rm where rm: "TestListener_routes (lib_verbs query_lib) readable_bytes sorted_list_of_set = Inr rm"
    by (simp add: TestListener_routes_eq)
  have "distinct_verbs (lib_verbs query_lib)"
    by (simp add: query_lib_def sample_lib_def distinct_verbs_def numbered_verbs_def)
  moreover have "\<not> is_upgrade query_lib test_request"
    and "rq_method test_request = verb_get (lib_verbs query_lib)"
    by (simp_all add: query_lib_def test_request_def sample_defs numbered_verbs_def)
  moreover have "request_uri query_lib test_request ?s = Some ''http://h:1/test''"
    and "uri_path query_lib ''http://h:1/test'' = ''/test''" and "query_parses query_lib ''http://h:1/test''"
    by (simp_all add: query_lib_def test_request_def sample_defs)
  moreover have "parser ?s" by (simp add: HttpSession_defs)
  ultimately obtain s' where read: "HttpSession_OnRead query_lib rm (Got_request test_request) ?s
      game_world_new = Inr (s', game_world_new)"
    and w: "map rs_body (writes s') = map rs_body (writes ?s @ [prepare_payload query_lib
      \<lparr>rs_status = 200, rs_version = rq_version test_request, rs_keep_alive = rq_keep_alive test_request,
       rs_fields = [''Server'' \<mapsto> server_version, ''Content-Type'' \<mapsto> ''text/plain; charset=utf-8''],
       rs_body = ''UwU Kawaiiiiiiii!'' @ newline @ ''Params: {'' @
         concat (map (\<lambda>k. param_line k (case the (map_of (encoded_params query_lib ''http://h:1/test'') k)
             of Some v \<Rightarrow> v | None \<Rightarrow> ''''))
           (sorted_list_of_set (fst ` set (encoded_params query_lib ''http://h:1/test'') - {''''}))) @
         newline @ ''}''\<rparr>])"
    using SimpleGame_get_test [OF _ rm _ _ _ _ _ _ refl lists_keys_sorted, of ?s test_request
        "''http://h:1/test''" game_world_new] by auto
  have "encoded_params query_lib u = [(''a'', Some ''1''), ('''', Some ''x''), (''a'', Some ''2'')]"
    and "prepare_payload query_lib r = r" for u r
    by (simp_all add: query_lib_def sample_lib_def)
  moreover from this(1) have "fst ` set (encoded_params query_lib u) - {''''} = {''a''}" for u by auto
  moreover have "writes ?s = []" by (simp add: HttpSession_defs)
  ultimately have "map rs_body (writes s') =
      [''UwU Kawaiiiiiiii!'' @ newline @ ''Params: {'' @ param_line ''a'' ''1'' @ newline @ ''}'']"
    using w by simp
  then show ?thesis by (intro exI conjI) (rule rm, rule read)
qed

end
