(* ===== verification/Game_Delivery.thy ===== *)
theory Game_Delivery
  imports Simple_Game "HOL-Library.Sublist"
begin

text \<open>
  From one client to the others: what the simple game server (\<open>apps/simple_game/beast.cpp\<close>)
  starts to send on a websocket is never dropped by any later step, other than a write that
  fails; and the request by which one client posts a state to the others.
\<close>

section \<open>The wire of a session\<close>

text \<open>What the client of a session was sent, and what is still under way to it.\<close>

definition session_object :: "('v, 'b) game_world \<Rightarrow> nat \<Rightarrow> ('v, 'b, game_ws_handler) ws_session option" where
  "session_object w sid = (case ws_sessions w sid of Some s \<Rightarrow> Some s | None \<Rightarrow> ws_ended w sid)"

definition client_sent :: "('v, 'b) game_world \<Rightarrow> nat \<Rightarrow> (bool \<times> string) list" where
  "client_sent w sid = (case session_object w sid of None \<Rightarrow> [] | Some s \<Rightarrow> ws_sent s)"

definition wire :: "('v, 'b) game_world \<Rightarrow> nat \<Rightarrow> (bool \<times> string) list" where
  "wire w sid = (case session_object w sid of None \<Rightarrow> [] | Some s \<Rightarrow> ws_sent s @ ws_writing s)"

text \<open>A destroyed session has nothing under way.\<close>

definition ended_idle :: "('v, 'b) game_world \<Rightarrow> nat \<Rightarrow> bool" where
  "ended_idle w sid \<longleftrightarrow> ws_sessions w sid \<noteq> None \<or> (\<forall>s. ws_ended w sid = Some s \<longrightarrow> ws_writing s = [])"

text \<open>Nothing on the wire of \<open>sid\<close> is lost, and its number is not given to another session.\<close>

definition keeps_wire :: "nat \<Rightarrow> ('v, 'b) game_world \<Rightarrow> ('v, 'b) game_world \<Rightarrow> bool" where
  "keeps_wire sid w w' \<longleftrightarrow> prefix (wire w sid) (wire w' sid) \<and> ws_next w \<le> ws_next w' \<and>
     (ended_idle w sid \<longrightarrow> ended_idle w' sid)"

lemma ended_idle_app [simp]: "ended_idle (w\<lparr>app := a\<rparr>) sid = ended_idle w sid"
  by (simp add: ended_idle_def)

lemma ended_idle_put: "ended_idle w sid \<Longrightarrow> ended_idle (put_session j s w) sid"
  by (simp add: ended_idle_def)

lemma ended_idle_release: "ended_idle w sid \<Longrightarrow> ended_idle (release holds j w) sid"
  by (auto simp: ended_idle_def release_def busy_def WebSocketSession_Close_def split: option.splits)

lemma keeps_wire_refl [simp]: "keeps_wire sid w w"
  by (simp add: keeps_wire_def)

lemma keeps_wire_trans: "keeps_wire sid u v \<Longrightarrow> keeps_wire sid v w \<Longrightarrow> keeps_wire sid u w"
  by (auto simp: keeps_wire_def intro: prefix_order.trans)

lemma wire_app [simp]: "wire (w\<lparr>app := a\<rparr>) sid = wire w sid"
  by (simp add: wire_def session_object_def cong: option.case_cong)

lemma keeps_wire_app [simp]:
  "keeps_wire sid w (w'\<lparr>app := a\<rparr>) = keeps_wire sid w w'"
  "keeps_wire sid (w\<lparr>app := a\<rparr>) w' = keeps_wire sid w w'"
  by (simp_all add: keeps_wire_def)

lemma keeps_wire_put:
  assumes "ws_sessions w j = Some s"
    and "j = sid \<Longrightarrow> prefix (ws_sent s @ ws_writing s) (ws_sent s' @ ws_writing s')"
  shows "keeps_wire sid w (put_session j s' w)"
  using assms
  by (auto simp: keeps_wire_def wire_def session_object_def ended_idle_put cong: option.case_cong)

lemma keeps_wire_Send:
  assumes "on_session j (WebSocketSession_Send fb d) w = Inr w'"
  shows "keeps_wire sid w w'"
proof -
  obtain s where "ws_sessions w j = Some s" and "w' = put_session j (WebSocketSession_Send fb d s) w"
    using assms by (auto simp: on_session_def res_eq)
  then show ?thesis using keeps_wire_put [of w j s] by (simp add: Send_defs)
qed

lemma wire_release [simp]: "wire (release holds j w) sid = wire w sid"
  by (auto simp: release_def wire_def session_object_def WebSocketSession_Close_def split: option.split)

lemma keeps_wire_release [intro]: "keeps_wire sid w w' \<Longrightarrow> keeps_wire sid w (release holds j w')"
proof -
  have "ws_next (release holds j w') = ws_next w'" by (simp add: release_def split: option.split)
  then show "keeps_wire sid w w' \<Longrightarrow> keeps_wire sid w (release holds j w')"
    by (simp add: keeps_wire_def ended_idle_release)
qed

lemma keeps_wire_start:
  assumes "sid < ws_next w"
  shows "keeps_wire sid w (start_session fb req ps h remote local_end w)"
  using assms
  by (auto simp: keeps_wire_def wire_def session_object_def start_session_def ended_idle_def
      cong: option.case_cong)

lemma keeps_wire_erase [simp]: "keeps_wire sid w (erase_ctx u w') = keeps_wire sid w w'"
  by (simp add: erase_ctx_def)

section \<open>Every step keeps the wires\<close>

lemma keeps_wire_broadcast:
  assumes "broadcast_ctx fb ps u w = Inr w'"
  shows "keeps_wire sid w w'"
proof (cases "case ps of None \<Rightarrow> None | Some m \<Rightarrow> m ''delay''")
  case None
  with assms show ?thesis
    by (auto simp: broadcast_ctx_def res_eq intro: keeps_wire_Send split: option.splits cong: option.case_cong)
next
  case (Some v)
  with assms show ?thesis
    by (auto simp: broadcast_ctx_def res_eq split: option.splits cong: option.case_cong)
qed

lemma keeps_wire_broadcasts: "fold_res (broadcast_ctx fb ps) ks w = Inr w' \<Longrightarrow> keeps_wire sid w w'"
proof (induction ks arbitrary: w)
  case (Cons k ks)
  then obtain w1 where "broadcast_ctx fb ps k w = Inr w1" "fold_res (broadcast_ctx fb ps) ks w1 = Inr w'"
    by (auto simp: res_eq)
  with Cons.IH show ?case by (blast intro: keeps_wire_trans keeps_wire_broadcast)
qed simp

lemma keeps_wire_callback:
  assumes "cb = get_test order \<or> cb = post_set_state fb order" and "cb req ps r w = Inr (r', w')"
  shows "keeps_wire sid w w'"
  using assms(1)
proof
  assume "cb = get_test order"
  with assms(2) show ?thesis by (auto simp: get_test_def Let_def)
next
  assume "cb = post_set_state fb order"
  with assms(2) have "fold_res (broadcast_ctx fb ps) (order (dom (ctxs (app w))))
      (w\<lparr>app := (app w)\<lparr>state := rq_body req\<rparr>\<rparr>) = Inr w'"
    by (auto simp: post_set_state_def Let_def res_eq)
  from keeps_wire_broadcasts [OF this, of sid] show ?thesis by simp
qed

text \<open>A handler only sends, or does not touch any session.\<close>

lemma keeps_wire_receive:
  assumes "game_on_receive fb j msg n b w = Inr w'"
  shows "keeps_wire sid w w'"
  using assms by (auto simp: game_on_receive_def res_eq intro: keeps_wire_Send split: option.splits)

lemma keeps_wire_finish:
  assumes "ws_sessions w (event_session e) = Some s" and "started e s"
    and "\<And>c. e \<noteq> Ws_wrote sid (Some c)"
  shows "keeps_wire sid w (put_session (event_session e) (ws_finish fb e s) w)"
proof (rule keeps_wire_put [OF assms(1)])
  assume "event_session e = sid"
  with assms(2,3) show "prefix (ws_sent s @ ws_writing s)
      (ws_sent (ws_finish fb e s) @ ws_writing (ws_finish fb e s))"
    by (cases e) (auto simp: Let_def started_def split: ws_read_result.split)
qed

lemma keeps_wire_on_session:
  assumes "on_session j f w = Inr w'" and "\<And>s. ws_sent (f s) = ws_sent s \<and> ws_writing (f s) = ws_writing s"
  shows "keeps_wire sid w w'"
proof -
  obtain s where "ws_sessions w j = Some s" and "w' = put_session j (f s) w"
    using assms(1) by (auto simp: on_session_def res_eq)
  then show ?thesis using keeps_wire_put [of w j s] assms(2) by simp
qed

lemma keeps_wire_call:
  assumes "ws_call fb (game_handlers fb h) e n w = Inr w'"
  shows "keeps_wire sid w w'"
proof (cases e)
  case (Ws_accepted j ec)
  show ?thesis
  proof (cases ec)
    case None
    with Ws_accepted assms obtain s key w1 where s: "ws_sessions w j = Some s"
      and con: "game_on_connect j (put_session j (s\<lparr>ctx := (ctx s)\<lparr>ctx_ws_session := Some j, ctx_uuid := key\<rparr>\<rparr>) w) = Inr w1"
      and rd: "on_session j WebSocketSession_Read w1 = Inr w'"
      by (auto simp: WebSocketSession_OnAccept_def res_eq split: option.splits)
    have "keeps_wire sid w w1"
      using con keeps_wire_put [OF s] by (auto simp: game_on_connect_def)
    moreover have "keeps_wire sid w1 w'"
      by (rule keeps_wire_on_session [OF rd]) (simp add: WebSocketSession_Read_def)
    ultimately show ?thesis by (rule keeps_wire_trans)
  qed (use Ws_accepted assms in \<open>simp add: WebSocketSession_OnAccept_def\<close>)
next
  case (Ws_read j result)
  show ?thesis
  proof (cases result)
    case (Got_message m t)
    with Ws_read assms obtain s p w1 where s: "ws_sessions w j = Some s"
      and rec: "game_on_receive fb j p (length p) (\<not> t) (put_session j (s\<lparr>ws_text := t\<rparr>) w) = Inr w1"
      and rd: "on_session j (\<lambda>s. WebSocketSession_Read
        (s\<lparr>ws_buffer := fb_consume fb (length p) (ws_buffer s)\<rparr>)) w1 = Inr w'"
      by (auto simp: WebSocketSession_OnRead_def res_eq Let_def)
    have "keeps_wire sid w (put_session j (s\<lparr>ws_text := t\<rparr>) w)" by (rule keeps_wire_put [OF s]) simp
    moreover note keeps_wire_receive [OF rec]
    moreover have "keeps_wire sid w1 w'"
      by (rule keeps_wire_on_session [OF rd]) (simp add: WebSocketSession_Read_def)
    ultimately show ?thesis by (blast intro: keeps_wire_trans)
  qed (use Ws_read assms in \<open>auto simp: WebSocketSession_OnRead_def game_on_disconnect_def res_eq\<close>)
next
  case (Ws_wrote j ec)
  with assms show ?thesis
    by (cases ec) (auto simp: WebSocketSession_OnWrite_def intro: keeps_wire_on_session)
qed

text \<open>The write to \<open>sid\<close> fails.\<close>

definition write_fails :: "nat \<Rightarrow> 'v server_event \<Rightarrow> bool" where
  "write_fails sid e \<longleftrightarrow> (\<exists>c. e = Ws (Ws_wrote sid (Some c)))"

lemma keeps_wire_step:
  assumes "server_step lib fb order srv e srv'" and "\<not> write_fails sid e"
    and "sid < ws_next (world srv)"
  shows "keeps_wire sid (world srv) (world srv')"
  using assms(1)
proof (cases rule: server_step.cases)
  case (connect k peer local_end)
  then show ?thesis by (simp add: TestListener_OnAccept_def)
next
  case (http k peer s rm x s' w')
  have w': "keeps_wire sid (world srv) w'"
  proof (rule http_step_world [OF http(5)])
    fix req ps r r' m p cb u u' m'
    assume "rm = Some m'" and "GetCallback m p m' = Some cb" and cb: "cb req ps r u = Inr (r', u')"
      and u: "keeps_wire sid (world srv) u"
    with http(4) have "cb = get_test order \<or> cb = post_set_state fb order"
      by (auto dest: routes_callback)
    from keeps_wire_callback [OF this cb] u show "keeps_wire sid (world srv) u'"
      by (blast intro: keeps_wire_trans)
  qed simp
  show ?thesis
  proof (cases "ws_started s'")
    case None
    with w' http(2) show ?thesis by (simp add: hand_over_def)
  next
    case (Some a)
    obtain req ps h where a: "a = (req, ps, h)" by (cases a)
    have "sid < ws_next w'" using w' assms(3) by (simp add: keeps_wire_def)
    from keeps_wire_trans [OF w' keeps_wire_start [OF this]] Some a http(2)
    show ?thesis by (simp add: hand_over_def)
  qed
next
  case (ws x w')
  from ws(3) obtain s where s: "ws_sessions (world srv) (event_session x) = Some s" and st: "started x s"
    by (auto simp: ws_enabled_def split: option.splits)
  with ws(5) obtain w1 n where call: "ws_call fb (game_handlers fb (ws_handler_ref s)) x n
      (put_session (event_session x) (ws_finish fb x s) (world srv)) = Inr w1"
    and w': "w' = release timer_sessions (event_session x) w1"
    by (auto simp: ws_complete_def res_eq Let_def)
  have "keeps_wire sid (world srv) (put_session (event_session x) (ws_finish fb x s) (world srv))"
    using assms(2) ws(1) by (intro keeps_wire_finish [OF s st]) (auto simp: write_fails_def)
  from keeps_wire_trans [OF this keeps_wire_call [OF call]] show ?thesis by (auto simp: ws(2) w')
next
  case (timer i w')
  then show ?thesis
    by (auto simp: timer_expired_def Let_def res_eq intro!: keeps_wire_release intro: keeps_wire_Send)
qed

interpretation wires: preserved "\<lambda>srv e srv'. server_step lib fb order srv e srv' \<and> \<not> write_fails sid e"
  "\<lambda>srv. sid < ws_next (world srv) \<and> ended_idle (world srv) sid \<and> prefix ms (wire (world srv) sid)"
  for lib fb order sid ms
proof unfold_locales
  fix srv e srv'
  assume "server_step lib fb order srv e srv' \<and> \<not> write_fails sid e"
    and inv: "sid < ws_next (world srv) \<and> ended_idle (world srv) sid \<and> prefix ms (wire (world srv) sid)"
  then have "keeps_wire sid (world srv) (world srv')" by (blast intro: keeps_wire_step)
  with inv show "sid < ws_next (world srv') \<and> ended_idle (world srv') sid \<and> prefix ms (wire (world srv') sid)"
    by (auto simp: keeps_wire_def intro: prefix_order.trans)
qed

lemma runs_keep_wire:
  assumes "runs (server_step lib fb order) srv es srv'" and "\<not> list_ex (write_fails sid) es"
    and "sid < ws_next (world srv)" and "ended_idle (world srv) sid"
  shows "prefix (wire (world srv) sid) (wire (world srv') sid) \<and> ended_idle (world srv') sid"
proof -
  have "runs (\<lambda>srv e srv'. server_step lib fb order srv e srv' \<and> \<not> write_fails sid e) srv es srv'"
    using assms(2) by (intro runs_restrict [OF assms(1)]) (auto simp: list_ex_iff)
  from wires.runs_preserve [OF this, of "wire (world srv) sid"] assms(3,4) show ?thesis by simp
qed

section \<open>Writes complete\<close>

text \<open>Its writes, completing one after the other, put all that is under way to a client on the wire.\<close>

lemma writes_drain:
  assumes "session_object (world srv) sid = Some s" and "ended_idle (world srv) sid"
  shows "\<exists>srv'. runs (server_step lib fb order) srv
      (replicate (length (ws_writing s)) (Ws (Ws_wrote sid None))) srv' \<and>
    client_sent (world srv') sid = wire (world srv) sid"
  using assms
proof (induction "length (ws_writing s)" arbitrary: s srv)
  case 0
  then have "client_sent (world srv) sid = wire (world srv) sid"
    by (simp add: client_sent_def wire_def)
  with 0 show ?case by simp
next
  case (Suc n)
  then have ne: "ws_writing s \<noteq> []" by auto
  with Suc.prems have s: "ws_sessions (world srv) sid = Some s"
    by (auto simp: session_object_def ended_idle_def split: option.splits)
  let ?w = "release timer_sessions sid (put_session sid (write_completed fb s) (world srv))"
  let ?t = "if ws_sessions ?w sid = None then WebSocketSession_Close (write_completed fb s) else write_completed fb s"
  have "ws_enabled (Ws_wrote sid None) (world srv)" "handshake_checked (Ws_wrote sid None) (world srv)"
    using s ne by (simp_all add: ws_enabled_def started_def handshake_checked_def)
  from server_step.ws [OF this ws_complete_wrote [OF s ne]]
  have step: "server_step lib fb order srv (Ws (Ws_wrote sid None)) (srv\<lparr>world := ?w\<rparr>)" .
  obtain m ms where ms: "ws_writing s = m # ms" "n = length ms"
    using Suc.hyps(2) by (cases "ws_writing s") auto
  then have len: "n = length (ws_writing ?t)" and live: "session_object ?w sid = Some ?t"
    using ms
    by (auto simp: session_object_def release_def write_completed_def WebSocketSession_Close_def)
  have dead: "ended_idle ?w sid"
    by (intro ended_idle_release ended_idle_put) (use s in \<open>simp add: ended_idle_def\<close>)
  have "wire ?w sid = wire (put_session sid (write_completed fb s) (world srv)) sid" by (rule wire_release)
  also have "\<dots> = wire (world srv) sid"
    using s ne by (simp add: wire_def session_object_def write_completed_def)
  finally have wire: "wire ?w sid = wire (world srv) sid" .
  from Suc.hyps(1) [OF len, of "srv\<lparr>world := ?w\<rparr>"] live dead obtain srv'
    where rest: "runs (server_step lib fb order) (srv\<lparr>world := ?w\<rparr>)
        (replicate n (Ws (Ws_wrote sid None))) srv'"
      and "client_sent (world srv') sid = wire ?w sid" by (auto simp: len [symmetric])
  with wire have "client_sent (world srv') sid = wire (world srv) sid" by simp
  moreover have "runs (server_step lib fb order) srv
      (replicate (length (ws_writing s)) (Ws (Ws_wrote sid None))) srv'"
    using step rest Suc.hyps(2) by (auto simp flip: Suc.hyps(2) simp: runs_Cons_iff)
  ultimately show ?case by blast
qed

section \<open>A posted state\<close>

text \<open>The request the route of \<open>POST /test/set_state\<close> takes, without a delay.\<close>

definition sets_state_now ::
  "('v, 'u) http_lib \<Rightarrow> 'v request \<Rightarrow> ('v, game_ws_handler) http_session \<Rightarrow> bool" where
  "sets_state_now lib req s \<longleftrightarrow> \<not> is_upgrade lib req \<and> rq_method req = verb_post (lib_verbs lib) \<and>
     (case request_uri lib req s of None \<Rightarrow> False | Some u \<Rightarrow> uri_path lib u = ''/test/set_state'' \<and>
       (case ParseQuery lib u of None \<Rightarrow> None | Some m \<Rightarrow> m ''delay'') = None)"

lemma post_read:
  assumes "distinct_verbs (lib_verbs lib)" and "lists_keys order"
    and inv: "sessions_inv fb {} (world srv)" "registry_inv (world srv)"
    and rm: "TestListener_routes (lib_verbs lib) fb order = Inr rm"
    and "parser s" and "ws_started s = None" and "sets_state_now lib req s"
  shows "\<exists>s'. HttpSession_OnRead lib rm (Got_request req) (s\<lparr>reads := rs\<rparr>) (world srv) =
      Inr (s', sent_to fb (rq_body req) (dom (ctxs (app (world srv))))
        ((world srv)\<lparr>app := (app (world srv))\<lparr>state := rq_body req\<rparr>\<rparr>)) \<and>
    ws_started s' = None"
proof -
  from assms(8) obtain u where u: "request_uri lib req s = Some u" "uri_path lib u = ''/test/set_state''"
    "(case ParseQuery lib u of None \<Rightarrow> None | Some m \<Rightarrow> m ''delay'') = None"
    by (auto simp: sets_state_now_def split: option.splits)
  have "ConvertVerbBeast_to_method (lib_verbs lib) (verb_get (lib_verbs lib)) = GET"
    "ConvertVerbBeast_to_method (lib_verbs lib) (verb_post (lib_verbs lib)) = POST"
    using assms(1) by (auto simp: ConvertVerb_defs distinct_verbs_def)
  with rm obtain rm' where rm': "rm = Some rm'"
    and cb: "GetCallback POST ''/test/set_state'' rm' = Some (post_set_state fb order)"
    by (auto simp: TestListener_routes_eq GetCallback_AddCallbackInternal)
  have "request_method lib req = POST"
    using assms(1,8) by (auto simp: sets_state_now_def request_method_def ConvertVerb_defs distinct_verbs_def)
  moreover have "request_uri lib req (s\<lparr>reads := rs\<rparr>) = Some u" using u(1) by (simp add: request_uri_def)
  moreover have "\<not> is_upgrade lib req" using assms(8) by (simp add: sets_state_now_def)
  ultimately have "HttpSession_OnRequest lib rm req (s\<lparr>reads := rs\<rparr>) (world srv) =
      bind_res (post_set_state fb order req (ParseQuery lib u) (fresh_response req) (world srv))
        (\<lambda>(r, w'). Inr (replied lib r (s\<lparr>reads := rs\<rparr>), w'))"
    using cb u(2) by (simp add: OnRequest_eq rm')
  with assms(6,7) post_set_state_eq [OF assms(2) inv, of req "ParseQuery lib u" "fresh_response req"] u(3)
  show ?thesis by (auto simp: HttpSession_OnRead_def Let_def replied_def)
qed

text \<open>A registered client, and another one that posts the state \<open>X\<close>.\<close>

definition two_clients :: "(nat, string) game_server" where
  "two_clients = TestListener_OnAccept 1 (''q'', 3) (''h'', 1) (joined ''k1'')"

definition set_state_request :: "nat request" where
  "set_state_request = (sample_request ''/test/set_state'' True)\<lparr>rq_method := verb_post numbered_verbs, rq_body := ''X''\<rparr>"

lemma two_clients_runs:
  "runs sample_step game_server_new (join_events ''k1'' @ [Connect 1 (''q'', 3) (''h'', 1)]) two_clients"
proof -
  have "sample_step (joined ''k1'') (Connect 1 (''q'', 3) (''h'', 1)) two_clients"
    unfolding two_clients_def by (rule server_step.connect) (simp add: joined_def)
  with join_runs show ?thesis by (auto simp: runs_append runs_Cons_iff)
qed

lemma set_state_request_sets:
  "sets_state_now sample_lib set_state_request (HttpSession_Run (HttpSession_new ''h'' 1))"
  by (simp add: sets_state_now_def set_state_request_def sample_defs ParseQuery_def)

end
