(* ===== verification/Game_Room.thy ===== *)
theory Game_Room
  imports Game_Delivery Write_Buffers
begin

text \<open>
  What the simple game server (\<open>apps/simple_game/beast.cpp\<close>) is for its clients: a room with a
  shared state, in which every message is answered by an echo and a posted state is told to
  all members, at once or when a timer is due. The server's steps are those of the room, and
  the writes a step starts are what the room says in it.
\<close>

section \<open>The room\<close>

text \<open>Members have a name and a number, which is that of their session; \<open>pending\<close> are the
  members that are told the state later.\<close>

record room =
  room_state :: string
  members :: "string \<rightharpoonup> nat"
  pending :: "nat list"

datatype room_event =
    Joins string nat
  | Leaves string
  | Posts string bool
  | Says nat string
  | Due nat
  | Quiet

fun room_next :: "(string set \<Rightarrow> string list) \<Rightarrow> room_event \<Rightarrow> room \<Rightarrow> room" where
  "room_next order (Joins u c) r = r\<lparr>members := (members r)(u \<mapsto> c)\<rparr>"
| "room_next order (Leaves u) r = r\<lparr>members := (members r)(u := None)\<rparr>"
| "room_next order (Posts d later) r = r\<lparr>room_state := d,
     pending := pending r @ (if later then map (\<lambda>u. the (members r u)) (order (dom (members r))) else [])\<rparr>"
| "room_next order (Due i) r = r\<lparr>pending := take i (pending r) @ drop (Suc i) (pending r)\<rparr>"
| "room_next order _ r = r"

text \<open>What a member is told.\<close>

fun told :: "room_event \<Rightarrow> room \<Rightarrow> nat \<Rightarrow> string option" where
  "told (Posts d later) r c = (if \<not> later \<and> c \<in> ran (members r) then Some d else None)"
| "told (Says c' m) r c = (if c = c' then Some (m @ '' UwU Kawaiiiiiiii!'') else None)"
| "told (Due i) r c = (if c = pending r ! i then Some (room_state r) else None)"
| "told _ r c = None"

section \<open>The server as a room\<close>

definition room_of :: "('v, 'b) game_world \<Rightarrow> room" where
  "room_of w = \<lparr>room_state = state (app w), members = ctxs (app w), pending = timer_sessions (app w)\<rparr>"

text \<open>What a completed read of a request means for the room.\<close>

definition request_event ::
  "('v, 'u) http_lib \<Rightarrow> 'v request \<Rightarrow> ('v, game_ws_handler) http_session \<Rightarrow> room_event" where
  "request_event lib req s =
     (case request_uri lib req s of
        None \<Rightarrow> Quiet
      | Some u \<Rightarrow>
          if \<not> is_upgrade lib req \<and> uri_path lib u = ''/test/set_state'' \<and>
             request_method lib req = ConvertVerbBeast_to_method (lib_verbs lib) (verb_post (lib_verbs lib))
          then Posts (rq_body req) ((case ParseQuery lib u of None \<Rightarrow> None | Some m \<Rightarrow> m ''delay'') \<noteq> None)
          else Quiet)"

fun session_event :: "ws_event \<Rightarrow> ('v, 'b) game_world \<Rightarrow> room_event" where
  "session_event (Ws_accepted sid ec) w =
     (case (ec, ws_sessions w sid) of
        (None, Some s) \<Rightarrow> (case rq_fields (ws_req s) ''Sec-WebSocket-Key'' of
            Some key \<Rightarrow> Joins key sid | None \<Rightarrow> Quiet)
      | _ \<Rightarrow> Quiet)"
| "session_event (Ws_read sid result) w =
     (case (result, ws_sessions w sid) of
        (Got_message m t, _) \<Rightarrow> Says sid m
      | (Closed, Some s) \<Rightarrow> Leaves (ctx_uuid (ctx s))
      | _ \<Rightarrow> Quiet)"
| "session_event (Ws_wrote sid ec) w = Quiet"

definition game_event ::
  "('v, 'u) http_lib \<Rightarrow> 'v server_event \<Rightarrow> ('v, 'b) game_server \<Rightarrow> room_event" where
  "game_event lib e srv =
     (case e of
        Http k (Read_done (Got_request req)) \<Rightarrow>
          (case http_sessions srv k of None \<Rightarrow> Quiet | Some (peer, s) \<Rightarrow> request_event lib req s)
      | Ws x \<Rightarrow> session_event x (world srv)
      | Timer i \<Rightarrow> Due i
      | _ \<Rightarrow> Quiet)"

section \<open>Mail\<close>

text \<open>
  What a member was sent, the messages whose writes are under way to it, and what the write
  buffer of its session holds. A destroyed session keeps its mail.
\<close>

record mail =
  sent_mail :: "string list"
  under_way :: "string list"
  held :: string

definition no_mail :: mail where
  "no_mail = \<lparr>sent_mail = [], under_way = [], held = ''''\<rparr>"

definition session_mail :: "'b flat_buffer_ops \<Rightarrow> ('v, 'b, game_ws_handler) ws_session \<Rightarrow> mail" where
  "session_mail fb s = \<lparr>sent_mail = map snd (ws_sent s), under_way = map snd (ws_writing s),
     held = fb_data fb (ws_write_buf s)\<rparr>"

definition mail_of :: "'b flat_buffer_ops \<Rightarrow> ('v, 'b) game_world \<Rightarrow> nat \<Rightarrow> mail option" where
  "mail_of fb w sid = map_option (session_mail fb) (session_object w sid)"

text \<open>A write ends; a member is told something, which goes behind what its buffer holds.\<close>

fun mail_wrote :: "ws_event \<Rightarrow> nat \<Rightarrow> mail \<Rightarrow> mail" where
  "mail_wrote (Ws_wrote sid ec) c m =
     (if c \<noteq> sid then m
      else if ec = None
      then m\<lparr>sent_mail := sent_mail m @ [hd (under_way m)], under_way := tl (under_way m),
        held := drop (length (hd (under_way m))) (held m)\<rparr>
      else m\<lparr>under_way := tl (under_way m)\<rparr>)"
| "mail_wrote _ c m = m"

definition mail_event :: "'v server_event \<Rightarrow> nat \<Rightarrow> mail \<Rightarrow> mail" where
  "mail_event e = (case e of Ws x \<Rightarrow> mail_wrote x | _ \<Rightarrow> (\<lambda>c m. m))"

definition mail_told :: "string option \<Rightarrow> mail \<Rightarrow> mail" where
  "mail_told t m = (case t of None \<Rightarrow> m
     | Some d \<Rightarrow> m\<lparr>under_way := under_way m @ [held m @ d], held := held m @ d\<rparr>)"

text \<open>
  Every member's mail changes by the write that ends, \<open>D\<close>, and by what it is told, \<open>out\<close>. A
  step of the server may also start a session, whose mail is empty.
\<close>

definition mails ::
  "'b flat_buffer_ops \<Rightarrow> (nat \<Rightarrow> mail \<Rightarrow> mail) \<Rightarrow> (nat \<Rightarrow> string option) \<Rightarrow>
     ('v, 'b) game_world \<Rightarrow> ('v, 'b) game_world \<Rightarrow> bool" where
  "mails fb D out w w' \<longleftrightarrow> (\<forall>sid. case mail_of fb w sid of
       Some m \<Rightarrow> mail_of fb w' sid = Some (mail_told (out sid) (D sid m))
     | None \<Rightarrow> out sid = None \<and> mail_of fb w' sid \<in> {None, Some no_mail})"

definition same_mail_boxes :: "('v, 'b) game_world \<Rightarrow> ('v, 'b) game_world \<Rightarrow> bool" where
  "same_mail_boxes w w' \<longleftrightarrow> ws_next w' = ws_next w \<and> dom (session_object w') = dom (session_object w)"

text \<open>Numbers are given in ascending order.\<close>

definition numbered :: "('v, 'b) game_world \<Rightarrow> bool" where
  "numbered w \<longleftrightarrow> dom (session_object w) \<subseteq> {..<ws_next w}"

lemma session_object_live: "ws_sessions w sid = Some s \<Longrightarrow> session_object w sid = Some s"
  by (simp add: session_object_def)

lemma session_object_sel [simp]:
  "session_object (put_session sid s w) = (session_object w)(sid \<mapsto> s)"
  "session_object (w\<lparr>app := a\<rparr>) = session_object w"
  "session_object (erase_ctx u w) = session_object w"
  "session_object (start_session fb req ps h peer l w) =
     (session_object w)(ws_next w \<mapsto> WebSocketSession_Run peer l (WebSocketSession_new fb req ps h))"
  by (auto simp: session_object_def start_session_def fun_eq_iff cong: option.case_cong)

lemma mail_of_sel [simp]:
  "mail_of fb (put_session sid s w) = (mail_of fb w)(sid \<mapsto> session_mail fb s)"
  "mail_of fb (w\<lparr>app := a\<rparr>) = mail_of fb w"
  "mail_of fb (erase_ctx u w) = mail_of fb w"
  by (auto simp: mail_of_def fun_eq_iff)

lemma mail_of_release [simp]: "mail_of fb (release holds sid w) = mail_of fb w"
  by (auto simp: mail_of_def session_object_def release_def session_mail_def WebSocketSession_Close_def
      fun_eq_iff split: option.splits)

lemma mail_of_start:
  "flat_buffer fb \<Longrightarrow> mail_of fb (start_session fb req ps h peer l w) = (mail_of fb w)(ws_next w \<mapsto> no_mail)"
  by (auto simp: mail_of_def session_mail_def no_mail_def WebSocketSession_Run_def WebSocketSession_new_def
      fun_eq_iff flat_buffer.data_empty)

lemma mails_nothing:
  "mail_of fb w' = mail_of fb w \<Longrightarrow> (\<And>sid. out sid = None) \<Longrightarrow> mails fb (\<lambda>c m. m) out w w'"
  by (auto simp: mails_def mail_told_def split: option.split)

text \<open>One session changes.\<close>

lemma mails_one:
  assumes "ws_sessions w sid = Some s" and "mail_of fb w' = (mail_of fb w)(sid \<mapsto> m)"
    and "\<And>c. c \<noteq> sid \<Longrightarrow> out c = None" and "\<And>c m. c \<noteq> sid \<Longrightarrow> D c m = m"
    and "m = mail_told (out sid) (D sid (session_mail fb s))"
  shows "mails fb D out w w'"
  using assms
  by (auto simp: mails_def mail_told_def mail_of_def session_object_live split: option.split)

lemma same_boxes_sel [simp]:
  "same_mail_boxes w (w'\<lparr>app := a\<rparr>) = same_mail_boxes w w'"
  "same_mail_boxes w (erase_ctx u w') = same_mail_boxes w w'"
  "same_mail_boxes w (release holds sid w') = same_mail_boxes w w'"
  "same_mail_boxes w w"
proof -
  have "dom (session_object (release holds sid w')) = dom (session_object w')"
    by (auto simp: session_object_def release_def split: option.splits if_splits)
  moreover have "ws_next (release holds sid w') = ws_next w'" by (simp add: release_def split: option.split)
  ultimately show "same_mail_boxes w (release holds sid w') = same_mail_boxes w w'"
    by (simp add: same_mail_boxes_def)
qed (simp_all add: same_mail_boxes_def)

lemma same_boxes_put:
  assumes "ws_sessions w sid = Some s" and "ws_sessions w' sid \<noteq> None"
  shows "same_mail_boxes w (put_session sid t w') = same_mail_boxes w w'"
proof -
  from assms(2) obtain s' where "session_object w' sid = Some s'" by (auto dest: session_object_live)
  then show ?thesis by (simp add: same_mail_boxes_def insert_absorb domI)
qed

lemma room_of_sel [simp]:
  "room_of (put_session sid s w) = room_of w"
  "room_of (release timer_sessions sid w) = room_of w"
  "room_of (start_session fb req ps h peer l w) = room_of w"
  by (auto simp: room_of_def release_def start_session_def split: option.splits)

lemma room_of_erase: "room_of (erase_ctx u w) = room_next order (Leaves u) (room_of w)"
  by (auto simp: room_of_def erase_ctx_def umap_erase_def umap_count_def timer_sessions_def fun_upd_idem_iff
      split: option.splits)

section \<open>Every step is a step of the room\<close>

lemma completion_in_room:
  assumes "flat_buffer fb" and inv: "sessions_inv fb {} w"
    and en: "ws_enabled e w" and hs: "handshake_checked e w"
    and w': "ws_complete fb (game_handlers fb) timer_sessions e w = Inr w'"
  shows "room_of w' = room_next order (session_event e w) (room_of w) \<and>
    mails fb (mail_wrote e) (told (session_event e w) (room_of w)) w w' \<and> same_mail_boxes w w'"
proof -
  from en obtain s where s: "ws_sessions w (event_session e) = Some s" and st: "started e s"
    by (auto simp: ws_enabled_def split: option.splits)
  show ?thesis
  proof (cases e)
    case (Ws_accepted sid ec)
    then have sid: "ws_sessions w sid = Some s" using s by simp
    show ?thesis
    proof (cases ec)
      case None
      then obtain key where key: "rq_fields (ws_req s) ''Sec-WebSocket-Key'' = Some key"
        using hs sid Ws_accepted by (auto simp: handshake_checked_def)
      with game_accepted [OF sid key, of fb] w' Ws_accepted None sid show ?thesis
        by (auto simp: room_of_def timer_sessions_def mail_told_def session_mail_def same_boxes_put [OF sid] intro!: mails_one [OF sid])
    next
      case (Some c)
      with game_accept_failed [OF sid, of fb c] w' Ws_accepted sid show ?thesis
        by (auto simp: mail_told_def session_mail_def same_boxes_put [OF sid] intro!: mails_one [OF sid])
    qed
  next
    case (Ws_read sid result)
    then have sid: "ws_sessions w sid = Some s" and r: "ws_reading s \<noteq> 0"
      using s st by (auto simp: started_def)
    show ?thesis
    proof (cases result)
      case (Got_message m t)
      with game_message [OF assms(1) inv sid r, of m t] w' Ws_read sid show ?thesis
        by (auto simp: echoed_def Send_defs flat_buffer.data_append [OF assms(1)] mail_told_def
            session_mail_def same_boxes_put [OF sid] intro!: mails_one [OF sid])
    next
      case Closed
      with game_closed [OF sid, of fb] w' Ws_read sid show ?thesis
        by (auto simp: room_of_erase [of _ _ order] mail_told_def session_mail_def
            same_boxes_put [OF sid] intro!: mails_one [OF sid])
    next
      case (Ws_read_failed c)
      with game_read_failed [OF sid, of fb c] w' Ws_read sid show ?thesis
        by (auto simp: mail_told_def session_mail_def same_boxes_put [OF sid] intro!: mails_one [OF sid])
    qed
  next
    case (Ws_wrote sid ec)
    then have sid: "ws_sessions w sid = Some s" using s by simp
    have ne: "ws_writing s \<noteq> []" using st Ws_wrote by (simp add: started_def)
    from w' sid Ws_wrote obtain s' where "w' = release timer_sessions sid (put_session sid s' w)"
      and "s' = (if ec = None then write_completed fb s else ws_finish fb (Ws_wrote sid ec) s)"
      using ws_complete_wrote [OF sid ne, of fb "game_handlers fb" timer_sessions]
      by (cases ec) (auto simp: ws_complete_def WebSocketSession_OnWrite_def)
    with Ws_wrote ne sid show ?thesis
      by (auto simp: mail_told_def session_mail_def same_boxes_put [OF sid] write_completed_def map_tl
          hd_map flat_buffer.data_consume [OF assms(1)] intro!: mails_one [OF sid])
  qed
qed

lemma timer_in_room:
  assumes "flat_buffer fb" and "i < length (timers (app w))" and "timer_expired fb i w = Inr w'"
  shows "room_of w' = room_next order (Due i) (room_of w) \<and>
    mails fb (\<lambda>c m. m) (told (Due i) (room_of w)) w w' \<and> same_mail_boxes w w'"
proof -
  let ?sid = "fst (timers (app w) ! i)"
  from assms(3) obtain s where s: "ws_sessions w ?sid = Some s"
    and w': "w' = release timer_sessions ?sid ((put_session ?sid (WebSocketSession_Send fb (state (app w)) s) w)
      \<lparr>app := (app w)\<lparr>timers := take i (timers (app w)) @ drop (Suc i) (timers (app w))\<rparr>\<rparr>)"
    by (auto simp: timer_expired_def Let_def res_eq on_session_def)
  have sid: "pending (room_of w) ! i = ?sid" using assms(2) by (simp add: room_of_def timer_sessions_def)
  have "mails fb (\<lambda>c m. m) (told (Due i) (room_of w)) w w' \<and> same_mail_boxes w w'"
    unfolding w' using sid
    by (auto simp: Send_defs flat_buffer.data_append [OF assms(1)] room_of_def mail_told_def session_mail_def
        same_boxes_put [OF s] s intro!: mails_one [OF s])
  moreover have "room_of w' = room_next order (Due i) (room_of w)"
    unfolding w' by (simp only: room_of_sel) (simp add: room_of_def timer_sessions_def take_map drop_map)
  ultimately show ?thesis by blast
qed

lemma routes_callback_cases:
  assumes "TestListener_routes verbs fb order = Inr (Some rm)" and "GetCallback m p rm = Some cb"
  shows "cb = (if p = ''/test/set_state'' \<and> m = ConvertVerbBeast_to_method verbs (verb_post verbs)
    then post_set_state fb order else get_test order)"
  using assms by (auto simp: TestListener_routes_eq GetCallback_AddCallbackInternal split: if_splits)

lemma routes_post:
  assumes "TestListener_routes verbs fb order = Inr (Some rm)"
  shows "GetCallback (ConvertVerbBeast_to_method verbs (verb_post verbs)) ''/test/set_state'' rm =
    Some (post_set_state fb order)"
  using assms by (auto simp: TestListener_routes_eq GetCallback_AddCallbackInternal)

lemma members_live: "registry_inv w \<Longrightarrow> ws_sessions w sid = None \<Longrightarrow> ctxs (app w) u \<noteq> Some sid"
  using registered by fastforce

lemma post_in_room:
  assumes "flat_buffer fb" and "lists_keys order" and inv: "sessions_inv fb {} w" "registry_inv w"
    and "post_set_state fb order req ps res w = Inr (res', w')"
  shows "room_of w' = room_next order (Posts (rq_body req)
      ((case ps of None \<Rightarrow> None | Some m \<Rightarrow> m ''delay'') \<noteq> None)) (room_of w) \<and>
    mails fb (\<lambda>c m. m) (told (Posts (rq_body req)
      ((case ps of None \<Rightarrow> None | Some m \<Rightarrow> m ''delay'') \<noteq> None)) (room_of w)) w w' \<and>
    same_mail_boxes w w'"
proof (cases "case ps of None \<Rightarrow> None | Some m \<Rightarrow> m ''delay''")
  case None
  then have "w' = sent_to fb (rq_body req) (dom (ctxs (app w))) (w\<lparr>app := (app w)\<lparr>state := rq_body req\<rparr>\<rparr>)"
    using assms(5) by (simp add: post_set_state_eq [OF assms(2) inv] Let_def)
  then have w': "room_of w' = (room_of w)\<lparr>room_state := rq_body req\<rparr>" "ws_next w' = ws_next w"
    "session_object w' sid = (if sid \<in> ran (ctxs (app w))
      then map_option (WebSocketSession_Send fb (rq_body req)) (session_object w sid) else session_object w sid)" for sid
    by (auto simp: members_live [OF inv(2)] room_of_def sent_to_def timer_sessions_def session_object_def ran_def split: option.split)
  have none: "sid \<notin> ran (ctxs (app w))" if "session_object w sid = None" for sid
    using that members_live [OF inv(2)] by (auto simp: session_object_def ran_def split: option.splits)
  have "mails fb (\<lambda>c m. m) (told (Posts (rq_body req) False) (room_of w)) w w'"
    using none
    by (auto simp: mails_def mail_of_def w'(3) room_of_def mail_told_def session_mail_def Send_defs
        flat_buffer.data_append [OF assms(1)] split: option.split)
  moreover have "same_mail_boxes w w'"
    unfolding same_mail_boxes_def using w'(2) by (auto simp: w'(3) split: if_splits)
  ultimately show ?thesis using None w'(1) by (simp add: room_of_def)
next
  case (Some v)
  then have "w' = w\<lparr>app := (app w)\<lparr>state := rq_body req, timers := timers (app w) @
      map (\<lambda>u. (the (ctxs (app w) u), parse_delay v)) (order (dom (ctxs (app w))))\<rparr>\<rparr>"
    using assms(5) by (simp add: post_set_state_eq [OF assms(2) inv] Let_def)
  with Some show ?thesis
    by (auto simp: room_of_def timer_sessions_def intro!: mails_nothing)
qed

lemma request_in_room:
  assumes "flat_buffer fb" and "lists_keys order" and inv: "sessions_inv fb {} w" "registry_inv w"
    and rm: "TestListener_routes (lib_verbs lib) fb order = Inr rm"
    and st: "http_step lib rm (s, w) (Read_done (Got_request req)) (s', w')"
  shows "room_of w' = room_next order (request_event lib req s) (room_of w) \<and>
    mails fb (\<lambda>c m. m) (told (request_event lib req s) (room_of w)) w w' \<and> same_mail_boxes w w'"
proof -
  obtain rm' where rm': "rm = Some rm'" using rm by (auto simp: TestListener_routes_eq)
  note rm = rm [unfolded rm']
  from st obtain rs where "HttpSession_OnRequest lib (Some rm') req (s\<lparr>reads := rs\<rparr>) w = Inr (s', w')"
    by (auto simp: http_read_iff HttpSession_OnRead_def rm' split: if_splits)
  then have read: "HttpSession_OnRequest lib (Some rm') req (s\<lparr>reads := rs\<rparr>) w = Inr (s', w')" .
  have uri: "request_uri lib req (s\<lparr>reads := rs\<rparr>) = request_uri lib req s" by (simp add: request_uri_def)
  have quiet: ?thesis if "w' = w" and "request_event lib req s = Quiet"
    using that by (auto intro: mails_nothing)
  show ?thesis
  proof (cases "request_uri lib req s")
    case None
    with read uri show ?thesis
      by (intro quiet) (auto simp: OnRequest_eq request_event_def split: option.splits)
  next
    case (Some u)
    show ?thesis
    proof (cases "is_upgrade lib req")
      case True
      with Some read uri show ?thesis
        by (intro quiet) (auto simp: OnRequest_eq request_event_def split: option.splits)
    next
      case False
      show ?thesis
      proof (cases "GetCallback (request_method lib req) (uri_path lib u) rm'")
        case None
        with Some False read uri routes_post [OF rm] show ?thesis
          by (intro quiet) (auto simp: OnRequest_eq request_event_def)
      next
        case cb: (Some cb)
        with Some False read uri obtain r where call: "cb req (ParseQuery lib u) (fresh_response req) w = Inr (r, w')"
          by (auto simp: OnRequest_eq res_eq)
        show ?thesis
        proof (cases "uri_path lib u = ''/test/set_state'' \<and>
            request_method lib req = ConvertVerbBeast_to_method (lib_verbs lib) (verb_post (lib_verbs lib))")
          case True
          with call routes_callback_cases [OF rm cb]
          have "post_set_state fb order req (ParseQuery lib u) (fresh_response req) w = Inr (r, w')" by simp
          from post_in_room [OF assms(1,2) inv this] True Some False show ?thesis
            by (simp add: request_event_def)
        next
          case no: False
          with call routes_callback_cases [OF rm cb]
          have "get_test order req (ParseQuery lib u) (fresh_response req) w = Inr (r, w')"
            by (auto split: if_splits)
          with no Some show ?thesis
            by (intro quiet) (auto simp: get_test_def Let_def request_event_def)
        qed
      qed
    qed
  qed
qed

lemma http_step_sessions:
  assumes "lists_keys order" and inv: "sessions_inv fb {} w" "registry_inv w"
    and rm: "TestListener_routes (lib_verbs lib) fb order = Inr rm"
    and st: "http_step lib rm (s, w) e (s', w')"
  shows "sessions_inv fb {} w' \<and> registry_inv w'"
proof (rule http_step_world [OF st])
  fix req ps r r' m p cb u u' m'
  assume "rm = Some m'" and "GetCallback m p m' = Some cb" and cb: "cb req ps r u = Inr (r', u')"
    and u: "sessions_inv fb {} u \<and> registry_inv u"
  with rm have "cb = get_test order \<or> cb = post_set_state fb order" by (auto dest: routes_callback)
  with cb u show "sessions_inv fb {} u' \<and> registry_inv u'"
    using post_set_state_inv [OF assms(1), of fb u req ps r r' u'] by (auto simp: get_test_def Let_def)
qed (use inv in simp)

text \<open>Other completions of an HTTP session, and handing its connection over, tell nothing.\<close>

lemma http_other_world:
  assumes "http_step lib rm (s, w) e (s', w')" and "\<And>req. e \<noteq> Read_done (Got_request req)"
  shows "w' = w"
  using assms by (cases rule: http_step.cases)
    (auto simp: HttpSession_OnRead_def split: read_result.splits)

lemma numbered_new: "numbered (world game_server_new)"
  by (simp add: numbered_def session_object_def [abs_def] game_server_new_def game_world_new_def)

lemma numbered_boxes: "same_mail_boxes w w' \<Longrightarrow> numbered w \<Longrightarrow> numbered w'"
  by (auto simp: numbered_def same_mail_boxes_def)

lemma numbered_fresh: "numbered w \<Longrightarrow> session_object w (ws_next w) = None"
  by (auto simp: numbered_def)

lemma mails_start:
  assumes "flat_buffer fb" and "numbered w" and "same_mail_boxes w w'" and "mails fb D out w w'"
  shows "mails fb D out w (start_session fb req ps h peer l w')"
proof -
  have "ws_next w' = ws_next w" and "mail_of fb w (ws_next w) = None"
    using assms(2,3) by (simp_all add: same_mail_boxes_def mail_of_def numbered_fresh)
  with assms(4) have "case mail_of fb w sid of
       Some m \<Rightarrow> mail_of fb (start_session fb req ps h peer l w') sid = Some (mail_told (out sid) (D sid m))
     | None \<Rightarrow> out sid = None \<and> mail_of fb (start_session fb req ps h peer l w') sid \<in> {None, Some no_mail}" for sid
    unfolding mails_def
    by (cases "mail_of fb w sid"; drule_tac x = sid in spec) (auto simp: mail_of_start [OF assms(1)])
  then show ?thesis by (simp add: mails_def)
qed

lemma hand_over_in_room:
  assumes "flat_buffer fb" and "numbered w" and "same_mail_boxes w w'" and "mails fb D out w w'"
  shows "room_of (world (hand_over fb k peer s w' srv)) = room_of w'"
    and "mails fb D out w (world (hand_over fb k peer s w' srv))"
    and "numbered (world (hand_over fb k peer s w' srv))"
proof -
  have "ws_next (start_session fb req ps h peer l w') = Suc (ws_next w')" for req ps h l
    by (simp add: start_session_def)
  then have "numbered (start_session fb req ps h peer l w')" for req ps h l
    using numbered_boxes [OF assms(3,2)] by (auto simp: numbered_def less_Suc_eq)
  then show "numbered (world (hand_over fb k peer s w' srv))"
    using numbered_boxes [OF assms(3,2)] by (simp add: hand_over_def split: option.split)
  show "room_of (world (hand_over fb k peer s w' srv)) = room_of w'"
    and "mails fb D out w (world (hand_over fb k peer s w' srv))"
    using assms(4) mails_start [OF assms] by (simp_all add: hand_over_def split: option.split)
qed

lemma step_in_room:
  assumes "flat_buffer fb" and "lists_keys order" and inv: "server_inv fb srv" "numbered (world srv)"
    and step: "server_step lib fb order srv e srv'"
  shows "room_of (world srv') = room_next order (game_event lib e srv) (room_of (world srv))"
    and "mails fb (mail_event e) (told (game_event lib e srv) (room_of (world srv))) (world srv) (world srv')"
    and "numbered (world srv')"
proof -
  note inv = inv [unfolded server_inv_def]
  have "room_of (world srv') = room_next order (game_event lib e srv) (room_of (world srv)) \<and>
    mails fb (mail_event e) (told (game_event lib e srv) (room_of (world srv))) (world srv) (world srv') \<and>
    numbered (world srv')"
    using step
  proof (cases rule: server_step.cases)
    case (connect k peer local_end)
    with inv(2) show ?thesis
      by (auto simp: TestListener_OnAccept_def game_event_def mail_event_def intro: mails_nothing)
  next
    case (http k peer s rm x s' w')
    have "room_of w' = room_next order (game_event lib e srv) (room_of (world srv)) \<and>
        mails fb (\<lambda>c m. m) (told (game_event lib e srv) (room_of (world srv))) (world srv) w' \<and>
        same_mail_boxes (world srv) w'"
    proof (cases "\<exists>req. x = Read_done (Got_request req)")
      case True
      then obtain req where req: "x = Read_done (Got_request req)" by blast
      from inv have "sessions_inv fb {} (world srv)" "registry_inv (world srv)" by auto
      from request_in_room [OF assms(1,2) this http(4) http(5) [unfolded req]] http(1,3) req show ?thesis
        by (simp add: game_event_def)
    next
      case False
      with http_other_world [OF http(5)] have "w' = world srv" by blast
      moreover have "game_event lib e srv = Quiet"
        using False http(1) by (auto simp: game_event_def split: http_event.split read_result.split)
      ultimately show ?thesis by (auto intro: mails_nothing)
    qed
    then have "room_of w' = room_next order (game_event lib e srv) (room_of (world srv))"
      and to: "same_mail_boxes (world srv) w'"
        "mails fb (\<lambda>c m. m) (told (game_event lib e srv) (room_of (world srv))) (world srv) w'" by auto
    with hand_over_in_room [OF assms(1) inv(2) to] http(1,2) show ?thesis by (simp add: mail_event_def)
  next
    case (ws x w')
    from inv have "sessions_inv fb {} (world srv)" by auto
    from completion_in_room [OF assms(1) this ws(3,4,5), of order] numbered_boxes [OF _ inv(2)] show ?thesis
      by (simp add: game_event_def mail_event_def ws(1,2))
  next
    case (timer i w')
    from timer_in_room [OF assms(1) timer(3,4), of order] numbered_boxes [OF _ inv(2)] show ?thesis
      by (simp add: game_event_def mail_event_def timer(1,2))
  qed
  then show "room_of (world srv') = room_next order (game_event lib e srv) (room_of (world srv))"
    and "mails fb (mail_event e) (told (game_event lib e srv) (room_of (world srv))) (world srv) (world srv')"
    and "numbered (world srv')" by auto
qed

interpretation rooms: preserved
  "\<lambda>srv e srv'. server_step lib fb order srv e srv' \<and>
     (flat_buffer fb \<and> lists_keys order \<and> \<not> (\<exists>x. e = Ws x \<and> read_fails x))"
  "\<lambda>srv. server_inv fb srv \<and> numbered (world srv)" for lib fb order
  by unfold_locales (auto intro: server_step_inv step_in_room(3))

lemma reachable_room:
  assumes "flat_buffer fb" and "lists_keys order" and "no_read_fails es"
    and "runs (server_step lib fb order) game_server_new es srv"
  shows "server_inv fb srv" and "numbered (world srv)"
proof -
  have "runs (\<lambda>srv e srv'. server_step lib fb order srv e srv' \<and>
      (flat_buffer fb \<and> lists_keys order \<and> \<not> (\<exists>x. e = Ws x \<and> read_fails x))) game_server_new es srv"
    using assms by (intro runs_restrict) (auto simp: no_read_fails_def)
  from rooms.runs_preserve [OF this] show "server_inv fb srv" and "numbered (world srv)"
    by (auto simp: server_inv_new numbered_new)
qed

text \<open>What is told is not told by the end of a write.\<close>

lemma mail_event_quiet: "told (game_event lib e srv) r c \<noteq> None \<Longrightarrow> mail_event e c m = m"
proof (cases e)
  case (Ws x)
  then show "told (game_event lib e srv) r c \<noteq> None \<Longrightarrow> mail_event e c m = m"
    by (cases x) (auto simp: mail_event_def game_event_def)
qed (auto simp: mail_event_def)

lemma under_way_event: "length (under_way (mail_event e c m)) \<le> length (under_way m)"
proof (cases e)
  case (Ws x)
  then show ?thesis by (cases x) (auto simp: mail_event_def)
qed (auto simp: mail_event_def)

section \<open>Properties\<close>

text \<open>
  C3. The server is a room. As long as no websocket read failed other than by a close, every
  step of it, in every reachable state, is the step of the room that its event stands for:
  the state, the members and those waiting for a timer become what the room makes of them,
  and the mail of every member changes exactly by the write that ended and by what the room
  told it, which is behind what the write buffer still held; no other write is started,
  dropped or changed, and a new session starts without mail.
\<close>

theorem SimpleGame_refines_room:
  assumes "flat_buffer fb" and "lists_keys order" and "no_read_fails es"
    and "runs (server_step lib fb order) game_server_new es srv"
    and "server_step lib fb order srv e srv'"
  shows "room_of (world srv') = room_next order (game_event lib e srv) (room_of (world srv)) \<and>
    mails fb (mail_event e) (told (game_event lib e srv) (room_of (world srv))) (world srv) (world srv')"
  using step_in_room [OF assms(1,2) reachable_room [OF assms(1-4)] assms(5)] by blast

lemma message_step:
  assumes "flat_buffer fb" and "sessions_inv fb {} (world srv)"
    and "ws_sessions (world srv) sid = Some s" and "ws_reading s \<noteq> 0"
  shows "server_step lib fb order srv (Ws (Ws_read sid (Got_message m t)))
    (srv\<lparr>world := put_session sid (echoed fb m t s) (world srv)\<rparr>)"
  using assms
  by (intro server_step.ws game_message) (simp_all add: ws_enabled_def started_def handshake_checked_def)

text \<open>The client of \<open>joined\<close> sends a message.\<close>

definition greeted :: "(nat, string) game_server" where
  "greeted = (joined ''k1'')\<lparr>world :=
     put_session 0 (echoed readable_bytes ''hi'' True (accepted_session 0 ''k1'')) (world (joined ''k1''))\<rparr>"

lemma joined_session:
  "ws_sessions (world (joined k)) 0 = Some (accepted_session 0 k)" "ws_reading (accepted_session 0 k) = 1"
  by (simp_all add: joined_def accepted_session_def Let_def)

lemma greeted_step: "sample_step (joined ''k1'') (Ws (Ws_read 0 (Got_message ''hi'' True))) greeted"
  unfolding greeted_def
  by (intro message_step server_runs_inv(1) [OF _ _ join_no_read_fails join_runs] joined_session(1))
    (simp_all add: readable.flat_buffer_axioms lists_keys_sorted joined_session)

lemma joined_mail: "mail_of readable_bytes (world (joined k)) = [0 \<mapsto> no_mail]"
  by (auto simp: mail_of_def session_object_def joined_def session_mail_def no_mail_def accepted_session_def
      WebSocketSession_Run_def WebSocketSession_new_def readable_bytes_def Let_def fun_eq_iff)

lemma greeted_run:
  "runs sample_step game_server_new (join_events ''k1'' @ [Ws (Ws_read 0 (Got_message ''hi'' True))]) greeted"
  "no_read_fails (join_events ''k1'' @ [Ws (Ws_read 0 (Got_message ''hi'' True))])"
  using join_runs greeted_step join_no_read_fails
  by (auto simp: runs_append runs_Cons_iff no_read_fails_def read_fails_def)

theorem SimpleGame_refines_room_witness:
  "room_of (world greeted) = \<lparr>room_state = '''', members = [''k1'' \<mapsto> 0], pending = []\<rparr> \<and>
   mail_of readable_bytes (world greeted) 0 =
     Some \<lparr>sent_mail = [], under_way = [''hi UwU Kawaiiiiiiii!''], held = ''hi UwU Kawaiiiiiiii!''\<rparr>"
proof -
  have room: "room_of (world (joined ''k1'')) = \<lparr>room_state = '''', members = [''k1'' \<mapsto> 0], pending = []\<rparr>"
    by (simp add: room_of_def joined_def timer_sessions_def)
  have "mails readable_bytes (mail_event (Ws (Ws_read 0 (Got_message ''hi'' True)) :: nat server_event))
      (told (game_event sample_lib (Ws (Ws_read 0 (Got_message ''hi'' True))) (joined ''k1''))
        (room_of (world (joined ''k1'')))) (world (joined ''k1'')) (world greeted) \<and>
    room_of (world greeted) = room_of (world (joined ''k1''))"
    using SimpleGame_refines_room [OF readable.flat_buffer_axioms lists_keys_sorted join_no_read_fails
        join_runs greeted_step]
    by (simp add: game_event_def)
  then show ?thesis
    unfolding mails_def
    by (auto simp: room joined_mail no_mail_def mail_told_def mail_event_def game_event_def
        dest: spec [where x = 0])
qed

text \<open>
  C31. What makes writes overlap. As long as no read failed and at most one write is under way
  to each client, a step leaves two under way to one exactly if it tells something to a
  client to which a write is still under way: nothing in the server waits for it.
\<close>

theorem SimpleGame_overlap:
  assumes "flat_buffer fb" and "lists_keys order" and "no_read_fails es"
    and "runs (server_step lib fb order) game_server_new es srv"
    and "server_step lib fb order srv e srv'"
    and "\<And>sid m. mail_of fb (world srv) sid = Some m \<Longrightarrow> length (under_way m) \<le> 1"
  shows "(\<exists>sid m. mail_of fb (world srv') sid = Some m \<and> 1 < length (under_way m)) \<longleftrightarrow>
    (\<exists>sid m. mail_of fb (world srv) sid = Some m \<and> under_way m \<noteq> [] \<and>
      told (game_event lib e srv) (room_of (world srv)) sid \<noteq> None)"
proof -
  let ?out = "told (game_event lib e srv) (room_of (world srv))"
  have out: "mail_event e sid m = m" if "?out sid \<noteq> None" for sid m
    using that by (rule mail_event_quiet)
  have m: "mails fb (mail_event e) ?out (world srv) (world srv')"
    by (rule step_in_room(2) [OF assms(1,2) reachable_room [OF assms(1-4)] assms(5)])
  have "(\<exists>m. mail_of fb (world srv') sid = Some m \<and> 1 < length (under_way m)) \<longleftrightarrow>
    (\<exists>m. mail_of fb (world srv) sid = Some m \<and> under_way m \<noteq> [] \<and> ?out sid \<noteq> None)" for sid
  proof (cases "mail_of fb (world srv) sid")
    case None
    with m show ?thesis by (auto simp: mails_def no_mail_def dest!: spec [where x = sid])
  next
    case (Some mail)
    with m have now: "mail_of fb (world srv') sid = Some (mail_told (?out sid) (mail_event e sid mail))"
      by (auto simp: mails_def dest!: spec [where x = sid])
    show ?thesis
    proof (cases "?out sid")
      case None
      with assms(6) [OF Some] under_way_event [of e sid mail] now show ?thesis by (simp add: mail_told_def)
    next
      case told: (Some d)
      with now Some out assms(6) [OF Some] show ?thesis
        by (cases "under_way mail") (auto simp: mail_told_def)
    qed
  qed
  then show ?thesis by blast
qed

theorem SimpleGame_overlap_witness:
  "\<exists>srv sid m. sample_step greeted (Ws (Ws_read 0 (Got_message ''ho'' True))) srv \<and>
     mail_of readable_bytes (world srv) sid = Some m \<and> 1 < length (under_way m)"
proof -
  let ?s = "echoed readable_bytes ''hi'' True (accepted_session 0 ''k1'')"
  have way: "mail_of readable_bytes (world greeted) = [0 \<mapsto> session_mail readable_bytes ?s]"
    by (simp add: greeted_def joined_mail)
  have s: "ws_sessions (world greeted) 0 = Some ?s" "ws_reading ?s \<noteq> 0"
    and one: "under_way (session_mail readable_bytes ?s) = [''hi UwU Kawaiiiiiiii!'']"
    by (simp_all add: greeted_def echoed_def session_mail_def Send_defs accepted_session_def
        WebSocketSession_Run_def WebSocketSession_new_def readable_bytes_def Let_def)
  obtain srv where step: "sample_step greeted (Ws (Ws_read 0 (Got_message ''ho'' True))) srv"
    using message_step [OF readable.flat_buffer_axioms
        server_runs_inv(1) [OF readable.flat_buffer_axioms lists_keys_sorted greeted_run(2,1)] s] by blast
  have "told (game_event sample_lib (Ws (Ws_read 0 (Got_message ''ho'' True))) greeted)
      (room_of (world greeted)) 0 \<noteq> None"
    by (simp add: game_event_def)
  moreover have "length (under_way m) \<le> 1" if "mail_of readable_bytes (world greeted) sid = Some m" for sid m
    using that one by (auto simp: way split: if_splits)
  moreover have "mail_of readable_bytes (world greeted) 0 = Some (session_mail readable_bytes ?s)"
    "under_way (session_mail readable_bytes ?s) \<noteq> []"
    by (simp_all add: way one)
  ultimately have "\<exists>sid m. mail_of readable_bytes (world srv) sid = Some m \<and> 1 < length (under_way m)"
    using SimpleGame_overlap [OF readable.flat_buffer_axioms lists_keys_sorted greeted_run(2,1) step] by blast
  with step show ?thesis by blast
qed

text \<open>
  C32. Any client can make the server break the contract of \<open>Send\<close>: in every reachable state in
  which nothing is under way to a connected client, two messages of it can arrive one after
  the other; both are echoed at once, the second, with the first in front, before the write
  of the first has completed, and that write then completes on a view that is no longer
  valid.
\<close>

theorem SimpleGame_two_messages:
  assumes "flat_buffer fb" and "lists_keys order" and "no_read_fails es"
    and "runs (server_step lib fb order) game_server_new es srv"
    and "ws_sessions (world srv) sid = Some s" and "ws_reading s \<noteq> 0" and "ws_writing s = []"
  shows "\<exists>srv' mail. runs (server_step lib fb order) srv
      [Ws (Ws_read sid (Got_message m t)), Ws (Ws_read sid (Got_message m' t'))] srv' \<and>
    mail_of fb (world srv') sid = Some mail \<and>
    under_way mail = [held (session_mail fb s) @ m @ '' UwU Kawaiiiiiiii!'',
      held (session_mail fb s) @ m @ '' UwU Kawaiiiiiiii!'' @ m' @ '' UwU Kawaiiiiiiii!''] \<and>
    run_writes fb [Send_call (m @ '' UwU Kawaiiiiiiii!''), Send_call (m' @ '' UwU Kawaiiiiiiii!''),
      Write_completes] s = Inl (Undefined Dangling_pointer)"
proof -
  note inv = server_runs_inv [OF assms(1-4)]
  let ?s1 = "echoed fb m t s"
  let ?srv1 = "srv\<lparr>world := put_session sid ?s1 (world srv)\<rparr>"
  let ?srv2 = "?srv1\<lparr>world := put_session sid (echoed fb m' t' ?s1) (world ?srv1)\<rparr>"
  have one: "server_step lib fb order srv (Ws (Ws_read sid (Got_message m t))) ?srv1"
    by (rule message_step [OF assms(1) inv(1) assms(5,6)])
  then have "server_inv fb ?srv1"
    using server_step_inv [OF assms(1,2) one] inv by (simp add: server_inv_def read_fails_def)
  then have "server_step lib fb order ?srv1 (Ws (Ws_read sid (Got_message m' t'))) ?srv2"
    by (intro message_step [OF assms(1)]) (simp_all add: server_inv_def echoed_def)
  with one have "runs (server_step lib fb order) srv
      [Ws (Ws_read sid (Got_message m t)), Ws (Ws_read sid (Got_message m' t'))] ?srv2"
    by (auto simp only: runs_Cons_iff runs_Nil_iff)
  moreover have "mail_of fb (world ?srv2) sid = Some (session_mail fb (echoed fb m' t' ?s1))" by simp
  moreover have "under_way (session_mail fb (echoed fb m' t' ?s1)) =
      [held (session_mail fb s) @ m @ '' UwU Kawaiiiiiiii!'',
       held (session_mail fb s) @ m @ '' UwU Kawaiiiiiiii!'' @ m' @ '' UwU Kawaiiiiiiii!'']"
    using assms(7) by (simp add: echoed_def Send_defs session_mail_def flat_buffer.data_append [OF assms(1)])
  moreover have "run_writes fb [Send_call (m @ '' UwU Kawaiiiiiiii!''), Send_call (m' @ '' UwU Kawaiiiiiiii!''),
      Write_completes] s = Inl (Undefined Dangling_pointer)"
    using overlapping_undefined [of 0 "[Send_call (m @ '' UwU Kawaiiiiiiii!''),
        Send_call (m' @ '' UwU Kawaiiiiiiii!''), Write_completes]" fb s]
    by (simp add: run_writes_def)
  ultimately show ?thesis by blast
qed

theorem SimpleGame_two_messages_witness:
  "\<exists>srv mail. runs sample_step (joined ''k1'')
      [Ws (Ws_read 0 (Got_message ''hi'' True)), Ws (Ws_read 0 (Got_message ''ho'' True))] srv \<and>
    mail_of readable_bytes (world srv) 0 = Some mail \<and>
    under_way mail = [''hi UwU Kawaiiiiiiii!'', ''hi UwU Kawaiiiiiiii!ho UwU Kawaiiiiiiii!'']"
proof -
  have "ws_reading (accepted_session 0 ''k1'') \<noteq> 0" "ws_writing (accepted_session 0 ''k1'') = []"
    "held (session_mail readable_bytes (accepted_session 0 ''k1'')) = ''''"
    by (simp_all add: session_mail_def accepted_session_def
        WebSocketSession_Run_def WebSocketSession_new_def readable_bytes_def Let_def)
  then show ?thesis
    using SimpleGame_two_messages [OF readable.flat_buffer_axioms lists_keys_sorted join_no_read_fails
        join_runs joined_session(1), of "''k1''" "''hi''" True "''ho''" True] by auto
qed

end
