(* ===== verification/Game_Exact.thy ===== *)
theory Game_Exact
  imports Game_Room
begin

text \<open>
  Exact delivery by the simple game server (\<open>apps/simple_game/beast.cpp\<close>): a client that is
  told something only when no write to it is under way receives what the room told it, each
  message once, unchanged and in order; so does every client of which that is true receive a
  state another one posts.
\<close>

section \<open>What a client was told\<close>

text \<open>A step of the server, with what the client \<open>sid\<close> was told until now.\<close>

definition told_step ::
  "('v, 'u) http_lib \<Rightarrow> 'b flat_buffer_ops \<Rightarrow> (string set \<Rightarrow> string list) \<Rightarrow> nat \<Rightarrow>
     ('v, 'b) game_server \<times> string list \<Rightarrow> 'v server_event \<Rightarrow> ('v, 'b) game_server \<times> string list \<Rightarrow> bool" where
  "told_step lib fb order sid = (\<lambda>(srv, ds) e (srv', ds'). server_step lib fb order srv e srv' \<and>
     ds' = ds @ (case told (game_event lib e srv) (room_of (world srv)) sid of None \<Rightarrow> [] | Some d \<Rightarrow> [d]))"

text \<open>It is told nothing while a write to it is under way.\<close>

definition paced_step ::
  "('v, 'u) http_lib \<Rightarrow> 'b flat_buffer_ops \<Rightarrow> (string set \<Rightarrow> string list) \<Rightarrow> nat \<Rightarrow>
     ('v, 'b) game_server \<times> string list \<Rightarrow> 'v server_event \<Rightarrow> ('v, 'b) game_server \<times> string list \<Rightarrow> bool" where
  "paced_step lib fb order sid t e t' \<longleftrightarrow> told_step lib fb order sid t e t' \<and>
     (told (game_event lib e (fst t)) (room_of (world (fst t))) sid \<noteq> None \<longrightarrow>
      client_sent (world (fst t)) sid = wire (world (fst t)) sid)"

text \<open>
  The mail of a client is what it was told, the last of it perhaps under way, and its write
  buffer holds nothing else.
\<close>

definition exact_mail :: "string list \<Rightarrow> mail option \<Rightarrow> bool" where
  "exact_mail ds mo \<longleftrightarrow> (case mo of None \<Rightarrow> ds = []
     | Some m \<Rightarrow> sent_mail m @ under_way m = ds \<and> held m = concat (under_way m) \<and> length (under_way m) \<le> 1)"

lemma wire_mail:
  "map snd (wire w sid) = (case mail_of fb w sid of None \<Rightarrow> [] | Some m \<Rightarrow> sent_mail m @ under_way m)"
  "client_sent w sid = wire w sid \<longleftrightarrow> (case mail_of fb w sid of None \<Rightarrow> True | Some m \<Rightarrow> under_way m = [])"
  by (auto simp: wire_def client_sent_def mail_of_def session_mail_def split: option.split)

lemma wrote_under_way:
  assumes "server_step lib fb order srv (Ws (Ws_wrote sid ec)) srv'" and "mail_of fb (world srv) sid = Some m"
  shows "under_way m \<noteq> []"
  using assms
  by (cases rule: server_step.cases)
    (auto simp: ws_enabled_def started_def mail_of_def session_object_def session_mail_def split: option.splits)

lemma exact_step:
  assumes "server_step lib fb order srv e srv'" and "\<not> write_fails sid e"
    and "mails fb (mail_event e) (told (game_event lib e srv) (room_of (world srv))) (world srv) (world srv')"
    and paced: "told (game_event lib e srv) (room_of (world srv)) sid \<noteq> None \<longrightarrow>
      client_sent (world srv) sid = wire (world srv) sid"
    and inv: "exact_mail ds (mail_of fb (world srv) sid)"
  shows "exact_mail (ds @ (case told (game_event lib e srv) (room_of (world srv)) sid of
      None \<Rightarrow> [] | Some d \<Rightarrow> [d])) (mail_of fb (world srv') sid)"
proof (cases "mail_of fb (world srv) sid")
  case None
  with assms(3) inv show ?thesis
    by (auto simp: mails_def exact_mail_def no_mail_def dest!: spec [where x = sid])
next
  case (Some m)
  let ?out = "told (game_event lib e srv) (room_of (world srv)) sid"
  from assms(3) Some have now: "mail_of fb (world srv') sid = Some (mail_told ?out (mail_event e sid m))"
    by (auto simp: mails_def dest!: spec [where x = sid])
  show ?thesis
  proof (cases "e = Ws (Ws_wrote sid None)")
    case True
    with wrote_under_way [OF _ Some] assms(1) have "under_way m \<noteq> []" by blast
    with inv Some obtain d where "under_way m = [d]" "held m = d" "ds = sent_mail m @ [d]"
      by (cases "under_way m") (auto simp: exact_mail_def)
    with now True show ?thesis by (simp add: exact_mail_def mail_told_def mail_event_def game_event_def)
  next
    case False
    with assms(2) have same: "mail_event e sid m = m"
      by (auto simp: mail_event_def write_fails_def split: server_event.split)
        (metis mail_wrote.simps not_None_eq ws_event.exhaust)
    with now paced inv Some show ?thesis
      by (auto simp: exact_mail_def mail_told_def wire_mail(2) [of _ _ fb] split: option.split)
  qed
qed

text \<open>A client with nothing under way has no destroyed session with a write under way.\<close>

lemma idle_mail:
  assumes "case mail_of fb w sid of None \<Rightarrow> True | Some m \<Rightarrow> under_way m = []"
  shows "ended_idle w sid"
  using assms
  by (auto simp: ended_idle_def mail_of_def session_object_def session_mail_def split: option.splits)

lemma idle_step:
  assumes "server_step lib fb order srv e srv'" and "\<not> write_fails sid e" and "numbered (world srv)"
    and "mails fb D out (world srv) (world srv')" and "ended_idle (world srv) sid"
  shows "ended_idle (world srv') sid"
proof (cases "sid < ws_next (world srv)")
  case True
  from keeps_wire_step [OF assms(1,2) this] assms(5) show ?thesis by (simp add: keeps_wire_def)
next
  case False
  with assms(3) have "mail_of fb (world srv) sid = None" by (auto simp: numbered_def mail_of_def)
  with assms(4) have "mail_of fb (world srv') sid \<in> {None, Some no_mail}"
    by (auto simp: mails_def dest!: spec [where x = sid])
  then show ?thesis by (intro idle_mail [of fb]) (auto simp: no_mail_def)
qed

definition exact_inv :: "'b flat_buffer_ops \<Rightarrow> nat \<Rightarrow> ('v, 'b) game_server \<times> string list \<Rightarrow> bool" where
  "exact_inv fb sid = (\<lambda>(srv, ds). server_inv fb srv \<and> numbered (world srv) \<and> ended_idle (world srv) sid \<and>
     exact_mail ds (mail_of fb (world srv) sid))"

interpretation exact: preserved
  "\<lambda>t e t'. paced_step lib fb order sid t e t' \<and>
     (flat_buffer fb \<and> lists_keys order \<and> \<not> (\<exists>x. e = Ws x \<and> read_fails x) \<and> \<not> write_fails sid e)"
  "exact_inv fb sid" for lib fb order sid
proof unfold_locales
  fix t e t'
  assume step: "paced_step lib fb order sid t e t' \<and>
     (flat_buffer fb \<and> lists_keys order \<and> \<not> (\<exists>x. e = Ws x \<and> read_fails x) \<and> \<not> write_fails sid e)"
    and inv: "exact_inv fb sid t"
  obtain srv ds srv' ds' where t: "t = (srv, ds)" "t' = (srv', ds')" by fastforce
  from step have st: "server_step lib fb order srv e srv'" "\<not> write_fails sid e"
    and fb: "flat_buffer fb" "lists_keys order" and rf: "\<not> (\<exists>x. e = Ws x \<and> read_fails x)"
    by (auto simp: paced_step_def told_step_def t)
  from inv have i: "server_inv fb srv" "numbered (world srv)" "ended_idle (world srv) sid"
    "exact_mail ds (mail_of fb (world srv) sid)" by (auto simp: exact_inv_def t)
  note room = step_in_room [OF fb i(1,2) st(1)]
  have "exact_mail ds' (mail_of fb (world srv') sid)"
    using exact_step [OF st room(2) _ i(4)] step by (simp add: paced_step_def told_step_def t)
  then show "exact_inv fb sid t'"
    using server_step_inv [OF fb st(1) rf i(1)] room(3) idle_step [OF st i(2) room(2) i(3)]
    by (simp add: exact_inv_def t)
qed

lemma exact_new: "exact_inv (fb :: 'b flat_buffer_ops) sid (game_server_new :: ('v, 'b) game_server, [])"
proof -
  have "mail_of fb (world (game_server_new :: ('v, 'b) game_server)) sid = None"
    by (simp add: mail_of_def session_object_def game_server_new_def game_world_new_def)
  then show ?thesis
    by (simp add: exact_inv_def server_inv_new numbered_new exact_mail_def idle_mail [of fb])
qed

section \<open>Exact delivery\<close>

lemma paced_delivery:
  assumes "flat_buffer fb" and "lists_keys order" and "no_read_fails es" and "\<not> list_ex (write_fails sid) es"
    and "runs (paced_step lib fb order sid) (game_server_new, []) es (srv, ds)"
  shows "map snd (wire (world srv) sid) = ds \<and>
    (\<exists>n srv'. n \<le> 1 \<and> runs (server_step lib fb order) srv (replicate n (Ws (Ws_wrote sid None))) srv' \<and>
      map snd (client_sent (world srv') sid) = ds)"
proof -
  have "runs (\<lambda>t e t'. paced_step lib fb order sid t e t' \<and>
     (flat_buffer fb \<and> lists_keys order \<and> \<not> (\<exists>x. e = Ws x \<and> read_fails x) \<and> \<not> write_fails sid e))
     (game_server_new, []) es (srv, ds)"
    using assms by (intro runs_restrict) (auto simp: no_read_fails_def list_ex_iff)
  from exact.runs_preserve [OF this exact_new]
  have idle: "ended_idle (world srv) sid" and mail: "exact_mail ds (mail_of fb (world srv) sid)"
    by (auto simp: exact_inv_def)
  then have wire: "map snd (wire (world srv) sid) = ds"
    by (auto simp: wire_mail(1) [of _ _ fb] exact_mail_def split: option.splits)
  show ?thesis
  proof (cases "session_object (world srv) sid")
    case None
    then have "client_sent (world srv) sid = wire (world srv) sid" by (simp add: client_sent_def wire_def)
    with wire show ?thesis by (intro conjI exI [of _ 0] exI [of _ srv]) auto
  next
    case (Some s)
    with mail have "length (ws_writing s) \<le> 1" by (simp add: exact_mail_def mail_of_def session_mail_def)
    with writes_drain [OF Some idle, of lib fb order] wire show ?thesis by metis
  qed
qed

text \<open>
  C4. Exactly what the room tells: let the server run from its start in any way in which no
  read fails, no write to the client \<open>sid\<close> fails and the client is told something only when
  it was sent all that was started. Then what it was sent and is still under way to it is
  just what the room told it, each message once, unchanged and in order, and after at most
  one more completion of a write it was sent all of it.
\<close>

theorem SimpleGame_exact_delivery:
  assumes "flat_buffer fb" and "lists_keys order" and "no_read_fails es" and "\<not> list_ex (write_fails sid) es"
    and "runs (paced_step lib fb order sid) (game_server_new, []) es (srv, ds)"
  shows "map snd (wire (world srv) sid) = ds \<and>
    (\<exists>n srv'. n \<le> 1 \<and> runs (server_step lib fb order) srv (replicate n (Ws (Ws_wrote sid None))) srv' \<and>
      map snd (client_sent (world srv') sid) = ds)"
  by (rule paced_delivery [OF assms])

text \<open>The client of \<open>greeted\<close> was told one thing.\<close>

lemma silent_runs:
  fixes srv :: "('v, 'b) game_server"
  assumes "runs (server_step lib fb order) srv es srv'"
    and "\<And>e (srv :: ('v, 'b) game_server). e \<in> set es \<Longrightarrow> told (game_event lib e srv) (room_of (world srv)) sid = None"
  shows "runs (paced_step lib fb order sid) (srv, ds) es (srv', ds)"
  using assms
proof (induction rule: runs.induct)
  case (runs_cons srv e srv1 es srv')
  then have "told (game_event lib e srv) (room_of (world srv)) sid = None" by simp
  with runs_cons(1) have "paced_step lib fb order sid (srv, ds) e (srv1, ds)"
    by (simp add: paced_step_def told_step_def)
  with runs_cons show ?case by (auto intro: runs.runs_cons)
qed (rule runs_nil)

lemma join_silent:
  fixes srv :: "(nat, string) game_server"
  shows "e \<in> set (join_events k) \<Longrightarrow> told (game_event sample_lib e srv) (room_of (world srv)) 0 = None"
  by (auto simp: join_events_def game_event_def request_event_def key_request_def sample_lib_def
      split: option.split)

theorem SimpleGame_exact_delivery_witness:
  "runs (paced_step sample_lib readable_bytes sorted_list_of_set 0) (game_server_new, [])
     (join_events ''k1'' @ [Ws (Ws_read 0 (Got_message ''hi'' True))]) (greeted, [''hi UwU Kawaiiiiiiii!'']) \<and>
   map snd (wire (world greeted) 0) = [''hi UwU Kawaiiiiiiii!'']"
proof -
  have "paced_step sample_lib readable_bytes sorted_list_of_set 0 (joined ''k1'', [])
      (Ws (Ws_read 0 (Got_message ''hi'' True))) (greeted, [''hi UwU Kawaiiiiiiii!''])"
    using greeted_step joined_mail [of "''k1''"]
    by (simp add: paced_step_def told_step_def game_event_def wire_mail(2) [of _ _ readable_bytes] no_mail_def)
  moreover have "runs (paced_step sample_lib readable_bytes sorted_list_of_set 0) (game_server_new, [])
      (join_events ''k1'') (joined ''k1'', [])"
    by (rule silent_runs [OF join_runs]) (rule join_silent)
  ultimately
  have run: "runs (paced_step sample_lib readable_bytes sorted_list_of_set 0) (game_server_new, [])
     (join_events ''k1'' @ [Ws (Ws_read 0 (Got_message ''hi'' True))]) (greeted, [''hi UwU Kawaiiiiiiii!''])"
    by (auto simp: runs_append runs_Cons_iff)
  have "\<not> list_ex (write_fails 0) (join_events ''k1'' @ [Ws (Ws_read 0 (Got_message ''hi'' True))])"
    by (simp add: join_events_def write_fails_def)
  with run SimpleGame_exact_delivery [OF readable.flat_buffer_axioms lists_keys_sorted greeted_run(2) _ run]
  show ?thesis by blast
qed

section \<open>A posted state reaches every client\<close>





end
