(* ===== verification/Game_Dangling.thy ===== *)
theory Game_Dangling
  imports Game_Room
begin

text \<open>
  What a failed read leaves behind in the simple game server (\<open>apps/simple_game/beast.cpp\<close>):
  an entry of the registry whose session is destroyed with its last operation, and which
  every later broadcast follows.
\<close>

section \<open>Broadcasts start writes and timers only\<close>

definition only_adds :: "('v, 'b) game_world \<Rightarrow> ('v, 'b) game_world \<Rightarrow> bool" where
  "only_adds w w' \<longleftrightarrow> sends_only w w' \<and> ctxs (app w') = ctxs (app w) \<and>
     set (timer_sessions (app w)) \<subseteq> set (timer_sessions (app w')) \<and>
     (\<forall>sid s s'. ws_sessions w sid = Some s \<longrightarrow> ws_sessions w' sid = Some s' \<longrightarrow>
        ws_writing s \<noteq> [] \<longrightarrow> ws_writing s' \<noteq> [])"

lemma only_adds_refl [simp]: "only_adds w w"
  by (simp add: only_adds_def)

lemma only_adds_trans:
  assumes "only_adds u v" and "only_adds v w"
  shows "only_adds u w"
proof -
  have "ws_writing s' \<noteq> []" if "ws_sessions u sid = Some s" "ws_sessions w sid = Some s'" "ws_writing s \<noteq> []" for sid s s'
  proof -
    have "sends_only u v" using assms(1) by (simp add: only_adds_def)
    from sends_only_forth [OF this that(1)] obtain t where "ws_sessions v sid = Some t" by blast
    with that assms show ?thesis unfolding only_adds_def by blast
  qed
  with assms show ?thesis unfolding only_adds_def by (auto intro: sends_only_trans)
qed

lemma only_adds_Send:
  assumes "on_session j (WebSocketSession_Send fb d) w = Inr w'"
  shows "only_adds w w'"
proof -
  obtain s where "ws_sessions w j = Some s" and "w' = put_session j (WebSocketSession_Send fb d s) w"
    using assms by (auto simp: on_session_def res_eq)
  then show ?thesis using sends_only_Send [OF assms] by (auto simp: only_adds_def Send_defs)
qed

lemma only_adds_broadcast:
  assumes "broadcast_ctx fb ps k w = Inr w'"
  shows "only_adds w w'"
proof (cases "case ps of None \<Rightarrow> None | Some m \<Rightarrow> m ''delay''")
  case None
  with assms show ?thesis
    by (auto simp: broadcast_ctx_def res_eq intro: only_adds_Send split: option.splits cong: option.case_cong)
next
  case (Some v)
  with assms show ?thesis
    by (auto simp: broadcast_ctx_def res_eq only_adds_def timer_sessions_def
        split: option.splits cong: option.case_cong)
qed

lemma only_adds_broadcasts: "fold_res (broadcast_ctx fb ps) ks w = Inr w' \<Longrightarrow> only_adds w w'"
proof (induction ks arbitrary: w)
  case (Cons k ks)
  then obtain w1 where "broadcast_ctx fb ps k w = Inr w1" "fold_res (broadcast_ctx fb ps) ks w1 = Inr w'"
    by (auto simp: res_eq)
  with Cons.IH show ?case by (blast intro: only_adds_trans only_adds_broadcast)
qed simp

lemma only_adds_callback:
  assumes "cb = get_test order \<or> cb = post_set_state fb order" and "cb req ps r w = Inr (r', w')"
  shows "only_adds w w'"
  using assms(1)
proof
  assume "cb = get_test order"
  with assms(2) show ?thesis by (auto simp: get_test_def Let_def)
next
  assume "cb = post_set_state fb order"
  with assms(2) have "fold_res (broadcast_ctx fb ps) (order (dom (ctxs (app w))))
      (w\<lparr>app := (app w)\<lparr>state := rq_body req\<rparr>\<rparr>) = Inr w'"
    by (auto simp: post_set_state_def Let_def res_eq)
  from only_adds_broadcasts [OF this] show ?thesis
    by (simp add: only_adds_def sends_only_def timer_sessions_def)
qed

section \<open>An abandoned entry\<close>

text \<open>
  The entry of \<open>u\<close> is a session that neither accepts nor reads, and that is destroyed unless
  a write or a timer still owns it.
\<close>

definition abandoned :: "string \<Rightarrow> nat \<Rightarrow> ('v, 'b) game_world \<Rightarrow> bool" where
  "abandoned u sid w \<longleftrightarrow> ctxs (app w) u = Some sid \<and> finite (dom (ctxs (app w))) \<and> sid < ws_next w \<and>
     (case ws_sessions w sid of None \<Rightarrow> True
      | Some s \<Rightarrow> \<not> ws_accepting s \<and> ws_reading s = 0 \<and>
          (ws_writing s \<noteq> [] \<or> sid \<in> set (timer_sessions (app w))))"

text \<open>A step in which no client joins or leaves under the key \<open>u\<close>.\<close>

definition untouched_step ::
  "('v, 'u) http_lib \<Rightarrow> 'b flat_buffer_ops \<Rightarrow> (string set \<Rightarrow> string list) \<Rightarrow> string \<Rightarrow>
     ('v, 'b) game_server \<Rightarrow> 'v server_event \<Rightarrow> ('v, 'b) game_server \<Rightarrow> bool" where
  "untouched_step lib fb order u srv e srv' \<longleftrightarrow> server_step lib fb order srv e srv' \<and>
     game_event lib e srv \<noteq> Leaves u \<and> (\<forall>c. game_event lib e srv \<noteq> Joins u c)"

lemma own_state_reads: "own_state s' = own_state s \<Longrightarrow> ws_reading s' = ws_reading s \<and> ws_accepting s' = ws_accepting s"
  by (simp add: own_state_def)

lemma abandoned_adds:
  assumes "only_adds w w'" and "abandoned u sid w"
  shows "abandoned u sid w'"
proof -
  have so: "sends_only w w'" using assms(1) by (simp add: only_adds_def)
  show ?thesis
  proof (cases "ws_sessions w' sid")
    case None
    with assms show ?thesis by (simp add: abandoned_def only_adds_def sends_only_def)
  next
    case (Some s')
    with so obtain s where "ws_sessions w sid = Some s" and "own_state s' = own_state s" by (rule sends_only_back)
    with Some assms show ?thesis
      unfolding abandoned_def only_adds_def sends_only_def by (auto dest!: own_state_reads)
  qed
qed

text \<open>Another session changes, or the session itself sends or has written.\<close>

lemma abandoned_put:
  assumes "abandoned u sid w" and "j \<noteq> sid"
  shows "abandoned u sid (put_session j s w)"
  using assms by (simp add: abandoned_def split: option.splits)

lemma abandoned_release_other:
  assumes "abandoned u sid w" and "j \<noteq> sid"
  shows "abandoned u sid (release timer_sessions j w)"
  using assms by (auto simp: abandoned_def release_def split: option.splits)

lemma abandoned_release:
  assumes "ctxs (app w) u = Some sid" and "finite (dom (ctxs (app w)))" and "sid < ws_next w"
    and "ws_sessions w sid = Some s" and "\<not> ws_accepting s" and "ws_reading s = 0"
  shows "abandoned u sid (release timer_sessions sid w)"
  using assms by (auto simp: abandoned_def release_def busy_def)

lemma abandoned_start:
  assumes "abandoned u sid w"
  shows "abandoned u sid (start_session fb req ps h peer l w)"
  using assms by (auto simp: abandoned_def start_session_def split: option.splits)

lemma abandoned_erase:
  assumes "abandoned u sid w" and "u' \<noteq> u"
  shows "abandoned u sid (erase_ctx u' w)"
  using assms by (auto simp: abandoned_def timer_sessions_def split: option.splits)

lemma abandoned_completion:
  assumes "flat_buffer fb" and inv: "sessions_inv fb {} w" and ab: "abandoned u sid w"
    and en: "ws_enabled e w" and hs: "handshake_checked e w"
    and w': "ws_complete fb (game_handlers fb) timer_sessions e w = Inr w'"
    and key: "session_event e w \<noteq> Leaves u" "\<forall>c. session_event e w \<noteq> Joins u c"
  shows "abandoned u sid w'"
proof -
  from en obtain s where s: "ws_sessions w (event_session e) = Some s" and st: "started e s"
    by (auto simp: ws_enabled_def split: option.splits)
  show ?thesis
  proof (cases "event_session e = sid")
    case True
    with ab s have idle: "\<not> ws_accepting s" "ws_reading s = 0" by (simp_all add: abandoned_def)
    with st True obtain ec where e: "e = Ws_wrote sid ec" by (cases e) (auto simp: started_def)
    with s have sid: "ws_sessions w sid = Some s" by simp
    obtain s' where "w' = release timer_sessions sid (put_session sid s' w)"
      and "\<not> ws_accepting s'" "ws_reading s' = 0"
      using w' sid idle e
      by (cases ec) (auto simp: ws_complete_def WebSocketSession_OnWrite_def on_session_def Let_def)
    with ab show ?thesis
      using abandoned_release [of "put_session sid s' w" u sid s'] by (simp add: abandoned_def)
  next
    case other: False
    show ?thesis
    proof (cases e)
      case (Ws_accepted j ec)
      show ?thesis
      proof (cases ec)
        case None
        with hs s Ws_accepted obtain k where k: "rq_fields (ws_req s) ''Sec-WebSocket-Key'' = Some k"
          by (auto simp: handshake_checked_def)
        with key(2) None Ws_accepted s have "k \<noteq> u" by auto
        with game_accepted [OF _ k, of w j fb] s w' None Ws_accepted ab other show ?thesis
          by (auto simp: abandoned_def timer_sessions_def split: option.splits)
      next
        case (Some c)
        with game_accept_failed [of w j s fb c] s w' Ws_accepted ab other show ?thesis
          by (auto intro!: abandoned_release_other abandoned_put)
      qed
    next
      case (Ws_read j result)
      then have j: "ws_sessions w j = Some s" "ws_reading s \<noteq> 0" using s st by (auto simp: started_def)
      show ?thesis
      proof (cases result)
        case (Got_message m t)
        with game_message [OF assms(1) inv j, of m t] w' Ws_read ab other show ?thesis
          by (auto intro!: abandoned_put)
      next
        case Closed
        with key(1) Ws_read j have "ctx_uuid (ctx s) \<noteq> u" by auto
        with game_closed [OF j(1), of fb] Closed w' Ws_read ab other show ?thesis
          by (auto intro!: abandoned_release_other abandoned_erase abandoned_put)
      next
        case (Ws_read_failed c)
        with game_read_failed [OF j(1), of fb c] w' Ws_read ab other show ?thesis
          by (auto intro!: abandoned_release_other abandoned_put)
      qed
    next
      case (Ws_wrote j ec)
      with game_wrote [of w j s fb ec] s w' ab other show ?thesis
        by (auto intro!: abandoned_release_other abandoned_put)
    qed
  qed
qed

text \<open>Every step keeps the sessions' invariant, whether or not a read fails.\<close>

lemma untouched_step_inv:
  assumes fb: "flat_buffer fb" and step: "untouched_step lib fb order u srv e srv'"
    and inv: "sessions_inv fb {} (world srv)" "abandoned u sid (world srv)"
  shows "sessions_inv fb {} (world srv') \<and> abandoned u sid (world srv')"
proof -
  from step have "server_step lib fb order srv e srv'"
    and key: "game_event lib e srv \<noteq> Leaves u" "\<forall>c. game_event lib e srv \<noteq> Joins u c"
    by (auto simp: untouched_step_def)
  from this(1) show ?thesis
  proof (cases rule: server_step.cases)
    case (connect k peer local_end)
    with inv show ?thesis by (simp add: TestListener_OnAccept_def)
  next
    case (http k peer s rm x s' w')
    have "sessions_inv fb {} w' \<and> abandoned u sid w'"
    proof (rule http_step_world [OF http(5)])
      fix req ps r r' m p cb v v' m'
      assume "rm = Some m'" and "GetCallback m p m' = Some cb" and cb: "cb req ps r v = Inr (r', v')"
        and v: "sessions_inv fb {} v \<and> abandoned u sid v"
      with http(4) have "cb = get_test order \<or> cb = post_set_state fb order" by (auto dest: routes_callback)
      from only_adds_callback [OF this cb] v show "sessions_inv fb {} v' \<and> abandoned u sid v'"
        by (auto simp: only_adds_def intro: sessions_inv_sends_only abandoned_adds [unfolded only_adds_def])
    qed (use inv in simp)
    with fb show ?thesis
      by (auto simp: http(2) hand_over_def sessions_inv_start intro: abandoned_start split: option.split)
  next
    case (ws x w')
    have "session_event x (world srv) \<noteq> Leaves u" "\<forall>c. session_event x (world srv) \<noteq> Joins u c"
      using key ws(1) by (simp_all add: game_event_def)
    from abandoned_completion [OF fb inv ws(3,4,5) this]
      ws_application.complete_inv [OF game_application [OF fb] ws(3,5) inv(1)] show ?thesis by (simp add: ws(2))
  next
    case (timer i w')
    let ?j = "fst (timers (app (world srv)) ! i)"
    let ?ts = "take i (timers (app (world srv))) @ drop (Suc i) (timers (app (world srv)))"
    from timer(4) obtain s where s: "ws_sessions (world srv) ?j = Some s"
      and w': "w' = release timer_sessions ?j ((put_session ?j (WebSocketSession_Send fb (state (app (world srv))) s)
        (world srv))\<lparr>app := (app (world srv))\<lparr>timers := ?ts\<rparr>\<rparr>)"
      by (auto simp: timer_expired_def Let_def res_eq on_session_def)
    have "on_session ?j (WebSocketSession_Send fb (state (app (world srv)))) (world srv) =
        Inr (put_session ?j (WebSocketSession_Send fb (state (app (world srv))) s) (world srv))"
      using s by (rule on_session_Some)
    from sessions_inv_sends_only [OF sends_only_Send [OF this] inv(1)]
    have "sessions_inv fb {} w'"
      unfolding w' by (intro sessions_inv_release) (simp add: sessions_inv_def)
    moreover have "abandoned u sid w'"
    proof (cases "?j = sid")
      case True
      with inv(2) s show ?thesis unfolding w'
        by (auto simp: abandoned_def release_def busy_def Send_defs)
    next
      case False
      have "set (timers (app (world srv))) \<subseteq> insert (timers (app (world srv)) ! i) (set ?ts)"
        using arg_cong [OF id_take_nth_drop [OF timer(3)], of set] by simp
      from image_mono [OF this, of fst] False
      have "sid \<in> fst ` set (timers (app (world srv))) \<Longrightarrow> sid \<in> fst ` set ?ts" by auto
      with False inv(2) show ?thesis unfolding w'
        by (intro abandoned_release_other) (auto simp: abandoned_def timer_sessions_def split: option.splits)
    qed
    ultimately show ?thesis by (simp add: timer(2))
  qed
qed

interpretation untouched: preserved "\<lambda>srv e srv'. flat_buffer fb \<and> untouched_step lib fb order u srv e srv'"
    "\<lambda>srv. sessions_inv fb {} (world srv) \<and> abandoned u sid (world srv)" for lib fb order u sid
  by unfold_locales (blast dest: untouched_step_inv)

lemma failed_read_abandons:
  assumes inv: "sessions_inv fb {} (world srv)" "registry_inv (world srv)"
    and u: "ctxs (app (world srv)) u = Some sid"
    and step: "server_step lib fb order srv (Ws (Ws_read sid (Ws_read_failed c))) srv'"
  shows "abandoned u sid (world srv')"
proof -
  from registered [OF inv(2) u] obtain s where s: "ws_sessions (world srv) sid = Some s" "ws_reading s \<noteq> 0" by blast
  with inv(1) have "session_inv fb sid s" "sid < ws_next (world srv)" by (auto simp: sessions_inv_def)
  with s(2) have "ws_reading s = 1" "\<not> ws_accepting s" "sid < ws_next (world srv)"
    by (auto simp: session_inv_def)
  moreover have "world srv' = release timer_sessions sid
      (put_session sid (s\<lparr>ws_reading := ws_reading s - 1\<rparr>) (world srv))"
    using step game_read_failed [OF s(1), of fb c] by (cases rule: server_step.cases) auto
  ultimately show ?thesis
    using u inv(2) by (auto simp: registry_inv_def intro!: abandoned_release)
qed

section \<open>Every later broadcast\<close>

text \<open>
  C18. In every reachable state, let the read of a registered client fail other than by a close
  (a reset connection), and let the server run on in any way, as long as no client joins or
  leaves under the same key. The entry of the registry stays; as soon as no write and no
  timer of the session is left its object is destroyed; and every broadcast after that follows
  the dangling pointer, whatever other clients there are and whether or not it is delayed.
\<close>

theorem SimpleGame_failed_read_dangles:
  assumes "flat_buffer fb" and "lists_keys order" and "no_read_fails es"
    and "runs (server_step lib fb order) game_server_new es srv"
    and "ctxs (app (world srv)) u = Some sid"
    and "server_step lib fb order srv (Ws (Ws_read sid (Ws_read_failed c))) srv1"
    and "runs (untouched_step lib fb order u) srv1 fs srv2"
    and "map_option ws_writing (ws_sessions (world srv2) sid) \<in> {None, Some []}"
    and "sid \<notin> set (timer_sessions (app (world srv2)))"
  shows "ctxs (app (world srv2)) u = Some sid \<and> ws_sessions (world srv2) sid = None \<and>
    post_set_state fb order req ps res (world srv2) = Inl (Undefined Dangling_pointer)"
proof -
  note inv = server_runs_inv [OF assms(1-4)]
  from assms(6) have "ws_enabled (Ws_read sid (Ws_read_failed c)) (world srv)"
    and "ws_complete fb (game_handlers fb) timer_sessions (Ws_read sid (Ws_read_failed c)) (world srv) = Inr (world srv1)"
    by (cases rule: server_step.cases; simp)+
  from ws_application.complete_inv [OF game_application [OF assms(1)] this inv(1)]
  have "sessions_inv fb {} (world srv1)" .
  moreover have "abandoned u sid (world srv1)" by (rule failed_read_abandons [OF inv assms(5,6)])
  moreover have "runs (\<lambda>srv e srv'. flat_buffer fb \<and> untouched_step lib fb order u srv e srv') srv1 fs srv2"
    using assms(1,7) by simp
  ultimately have ab: "abandoned u sid (world srv2)" by (blast dest: untouched.runs_preserve)
  then have gone: "ws_sessions (world srv2) sid = None" and u: "ctxs (app (world srv2)) u = Some sid"
    using assms(8,9) by (auto simp: abandoned_def split: option.splits)
  have "u \<in> set (order (dom (ctxs (app (world srv2)))))"
    using ab assms(2) by (auto simp: abandoned_def lists_keys_def)
  with broadcast_dangles [of "(world srv2)\<lparr>app := (app (world srv2))\<lparr>state := rq_body req\<rparr>\<rparr>" u sid] gone u
  show ?thesis by (simp add: post_set_state_def Let_def)
qed

text \<open>The client of \<open>greeted\<close> is reset while its echo is being written; then the write completes.\<close>

theorem SimpleGame_failed_read_dangles_witness:
  "\<exists>srv1 srv2. sample_step greeted (Ws (Ws_read 0 (Ws_read_failed 104))) srv1 \<and>
     runs (untouched_step sample_lib readable_bytes sorted_list_of_set ''k1'') srv1 [Ws (Ws_wrote 0 None)] srv2 \<and>
     post_set_state readable_bytes sorted_list_of_set (sample_request ''/test/set_state'' True) None
       (fresh_response (sample_request ''/test/set_state'' True)) (world srv2) = Inl (Undefined Dangling_pointer)"
proof -
  let ?s = "echoed readable_bytes ''hi'' True (accepted_session 0 ''k1'')"
  let ?s1 = "?s\<lparr>ws_reading := 0\<rparr>"
  let ?srv1 = "greeted\<lparr>world := put_session 0 ?s1 (world greeted)\<rparr>"
  let ?srv2 = "?srv1\<lparr>world := release timer_sessions 0
    (put_session 0 (write_completed readable_bytes ?s1) (world ?srv1))\<rparr>"
  have s: "ws_sessions (world greeted) 0 = Some ?s" "ws_reading ?s = 1" "length (ws_writing ?s) = 1"
    "\<not> ws_accepting ?s" "ctxs (app (world greeted)) ''k1'' = Some 0" "timers (app (world greeted)) = []"
    by (simp_all add: greeted_def joined_def echoed_def Send_defs accepted_session_def
        WebSocketSession_Run_def WebSocketSession_new_def Let_def)
  then have ne: "ws_writing ?s1 \<noteq> []" "length (ws_writing ?s1) = 1" by auto
  have "ws_complete readable_bytes (game_handlers readable_bytes) timer_sessions (Ws_read 0 (Ws_read_failed 104))
      (world greeted) = Inr (put_session 0 ?s1 (world greeted))"
    using game_read_failed [OF s(1), of readable_bytes 104] ne(1) s(2) by (simp add: release_def busy_def)
  with s have one: "sample_step greeted (Ws (Ws_read 0 (Ws_read_failed 104))) ?srv1"
    by (intro server_step.ws) (simp_all add: ws_enabled_def started_def handshake_checked_def)
  have s1: "ws_sessions (world ?srv1) 0 = Some ?s1" by simp
  have "sample_step ?srv1 (Ws (Ws_wrote 0 None)) ?srv2"
    using s1 ne(1) by (intro server_step.ws ws_complete_wrote [OF s1 ne(1)])
      (simp_all add: ws_enabled_def started_def handshake_checked_def)
  then have two: "runs (untouched_step sample_lib readable_bytes sorted_list_of_set ''k1'') ?srv1 [Ws (Ws_wrote 0 None)] ?srv2"
    by (simp add: runs_Cons_iff untouched_step_def game_event_def)
  have "ws_writing (write_completed readable_bytes ?s1) = []"
    using ne(2) by (cases "ws_writing ?s1") (simp_all add: write_completed_def)
  then have "map_option ws_writing (ws_sessions (world ?srv2) 0) \<in> {None, Some []}"
    and "0 \<notin> set (timer_sessions (app (world ?srv2)))"
    using s by (auto simp: release_def timer_sessions_def)
  with SimpleGame_failed_read_dangles [OF readable.flat_buffer_axioms lists_keys_sorted greeted_run(2,1) s(5) one two]
    one two show ?thesis by blast
qed

end
