(* ===== verification/Tcp_Listener.thy ===== *)
theory Tcp_Listener
  imports Prelude
begin

text \<open>
  The TCP listener: \<open>networking/tcp_listener_base.h\<close> and \<open>tcp_listener_base.cpp\<close>, and
  \<open>InitializeAcceptor\<close> of \<open>networking/net_utils.hpp\<close>. The outcome of each socket operation is
  the operating system's and a parameter; a listener that accepts hands the socket to its
  subclass, whose \<open>OnAccept\<close> acts on the subclass's state.
\<close>

section \<open>The acceptor\<close>

datatype acceptor_stage = Stage_open | Stage_set_option | Stage_bind | Stage_listen

record 'e acceptor =
  acc_open :: bool
  acc_reuse :: bool
  acc_bound :: "'e option"
  acc_listening :: bool

definition acceptor_new :: "'e acceptor" where
  "acceptor_new = \<lparr>acc_open = False, acc_reuse = False, acc_bound = None, acc_listening = False\<rparr>"

text \<open>The name \<open>Fail\<close> is given for a stage.\<close>

fun stage_name :: "acceptor_stage \<Rightarrow> string" where
  "stage_name Stage_open = ''open''"
| "stage_name Stage_set_option = ''set_option''"
| "stage_name Stage_bind = ''bind''"
| "stage_name Stage_listen = ''listen''"

text \<open>
  \<open>Fail\<close> writes its text to the log and returns it; \<open>message\<close> and \<open>printed\<close> are what the
  error code's \<open>message()\<close> and output operator give.
\<close>

definition Fail :: "(nat \<Rightarrow> string) \<Rightarrow> (nat \<Rightarrow> string) \<Rightarrow> nat \<Rightarrow> string \<Rightarrow> string" where
  "Fail message printed ec what = what @ '': '' @ message ec @ '' ec: '' @ printed ec @ [CHR 0x0A]"

text \<open>\<open>os\<close> gives the error code of a stage, 0 for none. The result, the last error code, the
  acceptor and the log.\<close>

definition InitializeAcceptor ::
  "(nat \<Rightarrow> string \<Rightarrow> string) \<Rightarrow> (acceptor_stage \<Rightarrow> nat) \<Rightarrow> 'e \<Rightarrow> 'e acceptor \<Rightarrow>
     bool \<times> nat \<times> 'e acceptor \<times> string list" where
  "InitializeAcceptor fail os endpoint acceptor =
     (let ec = os Stage_open in
      if ec \<noteq> 0 then (False, ec, acceptor, [fail ec ''open''])
      else let acceptor = acceptor\<lparr>acc_open := True\<rparr>; ec = os Stage_set_option in
      if ec \<noteq> 0 then (False, ec, acceptor, [fail ec ''set_option''])
      else let acceptor = acceptor\<lparr>acc_reuse := True\<rparr>; ec = os Stage_bind in
      if ec \<noteq> 0 then (False, ec, acceptor, [fail ec ''bind''])
      else let acceptor = acceptor\<lparr>acc_bound := Some endpoint\<rparr>; ec = os Stage_listen in
      if ec \<noteq> 0 then (False, ec, acceptor, [fail ec ''listen''])
      else (True, ec, acceptor\<lparr>acc_listening := True\<rparr>, []))"

section \<open>The listener\<close>

text \<open>
  \<open>accepting\<close> counts the outstanding accepts, \<open>ctx_stopped\<close> is set once the io_context was
  stopped, \<open>log\<close> holds what was logged, \<open>sub\<close> is the state of the subclass.
\<close>

record ('e, 'a) listener =
  acceptor :: "'e acceptor"
  accepting :: nat
  ctx_stopped :: bool
  log :: "string list"
  sub :: 'a

text \<open>The constructor throws what \<open>Fail\<close> says of the code \<open>InitializeAcceptor\<close> left.\<close>

definition TcpListenerBase_new ::
  "(nat \<Rightarrow> string \<Rightarrow> string) \<Rightarrow> (acceptor_stage \<Rightarrow> nat) \<Rightarrow> 'e \<Rightarrow> 'a \<Rightarrow> (string list, ('e, 'a) listener) sum" where
  "TcpListenerBase_new fail os endpoint a =
     (let (ok, ec, acc, logged) = InitializeAcceptor fail os endpoint acceptor_new
      in if \<not> ok then Inl (logged @ [fail ec ''InitializeAcceptor''])
         else Inr \<lparr>acceptor = acc, accepting = 0, ctx_stopped = False, log = logged, sub = a\<rparr>)"

definition DoAccept :: "('e, 'a) listener \<Rightarrow> ('e, 'a) listener" where
  "DoAccept l = l\<lparr>accepting := Suc (accepting l)\<rparr>"

definition Start :: "('e, 'a) listener \<Rightarrow> ('e, 'a) listener" where
  "Start l = DoAccept l"

text \<open>The base class's \<open>OnClose\<close> does nothing.\<close>

definition Stop :: "('a \<Rightarrow> 'a) \<Rightarrow> ('e, 'a) listener \<Rightarrow> ('e, 'a) listener" where
  "Stop on_close l = l\<lparr>acceptor := (acceptor l)\<lparr>acc_open := False, acc_listening := False\<rparr>,
     ctx_stopped := True, sub := on_close (sub l)\<rparr>"

text \<open>In the destructor \<open>Stop\<close> calls the base class's \<open>OnClose\<close>, whatever the subclass has.\<close>

definition TcpListenerBase_destroy :: "('e, 'a) listener \<Rightarrow> ('e, 'a) listener" where
  "TcpListenerBase_destroy l = Stop (\<lambda>a. a) l"

definition OnError :: "(nat \<Rightarrow> string \<Rightarrow> string) \<Rightarrow> nat \<Rightarrow> string \<Rightarrow> ('e, 'a) listener \<Rightarrow> ('e, 'a) listener" where
  "OnError fail ec what l = l\<lparr>log := log l @ [fail ec what]\<rparr>"

text \<open>An accept ends with an error code or a socket.\<close>

definition OnAcceptContinue ::
  "(nat \<Rightarrow> string \<Rightarrow> string) \<Rightarrow> ('s \<Rightarrow> 'a \<Rightarrow> 'a) \<Rightarrow> nat + 's \<Rightarrow> ('e, 'a) listener \<Rightarrow> ('e, 'a) listener" where
  "OnAcceptContinue fail on_accept result l =
     DoAccept (case result of
        Inl ec \<Rightarrow> OnError fail ec ''accept'' l
      | Inr socket \<Rightarrow> l\<lparr>sub := on_accept socket (sub l)\<rparr>)"

text \<open>
  The steps of a running context: an outstanding accept completes, with an error when the
  acceptor is not listening, or the listener is stopped. A stopped context runs nothing.
\<close>

datatype 's listener_event = Accepted "nat + 's" | Stopped

inductive listener_step ::
  "(nat \<Rightarrow> string \<Rightarrow> string) \<Rightarrow> ('s \<Rightarrow> 'a \<Rightarrow> 'a) \<Rightarrow> ('a \<Rightarrow> 'a) \<Rightarrow>
     ('e, 'a) listener \<Rightarrow> 's listener_event \<Rightarrow> ('e, 'a) listener \<Rightarrow> bool"
  for fail on_accept on_close where
  accepted: "\<not> ctx_stopped l \<Longrightarrow> accepting l = Suc n \<Longrightarrow>
     acc_listening (acceptor l) \<or> (\<exists>ec. result = Inl ec) \<Longrightarrow>
     listener_step fail on_accept on_close l (Accepted result)
       (OnAcceptContinue fail on_accept result (l\<lparr>accepting := n\<rparr>))"
| stopped: "\<not> ctx_stopped l \<Longrightarrow>
     listener_step fail on_accept on_close l Stopped (Stop on_close l)"

inductive_cases listener_acceptedE: "listener_step fail on_accept on_close l (Accepted result) l'"
inductive_cases listener_stoppedE: "listener_step fail on_accept on_close l Stopped l'"

lemmas listener_defs = DoAccept_def Start_def Stop_def OnError_def OnAcceptContinue_def

section \<open>Runs of a listener\<close>

text \<open>What a run hands to the subclass and what it logs.\<close>

fun sockets :: "'s listener_event list \<Rightarrow> 's list" where
  "sockets [] = []"
| "sockets (Accepted (Inr s) # es) = s # sockets es"
| "sockets (_ # es) = sockets es"

fun accept_errors :: "'s listener_event list \<Rightarrow> nat list" where
  "accept_errors [] = []"
| "accept_errors (Accepted (Inl ec) # es) = ec # accept_errors es"
| "accept_errors (_ # es) = accept_errors es"

lemma listener_stopped_end:
  assumes "ctx_stopped l" and "runs (listener_step fail on_accept on_close) l es l'"
  shows "es = [] \<and> l' = l"
  using assms(2,1) by (cases rule: runs.cases) (auto elim: listener_step.cases)

lemma listener_runs:
  assumes "runs (listener_step fail on_accept on_close) l es l'" and "accepting l = 1"
    and "acc_listening (acceptor l)" and "\<not> ctx_stopped l"
  shows "accepting l' = 1 \<and> log l' = log l @ map (\<lambda>ec. fail ec ''accept'') (accept_errors es) \<and>
    (if ctx_stopped l' then \<not> acc_listening (acceptor l') \<and>
       sub l' = on_close (fold on_accept (sockets es) (sub l))
     else acc_listening (acceptor l') \<and> sub l' = fold on_accept (sockets es) (sub l))"
  using assms
proof (induction rule: runs.induct)
  case (runs_nil s)
  then show ?case by simp
next
  case (runs_cons s e t es u)
  show ?case
  proof (cases e)
    case (Accepted result)
    with runs_cons.hyps(1) runs_cons.prems
    have t: "t = OnAcceptContinue fail on_accept result (s\<lparr>accepting := 0\<rparr>)"
      by (auto elim: listener_acceptedE)
    have "accepting t = 1" "acc_listening (acceptor t)" "\<not> ctx_stopped t"
      using runs_cons.prems by (auto simp: t listener_defs split: sum.split)
    note IH = runs_cons.IH [OF this]
    show ?thesis
      by (cases result) (use IH in \<open>auto simp: t Accepted listener_defs split: if_splits\<close>)
  next
    case Stopped
    with runs_cons.hyps(1) have t: "t = Stop on_close s" by (auto elim: listener_stoppedE)
    then have "es = [] \<and> u = t"
      using runs_cons.hyps(2) by (intro listener_stopped_end) (simp_all add: Stop_def)
    with runs_cons.prems t Stopped show ?thesis by (simp add: Stop_def)
  qed
qed

text \<open>
  The constructor returns a listener, bound to its endpoint, with the reuse option set
  and listening, exactly when all four socket operations succeed; otherwise it throws, the
  log naming the first operation that failed, and the later ones are not attempted.
\<close>

lemma TcpListener_constructor:
  "TcpListenerBase_new fail os endpoint a =
     (case filter (\<lambda>st. os st \<noteq> 0) [Stage_open, Stage_set_option, Stage_bind, Stage_listen] of
        [] \<Rightarrow> Inr \<lparr>acceptor = \<lparr>acc_open = True, acc_reuse = True, acc_bound = Some endpoint,
            acc_listening = True\<rparr>, accepting = 0, ctx_stopped = False, log = [], sub = a\<rparr>
      | st # _ \<Rightarrow> Inl [fail (os st) (stage_name st), fail (os st) ''InitializeAcceptor''])"
  by (simp add: TcpListenerBase_new_def InitializeAcceptor_def Let_def acceptor_new_def)

text \<open>
  C19. From \<open>Start\<close> on, whatever accepts fail or succeed, exactly one accept is outstanding
  after every completion; every accepted socket is handed to \<open>OnAccept\<close> once, in order, and
  every error is logged in order and nothing else; an error stops nothing (the comment on
  \<open>OnError\<close> in \<open>tcp_listener_base.h\<close> says that it stops the server; the code does not): the
  listener keeps listening and accepting until \<open>Stop\<close>, after which \<open>OnClose\<close> was called once and no handler runs.
\<close>

theorem TcpListener_accepts:
  assumes "TcpListenerBase_new fail os endpoint a = Inr l"
    and "runs (listener_step fail on_accept on_close) (Start l) es l'"
  shows "accepting l' = 1 \<and> log l' = map (\<lambda>ec. fail ec ''accept'') (accept_errors es) \<and>
    (if ctx_stopped l'
     then sub l' = on_close (fold on_accept (sockets es) a) \<and>
       \<not> (\<exists>e l''. listener_step fail on_accept on_close l' e l'')
     else acc_listening (acceptor l') \<and> sub l' = fold on_accept (sockets es) a)"
proof -
  have "accepting (Start l) = 1" "acc_listening (acceptor (Start l))" "\<not> ctx_stopped (Start l)"
    "log (Start l) = []" "sub (Start l) = a"
    using assms(1)
    by (auto simp: TcpListenerBase_new_def InitializeAcceptor_def Let_def listener_defs
        acceptor_new_def split: if_splits)
  with listener_runs [OF assms(2)] show ?thesis
    by (auto elim: listener_step.cases split: if_splits)
qed

theorem TcpListener_accepts_witness:
  "\<exists>l (l' :: (nat, nat list) listener). TcpListenerBase_new (\<lambda>ec what. what) (\<lambda>st. 0) (5 :: nat) [] = Inr l \<and>
     runs (listener_step (\<lambda>ec what. what) (\<lambda>s xs. xs @ [s]) (\<lambda>xs. xs)) (Start l)
       [Accepted (Inr 3), Accepted (Inl 24), Accepted (Inr 4), Stopped] l' \<and>
     sub l' = [3, 4] \<and> accepting l' = 1 \<and> log l' = [''accept'']"
proof -
  let ?fail = "\<lambda>(ec :: nat) (what :: string). what"
  let ?on = "\<lambda>(s :: nat) xs. xs @ [s]" and ?close = "\<lambda>xs :: nat list. xs"
  let ?l = "\<lparr>acceptor = \<lparr>acc_open = True, acc_reuse = True, acc_bound = Some (5 :: nat),
    acc_listening = True\<rparr>, accepting = 0, ctx_stopped = False, log = [], sub = []\<rparr> :: (nat, nat list) listener"
  let ?a = "\<lambda>r l. OnAcceptContinue ?fail ?on r (l\<lparr>accepting := 0\<rparr>)"
  let ?final = "Stop ?close (?a (Inr 4) (?a (Inl 24) (?a (Inr 3) (Start ?l))))"
  have new: "TcpListenerBase_new ?fail (\<lambda>st. 0) (5 :: nat) [] = Inr ?l"
    by (simp add: TcpListenerBase_new_def InitializeAcceptor_def Let_def acceptor_new_def)
  have step: "runs (listener_step ?fail ?on ?close) l (Accepted r # es) u"
    if "\<not> ctx_stopped l" "accepting l = 1" "acc_listening (acceptor l)"
      "runs (listener_step ?fail ?on ?close) (?a r l) es u"
    for l u :: "(nat, nat list) listener" and r es
    using that listener_step.accepted [of l 0 r ?fail ?on ?close] by (auto simp: runs_Cons_iff)
  have stop: "runs (listener_step ?fail ?on ?close) l [Stopped] (Stop ?close l)"
    if "\<not> ctx_stopped l" for l :: "(nat, nat list) listener"
    using that by (auto simp: runs_Cons_iff intro: listener_step.stopped)
  have "runs (listener_step ?fail ?on ?close) (Start ?l)
      [Accepted (Inr 3), Accepted (Inl 24), Accepted (Inr 4), Stopped] ?final"
    by (intro step stop) (simp_all add: listener_defs)
  with TcpListener_accepts [OF new this] new show ?thesis
    by (intro exI [of _ ?l] exI [of _ ?final]) (simp add: listener_defs)
qed

text \<open>A listener that is destroyed without \<open>Stop\<close> stops the context, but its subclass is not told.\<close>

lemma TcpListener_destroyed:
  "ctx_stopped (TcpListenerBase_destroy l) \<and> \<not> acc_listening (acceptor (TcpListenerBase_destroy l)) \<and>
   sub (TcpListenerBase_destroy l) = sub l"
  by (simp add: TcpListenerBase_destroy_def Stop_def)

end
