(* ===== verification/Interfaces.thy ===== *)
theory Interfaces
  imports Ws_Session Tcp_Listener
begin

text \<open>
  The abstract classes of the networking library, \<open>SessionBase\<close> of \<open>networking/session_base.h\<close>
  and \<open>INetworkServer\<close> of \<open>networking/interfaces/i_network_server.h\<close>: a class with pure
  virtual functions is a record of operations, a subclass a value of it, and what the comments
  of the interface promise is a locale that the subclasses' models satisfy.
\<close>

section \<open>Sessions\<close>

text \<open>
  \<open>'s\<close> is what the operations act on, \<open>'r\<close> and \<open>'x\<close> are what a read and a write complete with.
\<close>

record ('s, 'r, 'x) session_base =
  sb_Run :: "'s \<Rightarrow> 's res"
  sb_OnRead :: "'r \<Rightarrow> 's \<Rightarrow> 's res"
  sb_OnWrite :: "'x \<Rightarrow> 's \<Rightarrow> 's res"
  sb_Read :: "'s \<Rightarrow> 's res"
  sb_Write :: "'s \<Rightarrow> 's res"
  sb_Close :: "'s \<Rightarrow> 's res"

definition HttpSession_base ::
  "('v, 'u) http_lib \<Rightarrow> (('v, 'w) callback, 'h) route_manager option \<Rightarrow>
     (('v, 'h) http_session \<times> 'w, 'v read_result, bool) session_base" where
  "HttpSession_base lib rm = \<lparr>
     sb_Run = (\<lambda>(s, w). Inr (HttpSession_Run s, w)),
     sb_OnRead = (\<lambda>r (s, w). HttpSession_OnRead lib rm r s w),
     sb_OnWrite = (\<lambda>ok (s, w). Inr (HttpSession_OnWrite ok s, w)),
     sb_Read = (\<lambda>(s, w). Inr (HttpSession_Read s, w)),
     sb_Write = (\<lambda>(s, w). bind_res (HttpSession_Write lib s) (\<lambda>s'. Inr (s', w))),
     sb_Close = (\<lambda>(s, w). Inr (HttpSession_Close s, w))\<rparr>"

definition WebSocketSession_base ::
  "'b flat_buffer_ops \<Rightarrow> ('v, 'b, 'h, 'a) ws_world ws_handler \<Rightarrow> endpoint \<Rightarrow> endpoint \<Rightarrow> nat \<Rightarrow>
     (('v, 'b, 'h, 'a) ws_world, ws_read_result, nat option \<times> nat) session_base" where
  "WebSocketSession_base fb handler remote local_end sid = \<lparr>
     sb_Run = on_session sid (WebSocketSession_Run remote local_end),
     sb_OnRead = WebSocketSession_OnRead fb handler sid,
     sb_OnWrite = (\<lambda>(ec, n). WebSocketSession_OnWrite fb handler sid ec n),
     sb_Read = on_session sid WebSocketSession_Read,
     sb_Write = on_session sid (WebSocketSession_Write fb),
     sb_Close = on_session sid WebSocketSession_Close\<rparr>"

definition start_calls :: "('s \<Rightarrow> 's res) list \<Rightarrow> 's \<Rightarrow> 's res" where
  "start_calls fs s = fold_res (\<lambda>f. f) fs s"

text \<open>
  The contract: \<open>Read\<close> and \<open>Write\<close> start one operation of their kind and nothing else,
  \<open>Close\<close> starts nothing, and \<open>Run\<close> starts an operation that is no write. An operation holds
  the session alive: it keeps a \<open>shared_ptr\<close> to it until it completes.
\<close>

locale session_contract =
  fixes base :: "('s, 'r, 'x) session_base"
    and reading writing :: "'s \<Rightarrow> nat"
    and alive :: "'s \<Rightarrow> bool"
  assumes Run_starts: "sb_Run base s = Inr s' \<Longrightarrow> alive s' \<and> writing s' = writing s"
    and Read_starts: "sb_Read base s = Inr s' \<Longrightarrow>
      reading s' = Suc (reading s) \<and> writing s' = writing s \<and> alive s'"
    and Write_starts: "sb_Write base s = Inr s' \<Longrightarrow>
      reading s' = reading s \<and> writing s' = Suc (writing s) \<and> alive s'"
    and Close_starts: "sb_Close base s = Inr s' \<Longrightarrow>
      reading s' = reading s \<and> writing s' = writing s \<and> (alive s' \<longleftrightarrow> alive s)"
begin

text \<open>A session that was run stays alive while operations are only started.\<close>

lemma calls_alive:
  "set fs \<subseteq> {sb_Run base, sb_Read base, sb_Write base, sb_Close base} \<Longrightarrow> alive s \<Longrightarrow>
   start_calls fs s = Inr s' \<Longrightarrow> alive s'"
  unfolding start_calls_def
proof (induction fs arbitrary: s)
  case (Cons f fs)
  then obtain t where t: "f s = Inr t" "fold_res (\<lambda>f. f) fs t = Inr s'" by (auto simp: res_eq)
  have "alive t"
    using Cons.prems(1,2) t(1) Run_starts Read_starts Write_starts Close_starts by auto
  with Cons t(2) show ?case by simp
qed simp

lemma run_alive:
  assumes "set fs \<subseteq> {sb_Run base, sb_Read base, sb_Write base, sb_Close base}"
    and "start_calls (sb_Run base # fs) s = Inr s'"
  shows "alive s'"
proof -
  from assms(2) obtain t where t: "sb_Run base s = Inr t" "start_calls fs t = Inr s'"
    by (auto simp: start_calls_def res_eq)
  with Run_starts calls_alive [OF assms(1)] show ?thesis by blast
qed

text \<open>The reply of a handler, a write and the next read, leaves one more of each under way.\<close>

lemma reply_counts:
  "start_calls [sb_Write base, sb_Read base] s = Inr s' \<Longrightarrow>
   reading s' = Suc (reading s) \<and> writing s' = Suc (writing s) \<and> alive s'"
  by (auto simp: start_calls_def res_eq dest!: Read_starts Write_starts)

end

interpretation http_base: session_contract "HttpSession_base lib rm"
    "\<lambda>(s, w). length (reads s)" "\<lambda>(s, w). length (writes s)" "\<lambda>(s, w). \<not> HttpSession_finished s"
  for lib rm
  by unfold_locales
    (auto simp: HttpSession_base_def HttpSession_defs HttpSession_finished_def res_eq Let_def
      split: option.splits)

interpretation ws_base: session_contract "WebSocketSession_base fb handler remote local_end sid"
    "\<lambda>w. case ws_sessions w sid of None \<Rightarrow> 0 | Some s \<Rightarrow> ws_reading s"
    "\<lambda>w. case ws_sessions w sid of None \<Rightarrow> 0 | Some s \<Rightarrow> length (ws_writing s)"
    "\<lambda>w. case ws_sessions w sid of None \<Rightarrow> False | Some s \<Rightarrow> busy s"
  for fb handler remote local_end sid
  by unfold_locales
    (auto simp: WebSocketSession_base_def on_session_def get_session_def put_session_def res_eq
      WebSocketSession_Run_def WebSocketSession_Read_def WebSocketSession_Write_def
      WebSocketSession_Close_def busy_def split: option.splits if_splits)

text \<open>What every answered request ends with is that reply.\<close>

lemma HttpSession_finish_calls:
  "HttpSession_finish lib s w =
     start_calls [sb_Write (HttpSession_base lib rm), sb_Read (HttpSession_base lib rm)] (s, w)"
  by (cases "HttpSession_Write lib s")
    (simp_all add: HttpSession_finish_def start_calls_def HttpSession_base_def)

section \<open>Servers\<close>

record 's network_server =
  sv_Start :: "'s \<Rightarrow> 's"
  sv_Stop :: "'s \<Rightarrow> 's"

definition TcpListenerBase_server :: "('a \<Rightarrow> 'a) \<Rightarrow> ('e, 'a) listener network_server" where
  "TcpListenerBase_server on_close = \<lparr>sv_Start = Start, sv_Stop = Stop on_close\<rparr>"

text \<open>
  The contract: a server that is ready can be started, and a completion can then arrive; after
  \<open>Stop\<close> none does.
\<close>

locale network_server_contract =
  fixes server :: "'s network_server"
    and ready :: "'s \<Rightarrow> bool"
    and step :: "'s \<Rightarrow> 'e \<Rightarrow> 's \<Rightarrow> bool"
  assumes Start_serves: "ready s \<Longrightarrow> \<exists>e t. step (sv_Start server s) e t"
    and Stop_ends: "\<not> step (sv_Stop server s) e t"
begin

lemma runs_after_Stop: "runs step (sv_Stop server s) es t \<Longrightarrow> es = [] \<and> t = sv_Stop server s"
  using Stop_ends by (cases es) (auto simp: runs_Cons_iff)

lemma started_not_stopped: "ready s \<Longrightarrow> sv_Start server s \<noteq> sv_Stop server s'"
  using Start_serves Stop_ends by metis

end

interpretation tcp_base: network_server_contract
    "TcpListenerBase_server on_close :: ('e, 'a) listener network_server"
    "\<lambda>l. \<not> ctx_stopped l" "listener_step fail on_accept on_close"
  for on_close fail on_accept
proof
  fix l :: "('e, 'a) listener"
  assume "\<not> ctx_stopped l"
  then have "listener_step fail on_accept on_close (Start l) (Accepted (Inl 1))
      (OnAcceptContinue fail on_accept (Inl 1) (Start l\<lparr>accepting := accepting l\<rparr>))"
    by (intro listener_step.accepted) (auto simp: listener_defs)
  then show "\<exists>e t. listener_step fail on_accept on_close (sv_Start (TcpListenerBase_server on_close) l) e t"
    by (auto simp: TcpListenerBase_server_def)
qed (auto simp: TcpListenerBase_server_def Stop_def elim: listener_step.cases)

end
