(* ===== verification/Simple_Server.thy ===== *)
theory Simple_Server
  imports Simple_Game
begin

text \<open>
  The program \<open>apps/simple_server\<close>: \<open>main.cpp\<close>, whose listener has no route manager, and
  the player controller that sends over a websocket (\<open>websocket_player_controller.hpp\<close>).
\<close>

section \<open>The program\<close>

text \<open>\<open>main\<close> up to the listener: as in the simple game, with the port 8888 by default.\<close>

definition simple_server_port :: "string list \<Rightarrow> nat + 16 word" where
  "simple_server_port argv =
     (if 1 < length argv
      then (case std_stoi (argv ! 1) of Inl e \<Rightarrow> Inl 1 | Inr port \<Rightarrow> Inr (word_of_int port))
      else Inr (word_of_int 8888))"

text \<open>\<open>route_manager_\<close> of its \<open>TestListener\<close> is never set.\<close>

definition server_route_manager :: "(('v, 'w) callback, 'h) route_manager option" where
  "server_route_manager = None"

definition server_OnAccept :: "endpoint \<Rightarrow> ('v, 'h) http_session" where
  "server_OnAccept local_end = HttpSession_Run (HttpSession_new (fst local_end) (snd local_end))"

section \<open>Player controllers over websockets\<close>

text \<open>\<open>posted\<close> counts the handlers \<open>OnCommand\<close> has posted, which do nothing.\<close>

record ws_player_controller =
  ws_context :: ws_context
  posted :: nat

definition WebSocketPlayerController_new :: "ws_context \<Rightarrow> ws_player_controller" where
  "WebSocketPlayerController_new c = \<lparr>ws_context = c, posted = 0\<rparr>"

definition PlayerController_OnCommand :: "'c \<Rightarrow> ws_player_controller \<Rightarrow> ws_player_controller" where
  "PlayerController_OnCommand command p = p\<lparr>posted := Suc (posted p)\<rparr>"

definition PlayerController_SendMessage ::
  "'b flat_buffer_ops \<Rightarrow> string \<Rightarrow> ws_player_controller \<Rightarrow> ('v, 'b, 'h, 'a) ws_world \<Rightarrow>
     ('v, 'b, 'h, 'a) ws_world res" where
  "PlayerController_SendMessage fb message p w =
     (case lock (ctx_ws_session (ws_context p)) w of
        Some session \<Rightarrow> on_session session (WebSocketSession_Send fb message) w
      | None \<Rightarrow> Inr w)"

text \<open>The call of \<open>Close\<close> is commented out.\<close>

definition PlayerController_Disconnect ::
  "ws_player_controller \<Rightarrow> ('v, 'b, 'h, 'a) ws_world \<Rightarrow> ('v, 'b, 'h, 'a) ws_world res" where
  "PlayerController_Disconnect p w =
     (case lock (ctx_ws_session (ws_context p)) w of Some session \<Rightarrow> Inr w | None \<Rightarrow> Inr w)"

text \<open>
  A message goes to the controller's session if it is still alive, and nowhere otherwise:
  the weak pointer never dangles.
\<close>

lemma SendMessage_eq:
  "\<exists>w'. PlayerController_SendMessage fb m p w = Inr w' \<and> app w' = app w \<and> ws_next w' = ws_next w \<and>
     (\<forall>sid. ws_sessions w' sid = map_option (if ctx_ws_session (ws_context p) = Some sid
       then WebSocketSession_Send fb m else (\<lambda>s. s)) (ws_sessions w sid))"
proof (cases "lock (ctx_ws_session (ws_context p)) w")
  case None
  then have "ws_sessions w sid = None" if "ctx_ws_session (ws_context p) = Some sid" for sid
    using that by (auto simp: lock_def split: if_splits)
  with None show ?thesis
    by (auto simp: PlayerController_SendMessage_def option.map_ident)
next
  case (Some sid)
  then obtain s where "ctx_ws_session (ws_context p) = Some sid" "ws_sessions w sid = Some s"
    by (auto simp: lock_def split: option.splits if_splits)
  with Some show ?thesis
    by (auto simp: PlayerController_SendMessage_def on_session_Some option.map_ident)
qed

section \<open>The interface of the controllers\<close>

text \<open>
  \<open>PlayerControllerBase\<close> of \<open>player_controller_base.hpp\<close>: \<open>'p\<close> is a controller, \<open>'w\<close> what its
  messages act on. Its contract: a message can always be sent.
\<close>

record ('c, 'p, 'w) player_controller_base =
  pc_OnCommand :: "'c \<Rightarrow> 'p \<Rightarrow> 'p"
  pc_SendMessage :: "string \<Rightarrow> 'p \<Rightarrow> 'w \<Rightarrow> 'w res"
  pc_Disconnect :: "'p \<Rightarrow> 'w \<Rightarrow> 'w res"

definition WebSocketPlayerController_base ::
  "'b flat_buffer_ops \<Rightarrow> ('c, ws_player_controller, ('v, 'b, 'h, 'a) ws_world) player_controller_base" where
  "WebSocketPlayerController_base fb = \<lparr>pc_OnCommand = PlayerController_OnCommand,
     pc_SendMessage = PlayerController_SendMessage fb, pc_Disconnect = PlayerController_Disconnect\<rparr>"

locale player_controllers =
  fixes base :: "('c, 'p, 'w) player_controller_base"
    and ok :: "'w \<Rightarrow> bool"
  assumes SendMessage_ok: "ok w \<Longrightarrow> \<exists>w'. pc_SendMessage base m p w = Inr w' \<and> ok w'"
begin

text \<open>One message after the other, through whatever controllers.\<close>

lemma messages_sent: "ok w \<Longrightarrow> \<exists>w'. fold_res (\<lambda>(m, p). pc_SendMessage base m p) ms w = Inr w' \<and> ok w'"
proof (induction ms arbitrary: w)
  case (Cons mp ms)
  obtain m p w1 where "mp = (m, p)" "pc_SendMessage base m p w = Inr w1" "ok w1"
    using SendMessage_ok [OF Cons.prems] by (cases mp) blast
  with Cons.IH show ?case by simp
qed simp

end

text \<open>Sending destroys no session and makes none, so the sessions of the messages stay.\<close>

interpretation ws_controllers: player_controllers "WebSocketPlayerController_base fb"
    "\<lambda>w :: ('v, 'b, 'h, 'a) ws_world. dom (ws_sessions w) = alive"
  for fb :: "'b flat_buffer_ops" and alive
proof
  fix w :: "('v, 'b, 'h, 'a) ws_world" and m p
  assume "dom (ws_sessions w) = alive"
  with SendMessage_eq [of fb m p w]
  show "\<exists>w'. pc_SendMessage (WebSocketPlayerController_base fb) m p w = Inr w' \<and> dom (ws_sessions w') = alive"
    by (auto simp: WebSocketPlayerController_base_def dom_def)
qed

section \<open>Properties\<close>

text \<open>
  \<open>Disconnect\<close> disconnects nobody: it leaves every session as it is, alive or not.
\<close>

lemma PlayerController_Disconnect_idle:
  "PlayerController_Disconnect p w = Inr w"
  by (simp add: PlayerController_Disconnect_def split: option.split)

lemma server_session_idle:
  assumes "runs (http_step lib server_route_manager) (s, w) es (s', w')"
    and "writes s = [] \<and> delivered s = [] \<and> response s = None"
  shows "writes s' = [] \<and> delivered s' = [] \<and> response s' = None"
  using assms
proof (induction "(s, w)" es "(s', w')" arbitrary: s w rule: runs.induct)
  case runs_nil
  then show ?case by simp
next
  case (runs_cons e c es)
  obtain t v where c: "c = (t, v)" by (cases c)
  from runs_cons.hyps(1) runs_cons.prems have "writes t = [] \<and> delivered t = [] \<and> response t = None"
    unfolding c
    by (cases rule: http_step.cases)
      (auto simp: HttpSession_OnRead_def HttpSession_Close_def OnRequest_eq server_route_manager_def
        split: read_result.splits if_splits option.splits)
  with runs_cons.hyps(3) c show ?case by blast
qed

text \<open>
  The simple server answers no request: its listener passes a null route manager to
  every session, so that the first request of every connection, whatever it is, is
  undefined behaviour, and no response is ever written.
\<close>

lemma SimpleServer_answers_nothing:
  assumes "runs (http_step lib server_route_manager) (server_OnAccept local_end, w) es (s, w')"
  shows "writes s = [] \<and> delivered s = [] \<and>
    (\<exists>b. HttpSession_OnRead lib server_route_manager (Got_request req) s w' = Inl (Undefined b))"
proof -
  have "writes s = [] \<and> delivered s = [] \<and> response s = None"
    by (rule server_session_idle [OF assms]) (simp add: server_OnAccept_def HttpSession_defs)
  then show ?thesis
    by (auto simp: HttpSession_OnRead_def OnRequest_eq server_route_manager_def split: option.split)
qed

lemma SimpleServer_answers_nothing_witness:
  "\<exists>b. HttpSession_OnRead sample_lib (server_route_manager :: ((nat, nat) callback, nat) route_manager option)
     (Got_request (sample_request ''/test'' True)) (server_OnAccept (''h'', 1)) 0 = Inl (Undefined b)"
proof -
  let ?rm = "server_route_manager :: ((nat, nat) callback, nat) route_manager option"
  have "runs (http_step sample_lib ?rm) (server_OnAccept (''h'', 1), 0) [] (server_OnAccept (''h'', 1), 0)"
    by simp
  from SimpleServer_answers_nothing [OF this] show ?thesis by blast
qed

end
