(* ===== verification/Tcp_Server.thy ===== *)
theory Tcp_Server
  imports Simple_Server Tcp_Listener
begin

text \<open>
  The listener of \<open>apps/simple_server/tcp_listener.hpp\<close> and \<open>tcp_listener.cpp\<close> with its
  connections. Its one route is the websocket at \<open>/\<close>, whose handler echoes; the sessions
  share only the registry \<open>ctxs_\<close>, which nothing reads, so that the server is the product
  of its sessions.
\<close>

section \<open>The handlers\<close>

text \<open>\<open>ctxs_\<close>; the route manager is what \<open>BuildRouteManager\<close> gives, below.\<close>

record tcp_listener =
  tl_ctxs :: "string \<rightharpoonup> nat"

datatype tcp_ws_handler = Echo_handler

type_synonym ('v, 'b) tcp_world = "('v, 'b, tcp_ws_handler, tcp_listener) ws_world"

definition tcp_on_connect :: "nat \<Rightarrow> ('v, 'b) tcp_world \<Rightarrow> ('v, 'b) tcp_world res" where
  "tcp_on_connect sid w = bind_res (get_session sid w) (\<lambda>s.
     Inr (w\<lparr>app := (app w)\<lparr>tl_ctxs := umap_assign (ctx_uuid (ctx s)) sid (tl_ctxs (app w))\<rparr>\<rparr>))"

definition tcp_erase :: "string \<Rightarrow> ('v, 'b) tcp_world \<Rightarrow> ('v, 'b) tcp_world" where
  "tcp_erase uuid w =
     (if umap_count uuid (tl_ctxs (app w)) \<noteq> 0
      then w\<lparr>app := (app w)\<lparr>tl_ctxs := umap_erase uuid (tl_ctxs (app w))\<rparr>\<rparr> else w)"

definition tcp_on_disconnect :: "nat \<Rightarrow> ('v, 'b) tcp_world \<Rightarrow> ('v, 'b) tcp_world res" where
  "tcp_on_disconnect sid w = bind_res (get_session sid w) (\<lambda>s. Inr (tcp_erase (ctx_uuid (ctx s)) w))"

definition tcp_on_receive ::
  "'b flat_buffer_ops \<Rightarrow> nat \<Rightarrow> string \<Rightarrow> nat \<Rightarrow> bool \<Rightarrow> ('v, 'b) tcp_world \<Rightarrow> ('v, 'b) tcp_world res" where
  "tcp_on_receive fb sid buf n is_binary w = bind_res (get_session sid w) (\<lambda>s.
     case lock (ctx_ws_session (ctx s)) w of
       Some session \<Rightarrow> on_session session (WebSocketSession_Send fb (buf @ '' UwU Kawaiiiiiiii!'')) w
     | None \<Rightarrow> Inr (tcp_erase (ctx_uuid (ctx s)) w))"

definition tcp_handlers ::
  "'b flat_buffer_ops \<Rightarrow> tcp_ws_handler \<Rightarrow> ('v, 'b) tcp_world ws_handler" where
  "tcp_handlers fb h = WSHandler_default\<lparr>on_connect := tcp_on_connect,
     on_disconnect := tcp_on_disconnect, on_receive := tcp_on_receive fb\<rparr>"

definition TcpListener_BuildRouteManager ::
  "(('v, ('v, 'b) tcp_world) callback, tcp_ws_handler) route_manager option res" where
  "TcpListener_BuildRouteManager =
     bind_res (run_builder [AddWebsocket_call ''/'' Echo_handler] RouteManagerBuilder_new)
       (\<lambda>b. Inr (fst (Build b)))"

section \<open>The server\<close>

record ('v, 'b) tcp_server =
  tcp_http :: "nat \<rightharpoonup> endpoint \<times> ('v, tcp_ws_handler) http_session"
  tcp_ws :: "('v, 'b) tcp_world"

definition tcp_server_new :: "('v, 'b) tcp_server" where
  "tcp_server_new = \<lparr>tcp_http = Map.empty, tcp_ws = \<lparr>ws_sessions = Map.empty, ws_ended = Map.empty,
     ws_next = 0, app = \<lparr>tl_ctxs = Map.empty\<rparr>\<rparr>\<rparr>"

text \<open>The constructor sets the base class up, which may throw, and then builds the routes.\<close>

definition TcpListener_new ::
  "(nat \<Rightarrow> string \<Rightarrow> string) \<Rightarrow> (acceptor_stage \<Rightarrow> nat) \<Rightarrow> 'e \<Rightarrow>
     (string list, ('e, ('v, 'b) tcp_server) listener \<times>
       (('v, ('v, 'b) tcp_world) callback, tcp_ws_handler) route_manager option res) sum" where
  "TcpListener_new fail os endpoint =
     (case TcpListenerBase_new fail os endpoint tcp_server_new of
        Inl logged \<Rightarrow> Inl logged
      | Inr l \<Rightarrow> Inr (l, TcpListener_BuildRouteManager))"

text \<open>\<open>OnAccept\<close> makes an HTTP session for the socket, the connection number \<open>k\<close>, and runs it.\<close>

definition TcpListener_OnAccept ::
  "nat \<Rightarrow> endpoint \<Rightarrow> endpoint \<Rightarrow> ('v, 'b) tcp_server \<Rightarrow> ('v, 'b) tcp_server" where
  "TcpListener_OnAccept k peer local_end srv =
     srv\<lparr>tcp_http := (tcp_http srv)(k \<mapsto>
       (peer, HttpSession_Run (HttpSession_new (fst local_end) (snd local_end))))\<rparr>"

definition tcp_hand_over ::
  "'b flat_buffer_ops \<Rightarrow> nat \<Rightarrow> endpoint \<Rightarrow> ('v, tcp_ws_handler) http_session \<Rightarrow>
     ('v, 'b) tcp_world \<Rightarrow> ('v, 'b) tcp_server \<Rightarrow> ('v, 'b) tcp_server" where
  "tcp_hand_over fb k peer s w srv =
     (case ws_started s of
        None \<Rightarrow> srv\<lparr>tcp_http := (tcp_http srv)(k \<mapsto> (peer, s)), tcp_ws := w\<rparr>
      | Some (req, ps, h) \<Rightarrow> srv\<lparr>tcp_http := (tcp_http srv)(k := None),
          tcp_ws := start_session fb req ps h peer (local_address s, local_port s) w\<rparr>)"

datatype 'v tcp_event =
    Tcp_connect nat endpoint endpoint
  | Tcp_http nat "'v http_event"
  | Tcp_ws ws_event

inductive tcp_step ::
  "('v, 'u) http_lib \<Rightarrow> 'b flat_buffer_ops \<Rightarrow> ('v, 'b) tcp_server \<Rightarrow> 'v tcp_event \<Rightarrow> ('v, 'b) tcp_server \<Rightarrow> bool"
  for lib fb where
  tcp_connect: "tcp_http srv k = None \<Longrightarrow>
     tcp_step lib fb srv (Tcp_connect k peer local_end) (TcpListener_OnAccept k peer local_end srv)"
| tcp_request: "tcp_http srv k = Some (peer, s) \<Longrightarrow> TcpListener_BuildRouteManager = Inr rm \<Longrightarrow>
     http_step lib rm (s, tcp_ws srv) e (s', w') \<Longrightarrow>
     tcp_step lib fb srv (Tcp_http k e) (tcp_hand_over fb k peer s' w' srv)"
| tcp_websocket: "ws_enabled e (tcp_ws srv) \<Longrightarrow> handshake_checked e (tcp_ws srv) \<Longrightarrow>
     ws_complete fb (tcp_handlers fb) (\<lambda>a. []) e (tcp_ws srv) = Inr w' \<Longrightarrow>
     tcp_step lib fb srv (Tcp_ws e) (srv\<lparr>tcp_ws := w'\<rparr>)"

section \<open>The routes\<close>

lemma BuildRouteManager_eq:
  "TcpListener_BuildRouteManager = Inr (Some (AddWSCallbackInternal ''/'' Echo_handler RouteManagerBase_default))"
  by (simp add: TcpListener_BuildRouteManager_def run_builder_def RouteManagerBuilder_new_def
      AddWebsocket_def Build_def)

lemma BuildRouteManager_routes:
  assumes "TcpListener_BuildRouteManager = Inr (Some rm)"
  shows "GetCallback m p rm = None"
    and "GetWSHandler m p rm = (if m = GET \<and> p = ''/'' then Some Echo_handler else None)"
proof -
  have rm: "rm = AddWSCallbackInternal ''/'' Echo_handler RouteManagerBase_default"
    using assms by (simp add: BuildRouteManager_eq)
  show "GetCallback m p rm = None" by (simp add: rm)
  show "GetWSHandler m p rm = (if m = GET \<and> p = ''/'' then Some Echo_handler else None)"
    by (cases "m = GET") (auto simp: rm GetWSHandler_AddWSCallbackInternal, simp add: GetWSHandler_def)
qed

text \<open>Every request that is no upgrade is answered by a 404, and changes nothing.\<close>

lemma TcpListener_not_found:
  assumes "TcpListener_BuildRouteManager = Inr (Some rm)" and "\<not> is_upgrade lib req"
    and "ParseUri lib ''http'' address port (rq_target req) \<noteq> None"
  shows "answer lib rm address port req w = Some (not_found_response req, w)"
  using assms by (auto simp: answer_def BuildRouteManager_routes)

section \<open>What a completion does\<close>

lemma tcp_erase_sel [simp]:
  "ws_sessions (tcp_erase u w) = ws_sessions w" "ws_next (tcp_erase u w) = ws_next w"
  "ws_ended (tcp_erase u w) = ws_ended w"
  by (simp_all add: tcp_erase_def)

lemma tcp_erase_sends_only [simp]: "sends_only w (tcp_erase u w') = sends_only w w'"
  by (simp add: sends_only_def)

lemma tcp_handlers_sel [simp]:
  "on_connect (tcp_handlers fb h) = tcp_on_connect"
  "on_disconnect (tcp_handlers fb h) = tcp_on_disconnect"
  "on_receive (tcp_handlers fb h) = tcp_on_receive fb"
  "on_error (tcp_handlers fb h) = (\<lambda>e at w. Inr w)"
  by (simp_all add: tcp_handlers_def WSHandler_default_def)

lemma tcp_application: "flat_buffer fb \<Longrightarrow> ws_application fb (tcp_handlers fb)"
  unfolding ws_application_def ws_application_axioms_def
  by (auto simp: tcp_on_connect_def tcp_on_disconnect_def tcp_on_receive_def res_eq
      intro: sends_only_Send split: option.splits)

interpretation tcp: ws_application readable_bytes "tcp_handlers readable_bytes" "\<lambda>a. []"
  by (rule tcp_application) unfold_locales

text \<open>A session on its own: what a completion makes of it, and whether it lives on.\<close>

fun alone_effect :: "'b flat_buffer_ops \<Rightarrow> ws_event \<Rightarrow> ('v, 'b, 'h) ws_session \<Rightarrow> ('v, 'b, 'h) ws_session" where
  "alone_effect fb (Ws_accepted sid None) s =
     s\<lparr>ws_accepting := False, ws_open := True, ws_reading := Suc (ws_reading s),
       ctx := (ctx s)\<lparr>ctx_ws_session := Some sid, ctx_uuid := the (rq_fields (ws_req s) ''Sec-WebSocket-Key'')\<rparr>\<rparr>"
| "alone_effect fb (Ws_accepted sid (Some c)) s = s\<lparr>ws_accepting := False, ws_open := False\<rparr>"
| "alone_effect fb (Ws_read sid (Got_message m t)) s = echoed fb m t s"
| "alone_effect fb (Ws_read sid Closed) s = s\<lparr>ws_reading := ws_reading s - 1, ws_open := False\<rparr>"
| "alone_effect fb (Ws_read sid (Ws_read_failed c)) s = s\<lparr>ws_reading := ws_reading s - 1\<rparr>"
| "alone_effect fb (Ws_wrote sid None) s = write_completed fb s"
| "alone_effect fb (Ws_wrote sid (Some c)) s = s\<lparr>ws_writing := tl (ws_writing s)\<rparr>"

definition alone ::
  "'b flat_buffer_ops \<Rightarrow> ws_event \<Rightarrow> ('v, 'b, 'h) ws_session \<Rightarrow> ('v, 'b, 'h) ws_session option" where
  "alone fb e s = (let s' = alone_effect fb e s in if busy s' then Some s' else None)"

fun alone_run ::
  "'b flat_buffer_ops \<Rightarrow> ws_event list \<Rightarrow> ('v, 'b, 'h) ws_session \<Rightarrow> ('v, 'b, 'h) ws_session option" where
  "alone_run fb [] s = Some s"
| "alone_run fb (e # es) s = (case alone fb e s of None \<Rightarrow> None | Some s' \<Rightarrow> alone_run fb es s')"

lemma release_put:
  "ws_sessions (release (\<lambda>a. []) sid (put_session sid s w)) =
     (ws_sessions w)(sid := if busy s then Some s else None)"
  by (auto simp: release_def put_session_def fun_eq_iff)

lemma tcp_complete:
  assumes "flat_buffer fb" and inv: "sessions_inv fb {} w" and "ws_enabled e w"
    and s: "ws_sessions w (event_session e) = Some s"
    and step: "ws_complete fb (tcp_handlers fb) (\<lambda>a. []) e w = Inr w'"
  shows "ws_sessions w' = (ws_sessions w)(event_session e := alone fb e s)"
proof (cases e)
  case (Ws_accepted sid ec)
  show ?thesis
  proof (cases ec)
    case None
    with Ws_accepted s step obtain key where "rq_fields (ws_req s) ''Sec-WebSocket-Key'' = Some key"
      by (auto simp: ws_complete_def WebSocketSession_OnAccept_def res_eq split: option.splits)
    with Ws_accepted None s step show ?thesis
      by (auto simp: ws_complete_def WebSocketSession_OnAccept_def tcp_on_connect_def on_session_def
          WebSocketSession_Read_def release_def busy_def alone_def Let_def put_session_def)
  next
    case (Some c)
    with Ws_accepted s step show ?thesis
      by (auto simp: ws_complete_def WebSocketSession_OnAccept_def release_put alone_def Let_def)
  qed
next
  case (Ws_read sid result)
  then have sid: "ws_sessions w sid = Some s" "ws_reading s \<noteq> 0"
    using s assms(3) by (auto simp: ws_enabled_def started_def)
  then have "session_inv fb sid s" using inv by (auto simp: sessions_inv_def)
  then have link: "ctx_ws_session (ctx s) = Some sid" using sid(2) by (auto simp: session_inv_def)
  show ?thesis
  proof (cases result)
    case (Got_message m t)
    have "ws_complete fb (tcp_handlers fb) (\<lambda>a. []) (Ws_read sid (Got_message m t)) w =
        Inr (put_session sid (echoed fb m t s) w)"
      using link
      by (simp add: ws_application.complete_message [OF tcp_application [OF assms(1)] sid inv]
          tcp_on_receive_def lock_def on_session_Some WebSocketSession_Read_def echoed_def
          Send_defs release_def busy_def)
    moreover have "busy (echoed fb m t s)" by (simp add: echoed_def busy_def)
    ultimately show ?thesis
      using step by (auto simp: Ws_read Got_message alone_def Let_def)
  next
    case Closed
    with Ws_read sid step show ?thesis
      by (auto simp: ws_complete_def WebSocketSession_OnRead_def tcp_on_disconnect_def alone_def Let_def
          release_def put_session_def fun_eq_iff)
  next
    case (Ws_read_failed c)
    with Ws_read sid step show ?thesis
      by (auto simp: ws_complete_def WebSocketSession_OnRead_def release_put alone_def Let_def)
  qed
next
  case (Ws_wrote sid ec)
  show ?thesis
  proof (cases ec)
    case None
    then have "ws_writing s \<noteq> []" using Ws_wrote s assms(3) by (auto simp: ws_enabled_def started_def)
    with Ws_wrote None s step show ?thesis
      by (auto simp: ws_complete_wrote release_put alone_def Let_def)
  next
    case (Some c)
    with Ws_wrote s step show ?thesis
      by (auto simp: ws_complete_def WebSocketSession_OnWrite_def release_put alone_def Let_def)
  qed
qed

text \<open>No handler fails.\<close>

lemma tcp_total:
  assumes "flat_buffer fb" and inv: "sessions_inv fb {} w" and "ws_enabled e w" and "handshake_checked e w"
  shows "\<exists>w'. ws_complete fb (tcp_handlers fb) (\<lambda>a. []) e w = Inr w'"
proof -
  obtain s where s: "ws_sessions w (event_session e) = Some s" and st: "started e s"
    using assms(3) by (auto simp: ws_enabled_def split: option.splits)
  show ?thesis
  proof (cases e)
    case (Ws_accepted sid ec)
    then show ?thesis using s assms(4)
      by (cases ec) (auto simp: ws_complete_def WebSocketSession_OnAccept_def tcp_on_connect_def on_session_def
          handshake_checked_def put_session_def get_session_def Let_def)
  next
    case (Ws_read sid result)
    then have sid: "ws_sessions w sid = Some s" "ws_reading s \<noteq> 0" using s st by (auto simp: started_def)
    then have "session_inv fb sid s" using inv by (auto simp: sessions_inv_def)
    then have link: "ctx_ws_session (ctx s) = Some sid" using sid(2) by (auto simp: session_inv_def)
    show ?thesis
    proof (cases result)
      case (Got_message m t)
      with link show ?thesis
        by (simp add: Ws_read ws_application.complete_message [OF tcp_application [OF assms(1)] sid inv]
            tcp_on_receive_def lock_def on_session_Some)
    qed (use Ws_read sid in \<open>auto simp: ws_complete_def WebSocketSession_OnRead_def tcp_on_disconnect_def Let_def\<close>)
  next
    case (Ws_wrote sid ec)
    then show ?thesis using s
      by (cases ec) (auto simp: ws_complete_def WebSocketSession_OnWrite_def on_session_def Let_def)
  qed
qed

section \<open>The server is the product of its sessions\<close>

text \<open>What happened to the session \<open>sid\<close>.\<close>

fun own_events :: "nat \<Rightarrow> 'v tcp_event list \<Rightarrow> ws_event list" where
  "own_events sid [] = []"
| "own_events sid (Tcp_ws e # es) = (if event_session e = sid then e # own_events sid es else own_events sid es)"
| "own_events sid (e # es) = own_events sid es"

lemma own_events_append: "own_events sid (es @ fs) = own_events sid es @ own_events sid fs"
  by (induction sid es rule: own_events.induct) simp_all

lemma alone_run_append: "alone_run fb (es @ fs) s = Option.bind (alone_run fb es s) (alone_run fb fs)"
  by (induction fb es s rule: alone_run.induct) (simp_all split: option.split)

lemma alone_run_none [simp]: "Option.bind r (alone_run fb []) = r"
  by (cases r) simp_all

text \<open>The routes have no callback that could change the world.\<close>

lemma tcp_http_world:
  assumes "TcpListener_BuildRouteManager = Inr rm" and "http_step lib rm (s, w) e (s', w')"
  shows "w' = w"
proof (rule http_step_world [OF assms(2), where I = "\<lambda>u. u = w"])
  fix req ps r r' m p cb u u' m'
  assume "rm = Some m'" and "GetCallback m p m' = Some cb"
  with BuildRouteManager_routes(1) [of m' m p] assms(1) show "u' = w" by simp
qed simp

lemma ws_complete_next:
  fixes w :: "('v, 'b) tcp_world"
  assumes "flat_buffer fb" and "ws_complete fb (tcp_handlers fb) (\<lambda>a. []) e w = Inr w'"
  shows "ws_next w' = ws_next w"
proof -
  have release: "ws_next (release (\<lambda>a. []) j u) = ws_next u" for j and u :: "('v, 'b) tcp_world"
    by (simp add: release_def split: option.split)
  have receive: "ws_next u' = ws_next u" if "tcp_on_receive fb j m n b u = Inr u'"
    for j m n b and u u' :: "('v, 'b) tcp_world"
    using ws_application.receive_sends [OF tcp_application [OF assms(1)]] that
    by (fastforce simp: sends_only_def)
  show ?thesis
    using assms(2)
    by (cases e) (auto simp: ws_complete_def res_eq Let_def release on_session_def put_session_def
        WebSocketSession_OnAccept_def WebSocketSession_OnRead_def WebSocketSession_OnWrite_def
        tcp_on_connect_def tcp_on_disconnect_def dest!: receive split: option.splits ws_read_result.splits)
qed

lemma tcp_step_inv:
  assumes fb: "flat_buffer fb" and "tcp_step lib fb srv e srv'" and inv: "sessions_inv fb {} (tcp_ws srv)"
  shows "sessions_inv fb {} (tcp_ws srv')"
  using assms(2)
proof (cases rule: tcp_step.cases)
  case (tcp_connect k peer local_end)
  with inv show ?thesis by (simp add: TcpListener_OnAccept_def)
next
  case (tcp_request k peer t rm x t' w')
  then have "w' = tcp_ws srv" by (intro tcp_http_world)
  with inv tcp_request(2) show ?thesis
    by (auto simp: tcp_hand_over_def intro: sessions_inv_start [OF fb] split: option.split)
next
  case (tcp_websocket x w')
  then show ?thesis
    using ws_application.complete_inv [OF tcp_application [OF fb] tcp_websocket(3,5) inv] by simp
qed

interpretation tcp_sessions: preserved "\<lambda>srv e srv'. tcp_step lib fb srv e srv' \<and> flat_buffer fb"
  "\<lambda>srv. sessions_inv fb {} (tcp_ws srv)" for lib fb
  by unfold_locales (blast intro: tcp_step_inv)

definition session_view ::
  "'b flat_buffer_ops \<Rightarrow> nat \<Rightarrow> ('v, 'b, tcp_ws_handler) ws_session \<Rightarrow> 'v tcp_event list \<Rightarrow>
     ('v, 'b) tcp_server \<Rightarrow> bool" where
  "session_view fb sid s es srv \<longleftrightarrow> sessions_inv fb {} (tcp_ws srv) \<and> sid < ws_next (tcp_ws srv) \<and>
     ws_sessions (tcp_ws srv) sid = alone_run fb (own_events sid es) s"

lemma tcp_step_view:
  assumes fb: "flat_buffer fb" and step: "tcp_step lib fb srv e srv'" and view: "session_view fb sid s es srv"
  shows "session_view fb sid s (es @ [e]) srv'"
proof -
  have inv: "sessions_inv fb {} (tcp_ws srv)" using view by (simp add: session_view_def)
  note inv' = tcp_step_inv [OF fb step inv]
  from step show ?thesis
  proof (cases rule: tcp_step.cases)
    case (tcp_connect k peer local_end)
    then show ?thesis
      using view by (simp add: session_view_def TcpListener_OnAccept_def own_events_append)
  next
    case (tcp_request k peer t rm x t' w')
    then have "w' = tcp_ws srv" by (intro tcp_http_world)
    with view have "sid < ws_next (tcp_ws srv') \<and> ws_sessions (tcp_ws srv') sid = ws_sessions (tcp_ws srv) sid"
      by (auto simp: tcp_request(2) tcp_hand_over_def session_view_def start_session_def split: option.split)
    with view inv' show ?thesis by (simp add: tcp_request(1) session_view_def own_events_append)
  next
    case (tcp_websocket x w')
    from tcp_websocket(3) obtain t where t: "ws_sessions (tcp_ws srv) (event_session x) = Some t"
      by (auto simp: ws_enabled_def split: option.splits)
    have "ws_next w' = ws_next (tcp_ws srv)" by (rule ws_complete_next [OF fb tcp_websocket(5)])
    moreover have "ws_sessions w' = (ws_sessions (tcp_ws srv))(event_session x := alone fb x t)"
      by (rule tcp_complete [OF fb inv tcp_websocket(3) t tcp_websocket(5)])
    ultimately show ?thesis
      using view inv' t
      by (auto simp: tcp_websocket(1,2) session_view_def own_events_append alone_run_append split: option.split)
  qed
qed

interpretation tcp_view: trace_invariant "\<lambda>srv e srv'. tcp_step lib fb srv e srv' \<and> flat_buffer fb"
  "session_view fb sid s" for lib fb sid s
  by unfold_locales (blast intro: tcp_step_view)

text \<open>
  C13. The clients of this listener do not notice each other: from any reachable state on,
  in whatever order connections, requests and completions interleave, a websocket session
  is what it would be alone, with its own completions only; it echoes its own client's
  messages, and it is gone exactly when none of its operations is under way.
\<close>

theorem TcpListener_product:
  assumes "flat_buffer fb" and "runs (tcp_step lib fb) tcp_server_new es srv"
    and "ws_sessions (tcp_ws srv) sid = Some s" and "runs (tcp_step lib fb) srv fs srv'"
  shows "ws_sessions (tcp_ws srv') sid = alone_run fb (own_events sid fs) s"
proof -
  let ?step = "\<lambda>srv e srv'. tcp_step lib fb srv e srv' \<and> flat_buffer fb"
  have steps: "runs ?step tcp_server_new es srv" "runs ?step srv fs srv'"
    using assms(1) runs_restrict [OF assms(2), of "\<lambda>e. flat_buffer fb"]
      runs_restrict [OF assms(4), of "\<lambda>e. flat_buffer fb"] by simp_all
  have "sessions_inv fb {} (tcp_ws tcp_server_new)" by (simp add: sessions_inv_def tcp_server_new_def)
  with tcp_sessions.runs_preserve [OF steps(1)] have "sessions_inv fb {} (tcp_ws srv)" .
  with assms(3) have "session_view fb sid s [] srv" by (auto simp: session_view_def sessions_inv_def)
  from tcp_view.runs_establish [OF steps(2) this] show ?thesis by (simp add: session_view_def)
qed

text \<open>
  A client upgrades; then another one connects, the handshake of the first completes, and a
  message of it arrives.
\<close>

definition echo_start :: "(nat, string, tcp_ws_handler) ws_session" where
  "echo_start = WebSocketSession_Run (''p'', 2) (''h'', 1)
     (WebSocketSession_new readable_bytes (key_request ''k1'') (Some Map.empty) Echo_handler)"

abbreviation sample_tcp_step :: "(nat, string) tcp_server \<Rightarrow> nat tcp_event \<Rightarrow> (nat, string) tcp_server \<Rightarrow> bool" where
  "sample_tcp_step \<equiv> tcp_step sample_lib readable_bytes"

definition upgraded :: "(nat, string) tcp_server" where
  "upgraded = tcp_server_new\<lparr>tcp_ws := (tcp_ws tcp_server_new)\<lparr>ws_sessions := [0 \<mapsto> echo_start], ws_next := 1\<rparr>\<rparr>"

lemma upgraded_runs:
  "runs sample_tcp_step tcp_server_new [Tcp_connect 0 (''p'', 2) (''h'', 1),
     Tcp_http 0 (Read_done (Got_request (key_request ''k1'')))] upgraded"
proof -
  let ?http = "HttpSession_Run (HttpSession_new ''h'' 1) :: (nat, tcp_ws_handler) http_session"
  let ?up = "?http\<lparr>reads := [], response := Some (fresh_response (key_request ''k1'')),
    ws_started := Some (key_request ''k1'', Some Map.empty, Echo_handler)\<rparr>"
  let ?srv1 = "TcpListener_OnAccept 0 (''p'', 2) (''h'', 1) (tcp_server_new :: (nat, string) tcp_server)"
  have connect: "sample_tcp_step tcp_server_new (Tcp_connect 0 (''p'', 2) (''h'', 1)) ?srv1"
    by (rule tcp_step.tcp_connect) (simp add: tcp_server_new_def)
  have http: "http_step sample_lib (Some (AddWSCallbackInternal ''/'' Echo_handler RouteManagerBase_default))
      (?http, tcp_ws ?srv1) (Read_done (Got_request (key_request ''k1''))) (?up, tcp_ws ?srv1)"
  proof -
    let ?s = "?http\<lparr>reads := []\<rparr>"
    have "is_upgrade sample_lib (key_request ''k1'')" by (simp add: key_request_def sample_lib_def)
    moreover from this have "request_uri sample_lib (key_request ''k1'') ?s = Some ''ws://h:1/''"
      by (simp add: request_uri_def ParseUri_def key_request_def sample_request_def
          sample_lib_def std_to_string_1 HttpSession_defs)
    moreover have "uri_path sample_lib ''ws://h:1/'' = ''/''" by (simp add: sample_lib_def)
    moreover have "request_method sample_lib (key_request ''k1'') = GET"
      using sample_method by (simp add: key_request_def request_method_def)
    moreover have "ParseQuery sample_lib u = Some Map.empty" for u
      by (simp add: ParseQuery_def sample_lib_def)
    ultimately have "HttpSession_OnRead sample_lib
        (Some (AddWSCallbackInternal ''/'' Echo_handler RouteManagerBase_default))
        (Got_request (key_request ''k1'')) ?s (tcp_ws ?srv1) = Inr (?up, tcp_ws ?srv1)"
      by (simp add: HttpSession_OnRead_def OnRequest_eq GetWSHandler_AddWSCallbackInternal HttpSession_defs)
    then show ?thesis by (simp add: http_read_iff) (simp add: HttpSession_defs)
  qed
  have "sample_tcp_step ?srv1 (Tcp_http 0 (Read_done (Got_request (key_request ''k1''))))
      (tcp_hand_over readable_bytes 0 (''p'', 2) ?up (tcp_ws ?srv1) ?srv1)"
    by (rule tcp_step.tcp_request [OF _ BuildRouteManager_eq http]) (simp add: TcpListener_OnAccept_def)
  moreover have "tcp_hand_over readable_bytes 0 (''p'', 2) ?up (tcp_ws ?srv1) ?srv1 = upgraded"
    by (simp add: tcp_hand_over_def TcpListener_OnAccept_def tcp_server_new_def HttpSession_defs
        start_session_def upgraded_def echo_start_def)
  ultimately show ?thesis using connect by (auto simp: runs_Cons_iff)
qed

lemma tcp_websocket_steps:
  assumes "sessions_inv readable_bytes {} (tcp_ws srv)" and "ws_sessions (tcp_ws srv) (event_session e) = Some s"
    and "started e s" and "handshake_checked e (tcp_ws srv)"
  obtains srv' where "sample_tcp_step srv (Tcp_ws e) srv'"
    and "ws_sessions (tcp_ws srv') = (ws_sessions (tcp_ws srv))(event_session e := alone readable_bytes e s)"
    and "sessions_inv readable_bytes {} (tcp_ws srv')"
proof -
  have en: "ws_enabled e (tcp_ws srv)" using assms(2,3) by (simp add: ws_enabled_def)
  from tcp_total [OF readable.flat_buffer_axioms assms(1) en assms(4)] obtain w'
    where w': "ws_complete readable_bytes (tcp_handlers readable_bytes) (\<lambda>a. []) e (tcp_ws srv) = Inr w'" by blast
  from tcp_step.tcp_websocket [OF en assms(4) w'] have step: "sample_tcp_step srv (Tcp_ws e) (srv\<lparr>tcp_ws := w'\<rparr>)" .
  with that [OF step] tcp_complete [OF readable.flat_buffer_axioms assms(1) en assms(2) w']
    tcp_step_inv [OF readable.flat_buffer_axioms step assms(1)]
  show ?thesis by simp
qed

theorem TcpListener_product_witness:
  "\<exists>srv. runs sample_tcp_step upgraded [Tcp_connect 1 (''q'', 3) (''h'', 1), Tcp_ws (Ws_accepted 0 None),
       Tcp_ws (Ws_read 0 (Got_message ''hi'' False))] srv \<and>
     map_option ws_writing (ws_sessions (tcp_ws srv) 0) = Some [(False, ''hi UwU Kawaiiiiiiii!'')]"
proof -
  let ?srv1 = "TcpListener_OnAccept 1 (''q'', 3) (''h'', 1) upgraded"
  have one: "sample_tcp_step upgraded (Tcp_connect 1 (''q'', 3) (''h'', 1)) ?srv1"
    by (rule tcp_step.tcp_connect) (simp add: upgraded_def tcp_server_new_def)
  have s: "ws_sessions (tcp_ws upgraded) 0 = Some echo_start" by (simp add: upgraded_def)
  have inv: "sessions_inv readable_bytes {} (tcp_ws ?srv1)"
    by (simp add: TcpListener_OnAccept_def upgraded_def tcp_server_new_def sessions_inv_def session_inv_def
        echo_start_def WebSocketSession_Run_def WebSocketSession_new_def readable_bytes_def)
  have "started (Ws_accepted 0 None) echo_start" by (simp add: started_def echo_start_def WebSocketSession_Run_def)
  moreover have "handshake_checked (Ws_accepted 0 None) (tcp_ws ?srv1)"
    by (simp add: handshake_checked_def TcpListener_OnAccept_def s)
      (simp add: echo_start_def WebSocketSession_Run_def WebSocketSession_new_def key_request_def)
  moreover have "ws_sessions (tcp_ws ?srv1) (event_session (Ws_accepted 0 None)) = Some echo_start"
    by (simp add: TcpListener_OnAccept_def s)
  ultimately obtain srv2 where two: "sample_tcp_step ?srv1 (Tcp_ws (Ws_accepted 0 None)) srv2"
    and ws2: "ws_sessions (tcp_ws srv2) = (ws_sessions (tcp_ws ?srv1))(event_session (Ws_accepted 0 None) :=
      alone readable_bytes (Ws_accepted 0 None) echo_start)"
    and inv2: "sessions_inv readable_bytes {} (tcp_ws srv2)"
    by (metis tcp_websocket_steps [OF inv])
  from ws2 have s2: "ws_sessions (tcp_ws srv2) 0 = alone readable_bytes (Ws_accepted 0 None) echo_start" by simp
  obtain t where t: "alone readable_bytes (Ws_accepted 0 None) echo_start = Some t" "ws_reading t = 1"
    by (simp add: alone_def busy_def echo_start_def WebSocketSession_Run_def WebSocketSession_new_def)
  then have "started (Ws_read 0 (Got_message ''hi'' False)) t" by (simp add: started_def)
  moreover have "handshake_checked (Ws_read 0 (Got_message ''hi'' False)) (tcp_ws srv2)"
    by (simp add: handshake_checked_def)
  moreover have "ws_sessions (tcp_ws srv2) (event_session (Ws_read 0 (Got_message ''hi'' False))) = Some t"
    using s2 t(1) by simp
  ultimately obtain srv3 where three: "sample_tcp_step srv2 (Tcp_ws (Ws_read 0 (Got_message ''hi'' False))) srv3"
    by (metis tcp_websocket_steps [OF inv2])
  have run: "runs sample_tcp_step upgraded [Tcp_connect 1 (''q'', 3) (''h'', 1), Tcp_ws (Ws_accepted 0 None),
      Tcp_ws (Ws_read 0 (Got_message ''hi'' False))] srv3"
    unfolding runs_Cons_iff runs_Nil_iff using one two three by blast
  from TcpListener_product [OF readable.flat_buffer_axioms upgraded_runs s this]
  have "ws_sessions (tcp_ws srv3) 0 =
      alone_run readable_bytes [Ws_accepted 0 None, Ws_read 0 (Got_message ''hi'' False)] echo_start" by simp
  then have "map_option ws_writing (ws_sessions (tcp_ws srv3) 0) = Some [(False, ''hi UwU Kawaiiiiiiii!'')]"
    by (simp add: alone_def Let_def busy_def echoed_def Send_defs echo_start_def WebSocketSession_Run_def
        WebSocketSession_new_def readable_bytes_def)
  with run show ?thesis by blast
qed

end
