(* ===== verification/Visit.thy ===== *)
theory Visit
  imports Prelude
begin

text \<open>
  The visitor library \<open>libs/visit\<close>: the properties of a class (\<open>property.hpp\<close>), the traversal
  of an instance by \<open>Visitable::accept\<close> (\<open>visitable.hpp\<close>) and the calls it makes on a visitor
  (\<open>visitor_base.hpp\<close>). Overloads and traits are resolved at compile time: a type is the
  description of what its \<open>GetVisitable\<close> returns.
\<close>

section \<open>Types, instances and visitors\<close>

text \<open>
  A type without \<open>GetVisitable\<close>, or a class with the properties it lists: their names, the
  members they point to and the members' types.
\<close>

datatype ctype = Plain | Class "(string \<times> string \<times> ctype) list"

text \<open>The helper functions that make a property and a class's list of them.\<close>

definition property :: "string \<Rightarrow> string \<Rightarrow> ctype \<Rightarrow> string \<times> string \<times> ctype" where
  "property name member ty = (name, member, ty)"

definition visitable :: "(string \<times> string \<times> ctype) list \<Rightarrow> ctype" where
  "visitable ps = Class ps"

text \<open>An instance: a value, or an object with its members.\<close>

datatype 'v inst = Leaf 'v | Object "(string \<times> 'v inst) list"

text \<open>
  A visitor with the state \<open>'s\<close>. \<open>visit\<close> gets the value by reference and may change it;
  \<open>visit_nested\<close> and \<open>exit_nested\<close> are members the derived class may or may not have.
\<close>

record ('s, 'v) visitor =
  visit :: "string \<Rightarrow> 'v \<Rightarrow> 's \<Rightarrow> 's \<times> 'v"
  visit_nested :: "(string \<Rightarrow> 's \<Rightarrow> 's) option"
  exit_nested :: "(string \<Rightarrow> 's \<Rightarrow> 's) option"

definition has_visit_nested_v :: "('s, 'v) visitor \<Rightarrow> bool" where
  "has_visit_nested_v v \<longleftrightarrow> visit_nested v \<noteq> None"

definition has_exit_nested_v :: "('s, 'v) visitor \<Rightarrow> bool" where
  "has_exit_nested_v v \<longleftrightarrow> exit_nested v \<noteq> None"

definition has_get_visitable :: "ctype \<Rightarrow> bool" where
  "has_get_visitable ty \<longleftrightarrow> (case ty of Plain \<Rightarrow> False | Class ps \<Rightarrow> True)"

definition visit_base :: "('s, 'v) visitor \<Rightarrow> string \<Rightarrow> 'v \<Rightarrow> 's \<Rightarrow> 's \<times> 'v" where
  "visit_base v name value s = visit v name value s"

definition visit_nested_base :: "('s, 'v) visitor \<Rightarrow> string \<Rightarrow> 's \<Rightarrow> 's res" where
  "visit_nested_base v name s = (case visit_nested v of
     Some f \<Rightarrow> Inr (f name s)
   | None \<Rightarrow> Inl (Runtime_error
       ''visit_nested is not a member function, please implement it in the derived class''))"

definition exit_nested_base :: "('s, 'v) visitor \<Rightarrow> string \<Rightarrow> 's \<Rightarrow> 's res" where
  "exit_nested_base v name s = (case exit_nested v of
     Some f \<Rightarrow> Inr (f name s)
   | None \<Rightarrow> Inl (Runtime_error
       ''exit_nested is not a member function, please implement it in the derived class''))"

text \<open>\<open>Property::Get\<close> and the assignment through the reference it returns.\<close>

definition Property_Get :: "string \<Rightarrow> (string \<times> 'v inst) list \<Rightarrow> 'v inst option" where
  "Property_Get m fs = map_of fs m"

definition set_member :: "string \<Rightarrow> 'v inst \<Rightarrow> (string \<times> 'v inst) list \<Rightarrow> (string \<times> 'v inst) list" where
  "set_member m i fs = map (\<lambda>(n, j). if n = m then (n, i) else (n, j)) fs"

section \<open>The traversal\<close>

text \<open>
  \<open>visit_foreach_property\<close> is \<open>accept\<close>'s fold over the properties, in the order they were
  listed. An instance that is not of the type has no C++ counterpart and is left alone.
\<close>

fun visit_property :: "('s, 'v) visitor \<Rightarrow> string \<Rightarrow> ctype \<Rightarrow> 's \<Rightarrow> 'v inst \<Rightarrow> ('s \<times> 'v inst) res"
  and visit_foreach_property ::
    "('s, 'v) visitor \<Rightarrow> (string \<times> string \<times> ctype) list \<Rightarrow> 's \<Rightarrow> (string \<times> 'v inst) list \<Rightarrow>
       ('s \<times> (string \<times> 'v inst) list) res" where
  "visit_property v name (Class ps) s (Object fs) =
     bind_res (visit_nested_base v name s) (\<lambda>s1.
     bind_res (visit_foreach_property v ps s1 fs) (\<lambda>(s2, fs2).
     bind_res (exit_nested_base v name s2) (\<lambda>s3. Inr (s3, Object fs2))))"
| "visit_property v name Plain s (Leaf x) = (let (s', x') = visit_base v name x s in Inr (s', Leaf x'))"
| "visit_property v name ty s i = Inr (s, i)"
| "visit_foreach_property v [] s fs = Inr (s, fs)"
| "visit_foreach_property v ((name, m, ty) # ps) s fs =
     (case Property_Get m fs of
        None \<Rightarrow> visit_foreach_property v ps s fs
      | Some i \<Rightarrow> bind_res (visit_property v name ty s i) (\<lambda>(s', i').
          visit_foreach_property v ps s' (set_member m i' fs)))"

fun accept :: "ctype \<Rightarrow> ('s, 'v) visitor \<Rightarrow> 's \<Rightarrow> 'v inst \<Rightarrow> ('s \<times> 'v inst) res" where
  "accept (Class ps) v s (Object fs) =
     bind_res (visit_foreach_property v ps s fs) (\<lambda>(s', fs'). Inr (s', Object fs'))"
| "accept ty v s i = Inr (s, i)"

text \<open>An instance is of a type when it has every member of the properties, of its type.\<close>

fun of_type :: "ctype \<Rightarrow> 'v inst \<Rightarrow> bool"
  and members_of_type :: "(string \<times> string \<times> ctype) list \<Rightarrow> (string \<times> 'v inst) list \<Rightarrow> bool" where
  "of_type Plain (Leaf x) = True"
| "of_type (Class ps) (Object fs) = (distinct (map fst fs) \<and> members_of_type ps fs)"
| "of_type ty i = False"
| "members_of_type [] fs = True"
| "members_of_type ((name, m, ty) # ps) fs =
     ((case map_of fs m of None \<Rightarrow> False | Some i \<Rightarrow> of_type ty i) \<and> members_of_type ps fs)"

section \<open>What a traversal visits\<close>

text \<open>The calls on the visitor, in order.\<close>

datatype 'v visit_event = Enter string | Value string 'v | Exit string

fun member_trace :: "string \<Rightarrow> ctype \<Rightarrow> 'v inst \<Rightarrow> 'v visit_event list"
  and trace :: "(string \<times> string \<times> ctype) list \<Rightarrow> (string \<times> 'v inst) list \<Rightarrow> 'v visit_event list" where
  "member_trace name (Class ps) (Object fs) = Enter name # trace ps fs @ [Exit name]"
| "member_trace name Plain (Leaf x) = [Value name x]"
| "member_trace name ty i = []"
| "trace [] fs = []"
| "trace ((name, m, ty) # ps) fs =
     (case map_of fs m of None \<Rightarrow> [] | Some i \<Rightarrow> member_trace name ty i) @ trace ps fs"

text \<open>A visitor that has both members, and what it makes of a call.\<close>

fun visitor_call :: "('s, 'v) visitor \<Rightarrow> 'v visit_event \<Rightarrow> 's \<Rightarrow> 's" where
  "visitor_call v (Enter name) s = (case visit_nested v of Some f \<Rightarrow> f name s | None \<Rightarrow> s)"
| "visitor_call v (Value name x) s = fst (visit v name x s)"
| "visitor_call v (Exit name) s = (case exit_nested v of Some f \<Rightarrow> f name s | None \<Rightarrow> s)"

definition complete_visitor :: "('s, 'v) visitor \<Rightarrow> bool" where
  "complete_visitor v \<longleftrightarrow> visit_nested v \<noteq> None \<and> exit_nested v \<noteq> None"

definition read_only :: "('s, 'v) visitor \<Rightarrow> bool" where
  "read_only v \<longleftrightarrow> (\<forall>name x s. snd (visit v name x s) = x)"

lemma set_member_same:
  "distinct (map fst fs) \<Longrightarrow> map_of fs m = Some i \<Longrightarrow> set_member m i fs = fs"
  by (induction fs) (force simp: set_member_def map_of_eq_None_iff split: if_splits intro: map_idI)+

lemma traversal:
  assumes "complete_visitor v" and "read_only v"
  shows "of_type ty i \<Longrightarrow> visit_property v name ty s i = Inr (fold (visitor_call v) (member_trace name ty i) s, i)"
    and "members_of_type ps fs \<Longrightarrow> distinct (map fst fs) \<Longrightarrow>
      visit_foreach_property v ps s fs = Inr (fold (visitor_call v) (trace ps fs) s, fs)"
  using assms
proof (induction v name ty s i and v ps s fs rule: visit_property_visit_foreach_property.induct)
  case (1 v name ps s fs)
  then show ?case
    by (auto simp: visit_nested_base_def exit_nested_base_def complete_visitor_def)
next
  case (2 v name s x)
  then show ?case
    by (simp add: visit_base_def read_only_def Let_def split: prod.split) (metis snd_conv)
next
  case more: (5 v name m ty ps s fs)
  from more.prems(1) obtain i where i: "map_of fs m = Some i" "of_type ty i" "members_of_type ps fs"
    by (auto split: option.splits)
  have get: "Property_Get m fs = Some i" using i(1) by (simp add: Property_Get_def)
  note member = more.IH(2) [OF get i(2) more.prems(3,4)]
  have "set_member m i fs = fs" using more.prems(2) i(1) by (rule set_member_same)
  with more.IH(3) [OF get member] more.prems i(3)
  have "visit_foreach_property v ps (fold (visitor_call v) (member_trace name ty i) s) fs =
      Inr (fold (visitor_call v) (trace ps fs) (fold (visitor_call v) (member_trace name ty i) s), fs)"
    by simp
  with get member i(1) \<open>set_member m i fs = fs\<close> show ?case by simp
qed simp_all

text \<open>A trace in which what is entered is exited, innermost first.\<close>

inductive bracketed :: "'v visit_event list \<Rightarrow> bool" where
  bracketed_Nil: "bracketed []"
| bracketed_Value: "bracketed [Value name x]"
| bracketed_nested: "bracketed es \<Longrightarrow> bracketed (Enter name # es @ [Exit name])"
| bracketed_append: "bracketed es \<Longrightarrow> bracketed fs \<Longrightarrow> bracketed (es @ fs)"

lemma trace_bracketed:
  fixes i :: "'v inst" and fs :: "(string \<times> 'v inst) list"
  shows "bracketed (member_trace name ty i)" and "bracketed (trace ps fs)"
  by (induction name ty i and ps fs rule: member_trace_trace.induct)
    (auto intro: bracketed.intros split: option.split)

lemma map_of_set_member:
  "map_of (set_member m i fs) k = (if k = m \<and> map_of fs m \<noteq> None then Some i else map_of fs k)"
  by (induction fs) (auto simp: set_member_def)

lemma set_plain_member:
  fixes x x' :: 'v
  assumes "map_of fs m = Some (Leaf x)" and "members_of_type ps fs"
  shows "members_of_type ps (set_member m (Leaf x') fs)"
  using assms(2)
proof (induction ps)
  case Nil
  then show ?case by simp
next
  case (Cons p ps)
  obtain name k ty where p: "p = (name, k, ty)" by (cases p)
  with Cons assms(1) show ?case
    by (cases ty) (auto simp: map_of_set_member split: option.splits if_splits)
qed

text \<open>Some property is of a visitable type.\<close>

definition has_nested :: "(string \<times> string \<times> ctype) list \<Rightarrow> bool" where
  "has_nested ps \<longleftrightarrow> (\<exists>p \<in> set ps. has_get_visitable (snd (snd p)))"

lemma nested_throws:
  assumes "visit_nested v = None" and "members_of_type ps fs"
  shows "(\<exists>m. visit_foreach_property v ps s fs = Inl (Runtime_error m)) \<longleftrightarrow> has_nested ps"
    and "(\<exists>r. visit_foreach_property v ps s fs = Inr r) \<longleftrightarrow> \<not> has_nested ps"
proof -
  have "(\<exists>m. visit_foreach_property v ps s fs = Inl (Runtime_error m)) \<and> has_nested ps \<or>
      (\<exists>r. visit_foreach_property v ps s fs = Inr r) \<and> \<not> has_nested ps"
    using assms(2)
  proof (induction ps arbitrary: s fs)
    case Nil
    then show ?case by (simp add: has_nested_def)
  next
    case (Cons p ps)
    obtain name m ty where p: "p = (name, m, ty)" by (cases p)
    with Cons.prems obtain i where i: "map_of fs m = Some i" "of_type ty i" "members_of_type ps fs"
      by (auto split: option.splits)
    show ?case
    proof (cases ty)
      case (Class qs)
      with i(2) obtain gs where "i = Object gs" by (cases i) auto
      with i(1) Class assms(1) p show ?thesis
        by (simp add: Property_Get_def visit_nested_base_def has_nested_def has_get_visitable_def)
    next
      case Plain
      with i(2) obtain x where x: "i = Leaf x" by (cases i) auto
      obtain s' x' where v: "visit_base v name x s = (s', x')" by (cases "visit_base v name x s")
      have "visit_foreach_property v (p # ps) s fs = visit_foreach_property v ps s' (set_member m (Leaf x') fs)"
        using i(1) x v by (simp add: p Plain Property_Get_def)
      moreover have "members_of_type ps (set_member m (Leaf x') fs)"
        using i(1,3) x by (simp add: set_plain_member)
      ultimately show ?thesis
        using Cons.IH [of "set_member m (Leaf x') fs" s']
        by (simp add: p Plain has_nested_def has_get_visitable_def)
    qed
  qed
  then show "(\<exists>m. visit_foreach_property v ps s fs = Inl (Runtime_error m)) \<longleftrightarrow> has_nested ps"
    and "(\<exists>r. visit_foreach_property v ps s fs = Inr r) \<longleftrightarrow> \<not> has_nested ps" by auto
qed

section \<open>Properties\<close>

text \<open>
  A visitor that changes no value and has both members is called exactly for the
  instance's trace: the properties in the order they were listed, each nested object
  entered and exited around its own, every enter with its exit; the instance stays as it
  was.
\<close>

lemma Visitable_accept_trace:
  assumes "complete_visitor v" and "read_only v" and "of_type (Class ps) (Object fs)"
  shows "accept (Class ps) v s (Object fs) = Inr (fold (visitor_call v) (trace ps fs) s, Object fs) \<and>
    bracketed (trace ps fs)"
  using traversal(2) [OF assms(1,2), of ps fs s] assms(3) by (simp add: trace_bracketed)

text \<open>Two classes and an instance in the manner of the library's test, and a visitor that records its calls.\<close>

definition mock_type :: ctype where
  "mock_type = visitable [property ''c'' ''c'' Plain, property ''d'' ''d'' Plain]"

definition mock_nested_type :: ctype where
  "mock_nested_type = visitable [property ''c_nested'' ''c_nested'' Plain, property ''m'' ''m'' mock_type]"

lemmas mock_defs = mock_type_def mock_nested_type_def visitable_def property_def

definition mock_nested :: "nat inst" where
  "mock_nested = Object [(''c_nested'', Leaf 1), (''m'', Object [(''c'', Leaf 9), (''d'', Leaf 6)])]"

definition recorder :: "('v visit_event list, 'v) visitor" where
  "recorder = \<lparr>visit = (\<lambda>name x es. (es @ [Value name x], x)),
     visit_nested = Some (\<lambda>name es. es @ [Enter name]), exit_nested = Some (\<lambda>name es. es @ [Exit name])\<rparr>"

lemma Visitable_accept_trace_witness:
  "accept mock_nested_type recorder [] mock_nested =
     Inr ([Value ''c_nested'' 1, Enter ''m'', Value ''c'' 9, Value ''d'' 6, Exit ''m''], mock_nested)"
proof -
  let ?ps = "[(''c_nested'', ''c_nested'', Plain), (''m'', ''m'', mock_type)]"
  let ?fs = "[(''c_nested'', Leaf 1), (''m'', Object [(''c'', Leaf 9), (''d'', Leaf (6 :: nat))])]"
  have "complete_visitor (recorder :: (nat visit_event list, nat) visitor)"
    and "read_only (recorder :: (nat visit_event list, nat) visitor)"
    by (simp_all add: complete_visitor_def read_only_def recorder_def)
  moreover have "of_type (Class ?ps) (Object ?fs)" by (simp add: mock_defs)
  ultimately have "accept (Class ?ps) recorder [] (Object ?fs) =
      Inr (fold (visitor_call recorder) (trace ?ps ?fs) [], Object ?fs)"
    using Visitable_accept_trace [of recorder ?ps ?fs "[]"] by blast
  then show ?thesis
    by (simp add: mock_defs mock_nested_def recorder_def)
qed

text \<open>
  A visitor without \<open>visit_nested\<close> throws \<open>std::runtime_error\<close> exactly when the class has
  a property of a visitable type, and otherwise visits every property, whatever it does to
  the values.
\<close>

lemma Visitable_missing_visit_nested:
  assumes "visit_nested v = None" and "of_type (Class ps) (Object fs)"
  shows "((\<exists>m. accept (Class ps) v s (Object fs) = Inl (Runtime_error m)) \<longleftrightarrow> has_nested ps) \<and>
    ((\<exists>r. accept (Class ps) v s (Object fs) = Inr r) \<longleftrightarrow> \<not> has_nested ps)"
proof -
  have "members_of_type ps fs" using assms(2) by simp
  from nested_throws [OF assms(1) this, of s] show ?thesis
    by (cases "visit_foreach_property v ps s fs") (auto split: prod.split)
qed

lemma Visitable_missing_visit_nested_witness:
  "\<exists>m. accept mock_nested_type (recorder\<lparr>visit_nested := None\<rparr>) [] mock_nested = Inl (Runtime_error m)"
proof -
  let ?ps = "[(''c_nested'', ''c_nested'', Plain), (''m'', ''m'', mock_type)]"
  let ?fs = "[(''c_nested'', Leaf 1), (''m'', Object [(''c'', Leaf 9), (''d'', Leaf (6 :: nat))])]"
  have "of_type (Class ?ps) (Object ?fs)" by (simp add: mock_defs)
  moreover have "has_nested ?ps" by (simp add: has_nested_def has_get_visitable_def mock_defs)
  ultimately have "\<exists>m. accept (Class ?ps) (recorder\<lparr>visit_nested := None\<rparr>) [] (Object ?fs) = Inl (Runtime_error m)"
    using Visitable_missing_visit_nested [of "recorder\<lparr>visit_nested := None\<rparr>" ?ps ?fs "[]"] by simp
  then show ?thesis by (simp add: mock_defs mock_nested_def)
qed

section \<open>Visitors that change what they visit\<close>

text \<open>In C++ a member has one type, in whatever properties it is listed.\<close>

definition one_type :: "(string \<times> string \<times> ctype) list \<Rightarrow> bool" where
  "one_type ps \<longleftrightarrow> (\<forall>p \<in> set ps. \<forall>q \<in> set ps. fst (snd p) = fst (snd q) \<longrightarrow> snd (snd p) = snd (snd q))"

fun wf_type :: "ctype \<Rightarrow> bool" and wf_members :: "(string \<times> string \<times> ctype) list \<Rightarrow> bool" where
  "wf_type Plain = True"
| "wf_type (Class ps) = (one_type ps \<and> wf_members ps)"
| "wf_members [] = True"
| "wf_members ((name, m, ty) # ps) = (wf_type ty \<and> wf_members ps)"

lemma wf_members_iff: "wf_members ps \<longleftrightarrow> (\<forall>p \<in> set ps. wf_type (snd (snd p)))"
  by (induction ps) auto

lemma members_of_type_iff:
  "members_of_type ps fs \<longleftrightarrow>
     (\<forall>p \<in> set ps. \<exists>i. map_of fs (fst (snd p)) = Some i \<and> of_type (snd (snd p)) i)"
  by (induction ps) (auto split: option.splits)

lemma set_member_of_type:
  assumes "members_of_type qs fs" and "one_type qs" and "(name, m, ty) \<in> set qs" and "of_type ty i"
  shows "members_of_type qs (set_member m i fs)"
  unfolding members_of_type_iff
proof
  fix p assume p: "p \<in> set qs"
  then obtain j where j: "map_of fs (fst (snd p)) = Some j" "of_type (snd (snd p)) j"
    using assms(1) by (auto simp: members_of_type_iff)
  show "\<exists>j. map_of (set_member m i fs) (fst (snd p)) = Some j \<and> of_type (snd (snd p)) j"
  proof (cases "fst (snd p) = m")
    case True
    then have "snd (snd p) = ty" using assms(2,3) p by (force simp: one_type_def)
    with True j(1) assms(4) show ?thesis by (simp add: map_of_set_member)
  next
    case False
    with j show ?thesis by (simp add: map_of_set_member)
  qed
qed

lemma set_member_names [simp]: "map fst (set_member m i fs) = map fst fs"
  by (induction fs) (auto simp: set_member_def)

lemma visit_keeps_type:
  assumes "complete_visitor v"
  shows "wf_type ty \<Longrightarrow> of_type ty i \<Longrightarrow>
      \<exists>s' i'. visit_property v name ty s i = Inr (s', i') \<and> of_type ty i'"
    and "set ps \<subseteq> set qs \<Longrightarrow> one_type qs \<Longrightarrow> wf_members qs \<Longrightarrow> members_of_type qs fs \<Longrightarrow>
      \<exists>s' fs'. visit_foreach_property v ps s fs = Inr (s', fs') \<and> members_of_type qs fs' \<and>
        map fst fs' = map fst fs \<and>
        (\<forall>k. k \<notin> (fst \<circ> snd) ` set ps \<longrightarrow> map_of fs' k = map_of fs k)"
  using assms
proof (induction v name ty s i and v ps s fs arbitrary: and qs
    rule: visit_property_visit_foreach_property.induct)
  case (1 v name ps s fs)
  then obtain f g where f: "visit_nested v = Some f" and g: "exit_nested v = Some g"
    by (auto simp: complete_visitor_def)
  have enter: "visit_nested_base v name s = Inr (f name s)" by (simp add: visit_nested_base_def f)
  from 1(1) [OF enter, of ps] 1(2-4)
  obtain s2 fs2 where "visit_foreach_property v ps (f name s) fs = Inr (s2, fs2)"
    and "members_of_type ps fs2" and "map fst fs2 = map fst fs" by auto
  with 1(3) g enter show ?case by (simp add: exit_nested_base_def)
next
  case (2 v name s x)
  then show ?case by (simp add: Let_def split: prod.split)
next
  case more: (5 v name m ty ps s fs)
  have mem: "(name, m, ty) \<in> set qs" using more.prems(1) by simp
  then obtain i where i: "map_of fs m = Some i" "of_type ty i"
    using more.prems(4) by (force simp: members_of_type_iff)
  have ty: "wf_type ty" using more.prems(3) mem by (force simp: wf_members_iff)
  have get: "Property_Get m fs = Some i" using i(1) by (simp add: Property_Get_def)
  from more.IH(2) [OF get ty i(2) more.prems(5)] obtain s1 i1
    where visited: "visit_property v name ty s i = Inr (s1, i1)" and i1: "of_type ty i1" by blast
  have keep: "members_of_type qs (set_member m i1 fs)"
    using set_member_of_type [OF more.prems(4,2) mem i1] .
  from more.IH(3) [OF get visited refl _ more.prems(2,3) keep more.prems(5)] more.prems(1) obtain s2 fs2
    where rest: "visit_foreach_property v ps s1 (set_member m i1 fs) = Inr (s2, fs2)"
      "members_of_type qs fs2" "map fst fs2 = map fst fs"
      "\<And>k. k \<notin> (fst \<circ> snd) ` set ps \<Longrightarrow> map_of fs2 k = map_of (set_member m i1 fs) k" by auto
  with get visited show ?case by (auto simp: map_of_set_member)
qed simp_all

text \<open>
  A visitor that has both members may change the values it is given: \<open>accept\<close> still
  returns, the instance keeps its type, and every member that is not listed as a property
  keeps its value.
\<close>

lemma Visitable_accept_keeps_type:
  assumes "complete_visitor v" and "wf_type (Class ps)" and "of_type (Class ps) (Object fs)"
  shows "\<exists>s' fs'. accept (Class ps) v s (Object fs) = Inr (s', Object fs') \<and>
    of_type (Class ps) (Object fs') \<and>
    (\<forall>k. k \<notin> (fst \<circ> snd) ` set ps \<longrightarrow> map_of fs' k = map_of fs k)"
proof -
  have "one_type ps" "wf_members ps" "members_of_type ps fs" "distinct (map fst fs)"
    using assms(2,3) by simp_all
  with visit_keeps_type(2) [OF assms(1) order_refl, of ps fs s] show ?thesis by auto
qed

text \<open>A visitor that counts the values it sees and doubles them.\<close>

definition doubler :: "(nat, nat) visitor" where
  "doubler = \<lparr>visit = (\<lambda>name x n. (Suc n, 2 * x)), visit_nested = Some (\<lambda>name n. n),
     exit_nested = Some (\<lambda>name n. n)\<rparr>"

lemma Visitable_accept_keeps_type_witness:
  "\<exists>n i. accept mock_nested_type doubler 0 mock_nested = Inr (n, i) \<and> of_type mock_nested_type i \<and>
     i = Object [(''c_nested'', Leaf 2), (''m'', Object [(''c'', Leaf 18), (''d'', Leaf 12)])]"
proof -
  let ?ps = "[(''c_nested'', ''c_nested'', Plain), (''m'', ''m'', mock_type)]"
  let ?fs = "[(''c_nested'', Leaf 1), (''m'', Object [(''c'', Leaf 9), (''d'', Leaf (6 :: nat))])]"
  have "complete_visitor doubler" by (simp add: complete_visitor_def doubler_def)
  moreover have "wf_type (Class ?ps)" "of_type (Class ?ps) (Object ?fs)"
    by (simp_all add: mock_defs one_type_def)
  ultimately have "\<exists>s' fs'. accept (Class ?ps) doubler 0 (Object ?fs) = Inr (s', Object fs') \<and>
      of_type (Class ?ps) (Object fs')"
    using Visitable_accept_keeps_type [of doubler ?ps ?fs 0] by blast
  moreover have "accept (Class ?ps) doubler 0 (Object ?fs) =
      Inr (3, Object [(''c_nested'', Leaf 2), (''m'', Object [(''c'', Leaf 18), (''d'', Leaf 12)])])"
    by (simp add: mock_defs doubler_def Property_Get_def set_member_def visit_base_def
        visit_nested_base_def exit_nested_base_def)
  ultimately show ?thesis by (simp add: mock_defs mock_nested_def)
qed

section \<open>The traversal as a script\<close>

text \<open>
  What \<open>accept\<close> does is settled when the class is compiled: a list of calls on the visitor,
  each value named by the path of members that leads to it.
\<close>

datatype visit_cmd = Enter_at string | Visit_at string "string list" | Exit_at string

fun below :: "string \<Rightarrow> visit_cmd \<Rightarrow> visit_cmd" where
  "below m (Visit_at name p) = Visit_at name (m # p)"
| "below m c = c"

fun member_script :: "string \<Rightarrow> ctype \<Rightarrow> visit_cmd list"
  and class_script :: "(string \<times> string \<times> ctype) list \<Rightarrow> visit_cmd list" where
  "member_script name Plain = [Visit_at name []]"
| "member_script name (Class ps) = Enter_at name # class_script ps @ [Exit_at name]"
| "class_script [] = []"
| "class_script ((name, m, ty) # ps) = map (below m) (member_script name ty) @ class_script ps"

fun get_path :: "'v inst \<Rightarrow> string list \<Rightarrow> 'v inst option" where
  "get_path i [] = Some i"
| "get_path (Leaf x) (m # p) = None"
| "get_path (Object fs) (m # p) = (case map_of fs m of None \<Rightarrow> None | Some i \<Rightarrow> get_path i p)"

fun put_path :: "'v inst \<Rightarrow> string list \<Rightarrow> 'v inst \<Rightarrow> 'v inst" where
  "put_path i [] j = j"
| "put_path (Leaf x) (m # p) j = Leaf x"
| "put_path (Object fs) (m # p) j =
     (case map_of fs m of None \<Rightarrow> Object fs | Some i \<Rightarrow> Object (set_member m (put_path i p j) fs))"

fun run_script :: "('s, 'v) visitor \<Rightarrow> visit_cmd list \<Rightarrow> 's \<Rightarrow> 'v inst \<Rightarrow> ('s \<times> 'v inst) res" where
  "run_script v [] s i = Inr (s, i)"
| "run_script v (Enter_at name # cs) s i = bind_res (visit_nested_base v name s) (\<lambda>s'. run_script v cs s' i)"
| "run_script v (Exit_at name # cs) s i = bind_res (exit_nested_base v name s) (\<lambda>s'. run_script v cs s' i)"
| "run_script v (Visit_at name p # cs) s i =
     (case get_path i p of
        Some (Leaf x) \<Rightarrow> (case visit_base v name x s of
          (s', x') \<Rightarrow> run_script v cs s' (put_path i p (Leaf x')))
      | _ \<Rightarrow> run_script v cs s i)"

lemma run_script_append:
  "run_script v (cs @ ds) s i = bind_res (run_script v cs s i) (\<lambda>(s', i'). run_script v ds s' i')"
proof (induction v cs s i rule: run_script.induct)
  case (2 v name cs s i)
  then show ?case by (cases "visit_nested_base v name s") simp_all
next
  case (3 v name cs s i)
  then show ?case by (cases "exit_nested_base v name s") simp_all
next
  case (4 v name p cs s i)
  then show ?case by (auto split: option.split inst.split prod.split)
qed simp

lemma set_member_twice: "set_member m i (set_member m j fs) = set_member m i fs"
  by (auto simp: set_member_def)

text \<open>A member's script, run on the object that has the member.\<close>

lemma run_script_below:
  assumes "map_of fs m = Some i" and "distinct (map fst fs)"
  shows "run_script v (map (below m) cs) s (Object fs) =
    bind_res (run_script v cs s i) (\<lambda>(s', i'). Inr (s', Object (set_member m i' fs)))"
  using assms
proof (induction v cs s i arbitrary: fs rule: run_script.induct)
  case (1 v s i)
  then show ?case by (simp add: set_member_same)
next
  case (2 v name cs s i)
  then show ?case by (cases "visit_nested_base v name s") simp_all
next
  case (3 v name cs s i)
  then show ?case by (cases "exit_nested_base v name s") simp_all
next
  case (4 v name p cs s i)
  show ?case
  proof (cases "\<exists>x. get_path i p = Some (Leaf x)")
    case True
    then obtain x s' x' where x: "get_path i p = Some (Leaf x)" and v: "visit_base v name x s = (s', x')"
      by (meson surj_pair)
    have "map_of (set_member m (put_path i p (Leaf x')) fs) m = Some (put_path i p (Leaf x'))"
      using 4(4) by (simp add: map_of_set_member)
    with 4(2) [OF x refl v [symmetric]] 4(4,5) x v show ?thesis by (simp add: set_member_twice)
  next
    case False
    with 4 show ?thesis by (auto split: option.splits inst.splits)
  qed
qed

text \<open>\<open>accept\<close> runs the script of the type, and what it leaves is an instance of the type.\<close>

lemma traversal_script:
  shows "wf_type ty \<Longrightarrow> of_type ty i \<Longrightarrow>
      visit_property v name ty s i = run_script v (member_script name ty) s i \<and>
      (\<forall>s' i'. visit_property v name ty s i = Inr (s', i') \<longrightarrow> of_type ty i')"
    and "set ps \<subseteq> set qs \<Longrightarrow> one_type qs \<Longrightarrow> wf_members qs \<Longrightarrow> members_of_type qs fs \<Longrightarrow>
      distinct (map fst fs) \<Longrightarrow>
      bind_res (visit_foreach_property v ps s fs) (\<lambda>(s', fs'). Inr (s', Object fs')) =
        run_script v (class_script ps) s (Object fs) \<and>
      (\<forall>s' fs'. visit_foreach_property v ps s fs = Inr (s', fs') \<longrightarrow>
        members_of_type qs fs' \<and> map fst fs' = map fst fs)"
proof (induction v name ty s i and v ps s fs arbitrary: and qs
    rule: visit_property_visit_foreach_property.induct)
  case (1 v name ps s fs)
  show ?case
  proof (cases "visit_nested_base v name s")
    case (Inr s1)
    from 1(1) [OF Inr, of ps] 1(2,3)
    have members: "run_script v (class_script ps) s1 (Object fs) =
        bind_res (visit_foreach_property v ps s1 fs) (\<lambda>(s', fs'). Inr (s', Object fs'))"
      and keep: "\<And>s' fs'. visit_foreach_property v ps s1 fs = Inr (s', fs') \<Longrightarrow>
        members_of_type ps fs' \<and> map fst fs' = map fst fs" by auto
    show ?thesis
    proof (cases "visit_foreach_property v ps s1 fs")
      case inr: (Inr r)
      obtain s2 fs2 where r: "r = (s2, fs2)" by (cases r)
      with keep inr 1(3) have "of_type (Class ps) (Object fs2)" by simp
      then show ?thesis
        by (cases "exit_nested_base v name s2") (simp_all add: Inr run_script_append members inr r)
    qed (simp add: Inr run_script_append members)
  qed simp
next
  case (2 v name s x)
  then show ?case by (simp add: Let_def split: prod.split)
next
  case more: (5 v name m ty ps s fs)
  have mem: "(name, m, ty) \<in> set qs" using more.prems(1) by simp
  then obtain i where i: "map_of fs m = Some i" "of_type ty i"
    using more.prems(4) by (force simp: members_of_type_iff)
  have ty: "wf_type ty" using more.prems(3) mem by (force simp: wf_members_iff)
  have get: "Property_Get m fs = Some i" using i(1) by (simp add: Property_Get_def)
  note member = more.IH(2) [OF get ty i(2)]
  show ?case
  proof (cases "visit_property v name ty s i")
    case (Inl e)
    then have "run_script v (member_script name ty) s i = Inl e" using member by simp
    with Inl get show ?thesis
      by (simp add: run_script_append run_script_below [OF i(1) more.prems(5)])
  next
    case (Inr r)
    obtain s1 i1 where r: "r = (s1, i1)" by (cases r)
    have keep: "members_of_type qs (set_member m i1 fs)"
      using set_member_of_type [OF more.prems(4,2) mem] member Inr r by blast
    have "distinct (map fst (set_member m i1 fs))" using more.prems(5) by simp
    note rest = more.IH(3) [OF get Inr r [symmetric] _ more.prems(2,3) keep this]
    have "run_script v (member_script name ty) s i = Inr (s1, i1)" using member Inr r by simp
    with rest more.prems(1) Inr r get show ?thesis
      by (simp add: run_script_append run_script_below [OF i(1) more.prems(5)])
  qed
qed simp_all

lemma get_put_other:
  assumes "get_path i p = Some (Leaf x)" and "get_path i q = Some (Leaf y)" and "p \<noteq> q"
  shows "get_path (put_path i q (Leaf z)) p = Some (Leaf x)"
  using assms
proof (induction i q "Leaf z :: 'a inst" arbitrary: p rule: put_path.induct)
  case (1 i)
  then show ?case by (cases p) auto
next
  case (3 fs m q)
  then show ?case
    by (cases p) (auto simp: map_of_set_member split: option.splits)
qed auto

lemma run_script_frame:
  assumes "run_script v cs s i = Inr (s', i')" and "get_path i p = Some (Leaf x)"
    and "\<forall>name. Visit_at name p \<notin> set cs"
  shows "get_path i' p = Some (Leaf x)"
  using assms
proof (induction v cs s i rule: run_script.induct)
  case (4 v name q cs s i)
  show ?case
  proof (cases "\<exists>y. get_path i q = Some (Leaf y)")
    case True
    then obtain y s1 y' where y: "get_path i q = Some (Leaf y)" and v: "visit_base v name y s = (s1, y')"
      by (meson surj_pair)
    have "get_path (put_path i q (Leaf y')) p = Some (Leaf x)"
      using get_put_other [OF 4(5) y] 4(6) by auto
    with 4(2) [OF y refl v [symmetric]] 4(4,6) y v show ?thesis by simp
  next
    case False
    with 4 show ?thesis by (auto split: option.splits inst.splits)
  qed
qed (auto simp: res_eq)

text \<open>
  C24. The traversal is settled by the class alone: for every visitor, also one that changes
  the values it is given or throws, \<open>accept\<close> does what the class's script does on the
  instance. With both \<open>visit_nested\<close> and \<open>exit_nested\<close> it returns; the instance keeps its
  type, and every value that no property leads to stays as it was.
\<close>

theorem Visitable_accept_script:
  assumes "wf_type (Class ps)" and "of_type (Class ps) i"
  shows "accept (Class ps) v s i = run_script v (class_script ps) s i \<and>
    (complete_visitor v \<longrightarrow> (\<exists>s' i'. accept (Class ps) v s i = Inr (s', i'))) \<and>
    (\<forall>s' i'. accept (Class ps) v s i = Inr (s', i') \<longrightarrow> of_type (Class ps) i' \<and>
      (\<forall>p x. (\<forall>name. Visit_at name p \<notin> set (class_script ps)) \<longrightarrow>
         get_path i p = Some (Leaf x) \<longrightarrow> get_path i' p = Some (Leaf x)))"
proof -
  obtain fs where i: "i = Object fs" using assms(2) by (cases i) auto
  with assms have wf: "one_type ps" "wf_members ps" "members_of_type ps fs" "distinct (map fst fs)"
    by simp_all
  from traversal_script(2) [OF order_refl wf, of v s]
  have script: "accept (Class ps) v s i = run_script v (class_script ps) s i"
    and keep: "\<And>s' fs'. visit_foreach_property v ps s fs = Inr (s', fs') \<Longrightarrow>
      members_of_type ps fs' \<and> map fst fs' = map fst fs" by (simp_all add: i)
  have "\<exists>s' i'. accept (Class ps) v s i = Inr (s', i')" if "complete_visitor v"
    using visit_keeps_type(2) [OF that order_refl wf(1-3), of s] by (auto simp: i)
  moreover have "of_type (Class ps) i'" if "accept (Class ps) v s i = Inr (s', i')" for s' i'
    using that keep wf(4) by (auto simp: i res_eq)
  ultimately show ?thesis using run_script_frame [of v "class_script ps" s i] script by metis
qed

theorem Visitable_accept_script_witness:
  "accept mock_nested_type doubler 0 mock_nested = run_script doubler
     [Visit_at ''c_nested'' [''c_nested''], Enter_at ''m'', Visit_at ''c'' [''m'', ''c''],
      Visit_at ''d'' [''m'', ''d''], Exit_at ''m''] 0 mock_nested \<and>
   (\<exists>n i. accept mock_nested_type doubler 0 mock_nested = Inr (n, i) \<and> of_type mock_nested_type i)"
proof -
  let ?ps = "[(''c_nested'', ''c_nested'', Plain), (''m'', ''m'', mock_type)]"
  have wf: "wf_type (Class ?ps)" "of_type (Class ?ps) mock_nested"
    by (simp_all add: mock_defs mock_nested_def one_type_def)
  have "complete_visitor doubler" by (simp add: complete_visitor_def doubler_def)
  with Visitable_accept_script [OF wf, of doubler 0]
  have "accept (Class ?ps) doubler 0 mock_nested = run_script doubler (class_script ?ps) 0 mock_nested \<and>
      (\<exists>n i. accept (Class ?ps) doubler 0 mock_nested = Inr (n, i) \<and> of_type (Class ?ps) i)" by blast
  moreover have "class_script ?ps = [Visit_at ''c_nested'' [''c_nested''], Enter_at ''m'',
      Visit_at ''c'' [''m'', ''c''], Visit_at ''d'' [''m'', ''d''], Exit_at ''m'']"
    by (simp add: mock_defs)
  moreover have "mock_nested_type = Class ?ps" by (simp add: mock_nested_type_def visitable_def property_def)
  ultimately show ?thesis by metis
qed

section \<open>The visitor object\<close>

text \<open>
  \<open>VisitorBase\<close> keeps in \<open>derived_\<close> the address of the object it was constructed in, and
  every call goes through it. Nothing redefines the copy constructor, so a copy of a visitor
  takes \<open>derived_\<close> over as it is. Objects are kept under their addresses.
\<close>

record 's visitor_object =
  members :: 's
  derived :: nat

type_synonym 's visitors = "nat \<rightharpoonup> 's visitor_object"

definition VisitorBase_new :: "nat \<Rightarrow> 's \<Rightarrow> 's visitors \<Rightarrow> 's visitors" where
  "VisitorBase_new a s h = h(a \<mapsto> \<lparr>members = s, derived = a\<rparr>)"

definition VisitorBase_copy :: "nat \<Rightarrow> nat \<Rightarrow> 's visitors \<Rightarrow> 's visitors" where
  "VisitorBase_copy a b h = (case h a of Some x \<Rightarrow> h(b \<mapsto> x) | None \<Rightarrow> h)"

definition VisitorBase_destroy :: "nat \<Rightarrow> 's visitors \<Rightarrow> 's visitors" where
  "VisitorBase_destroy a h = h(a := None)"

text \<open>A call of a member of the derived class, which changes the fields by \<open>f\<close>.\<close>

definition through_derived :: "nat \<Rightarrow> ('s \<Rightarrow> 's) \<Rightarrow> 's visitors \<Rightarrow> 's visitors res" where
  "through_derived a f h = (case h a of
     None \<Rightarrow> Inl (Undefined Dangling_pointer)
   | Some x \<Rightarrow> (case h (derived x) of
       None \<Rightarrow> Inl (Undefined Dangling_pointer)
     | Some y \<Rightarrow> Inr (h(derived x \<mapsto> y\<lparr>members := f (members y)\<rparr>))))"

lemmas VisitorBase_defs = VisitorBase_new_def VisitorBase_copy_def VisitorBase_destroy_def
  through_derived_def

lemma VisitorBase_itself:
  "through_derived a f (VisitorBase_new a s h) = Inr (VisitorBase_new a (f s) h)"
  by (simp add: VisitorBase_defs)

text \<open>What a copy is asked to visit is recorded in the original, and is undefined once that is gone.\<close>

lemma VisitorBase_copy_forwards:
  assumes "a \<noteq> b"
  shows "through_derived b f (VisitorBase_copy a b (VisitorBase_new a s h)) =
      Inr (h(a \<mapsto> \<lparr>members = f s, derived = a\<rparr>, b \<mapsto> \<lparr>members = s, derived = a\<rparr>))"
    and "through_derived b f (VisitorBase_destroy a (VisitorBase_copy a b (VisitorBase_new a s h))) =
      Inl (Undefined Dangling_pointer)"
  using assms by (auto simp: VisitorBase_defs fun_eq_iff)

end
