(* ===== verification/Visit_Macros.thy ===== *)
theory Visit_Macros
  imports Visit
begin

text \<open>
  The macros of \<open>libs/visit/property.hpp\<close>, with which a class declares its \<open>GetVisitable\<close>:
  what each expands to, and what the compiler makes of a sequence of them. The classes and
  visitors of the library's tests (\<open>libs/visit/test\<close>) are declared with them.
\<close>

section \<open>The macros\<close>

text \<open>
  The pieces the macros are made of: the head of the function with its opening brace, the
  alias for the class, the start of the call of \<open>visitable\<close>, a comma, a call of \<open>property\<close>
  with its two arguments, and the end of the call, the return and the closing brace.
\<close>

datatype token = Head | Using string | Call | Comma | Make string string | Close | Return | Brace

definition BEGIN_VISITABLE :: "string \<Rightarrow> token list" where
  "BEGIN_VISITABLE TypeName = [Head, Using TypeName, Call]"

definition ADD_PROPERTY_BEGIN :: "string \<Rightarrow> string \<Rightarrow> token list" where
  "ADD_PROPERTY_BEGIN TypeName PropertyName =
     [Head, Using TypeName, Call, Make PropertyName PropertyName]"

definition ADD_PROPERTY :: "string \<Rightarrow> token list" where
  "ADD_PROPERTY PropertyName = [Comma, Make PropertyName PropertyName]"

definition ADD_PROPERTY_END :: "string \<Rightarrow> token list" where
  "ADD_PROPERTY_END PropertyName = [Comma, Make PropertyName PropertyName, Close, Return, Brace]"

definition END_VISITABLE :: "token list" where
  "END_VISITABLE = [Close, Return, Brace]"

lemmas macro_defs = BEGIN_VISITABLE_def ADD_PROPERTY_BEGIN_def ADD_PROPERTY_def
  ADD_PROPERTY_END_def END_VISITABLE_def

text \<open>A use of a macro in the body of a class.\<close>

datatype macro = Begin_visitable string | Add_property_begin string string | Add_property string
  | Add_property_end string | End_visitable

fun expand :: "macro \<Rightarrow> token list" where
  "expand (Begin_visitable T) = BEGIN_VISITABLE T"
| "expand (Add_property_begin T p) = ADD_PROPERTY_BEGIN T p"
| "expand (Add_property p) = ADD_PROPERTY p"
| "expand (Add_property_end p) = ADD_PROPERTY_END p"
| "expand End_visitable = END_VISITABLE"

section \<open>What the compiler reads\<close>

text \<open>
  The arguments of a call are separated by commas, with none in front of the first; the
  function is the call, its return and its closing brace.
\<close>

fun more_arguments :: "token list \<Rightarrow> ((string \<times> string) list \<times> token list) option" where
  "more_arguments (Comma # Make name m # ts) =
     (case more_arguments ts of Some (ps, rest) \<Rightarrow> Some ((name, m) # ps, rest) | None \<Rightarrow> None)"
| "more_arguments (Comma # ts) = None"
| "more_arguments ts = Some ([], ts)"

fun arguments :: "token list \<Rightarrow> ((string \<times> string) list \<times> token list) option" where
  "arguments (Make name m # ts) =
     (case more_arguments ts of Some (ps, rest) \<Rightarrow> Some ((name, m) # ps, rest) | None \<Rightarrow> None)"
| "arguments ts = Some ([], ts)"

fun function_body :: "token list \<Rightarrow> (string \<times> (string \<times> string) list) option" where
  "function_body (Head # Using T # Call # ts) =
     (case arguments ts of
        Some (ps, rest) \<Rightarrow> if rest = [Close, Return, Brace] then Some (T, ps) else None
      | None \<Rightarrow> None)"
| "function_body ts = None"

text \<open>
  The type that \<open>GetVisitable\<close> describes: the members' types come from their declarations
  \<open>decls\<close> in the class, and a name that is no member of it does not compile.
\<close>

definition GetVisitable :: "(string \<Rightarrow> string \<Rightarrow> ctype option) \<Rightarrow> macro list \<Rightarrow> ctype option" where
  "GetVisitable decls uses =
     (case function_body (concat (map expand uses)) of
        None \<Rightarrow> None
      | Some (T, ps) \<Rightarrow>
          if list_all (\<lambda>(name, m). decls T m \<noteq> None) ps
          then Some (visitable (map (\<lambda>(name, m). property name m (the (decls T m))) ps))
          else None)"

text \<open>The uses that declare the members \<open>ms\<close> of the class \<open>T\<close>, in their order.\<close>

inductive declares :: "macro list \<Rightarrow> string \<Rightarrow> string list \<Rightarrow> bool" where
  no_property: "declares [Begin_visitable T, End_visitable] T []"
| ended: "declares (Add_property_begin T m # map Add_property ms @ [End_visitable]) T (m # ms)"
| end_with: "declares (Add_property_begin T m # map Add_property ms @ [Add_property_end n]) T (m # ms @ [n])"

lemma expand_nonempty [simp]: "expand u \<noteq> []"
  by (cases u) (simp_all add: macro_defs)

lemma expand_all_Nil [simp]: "concat (map expand us) = [] \<longleftrightarrow> us = []"
  by (cases us) simp_all

abbreviation twice :: "string list \<Rightarrow> (string \<times> string) list" where
  "twice ms \<equiv> map (\<lambda>m. (m, m)) ms"

lemma more_arguments_iff:
  "more_arguments (concat (map expand us)) = Some (ps, [Close, Return, Brace]) \<longleftrightarrow>
     (\<exists>ms. us = map Add_property ms @ [End_visitable] \<and> ps = twice ms \<or>
        (\<exists>n. us = map Add_property ms @ [Add_property_end n] \<and> ps = twice (ms @ [n])))"
proof (induction us arbitrary: ps)
  case Nil
  then show ?case by simp
next
  case (Cons u us)
  show ?case
  proof (cases u)
    case (Add_property p)
    have "more_arguments (concat (map expand (u # us))) = Some (ps, [Close, Return, Brace]) \<longleftrightarrow>
        (\<exists>qs. more_arguments (concat (map expand us)) = Some (qs, [Close, Return, Brace]) \<and> ps = (p, p) # qs)"
      by (auto simp: Add_property macro_defs split: option.splits)
    also have "\<dots> \<longleftrightarrow> (\<exists>ms. u # us = map Add_property ms @ [End_visitable] \<and> ps = twice ms \<or>
        (\<exists>n. u # us = map Add_property ms @ [Add_property_end n] \<and> ps = twice (ms @ [n])))"
      unfolding Cons.IH Add_property by (safe; force simp: Cons_eq_append_conv Cons_eq_map_conv)
    finally show ?thesis .
  qed (auto simp: macro_defs Cons_eq_append_conv Cons_eq_map_conv)
qed

lemma arguments_expand: "arguments (concat (map expand us)) = Some ([], concat (map expand us))"
  by (cases us) (simp, case_tac a, simp_all add: macro_defs)

lemma expand_all_end: "concat (map expand us) = [Close, Return, Brace] \<longleftrightarrow> us = [End_visitable]"
  by (cases us) (simp, case_tac a, auto simp: macro_defs)

lemma function_body_iff:
  "function_body (concat (map expand us)) = Some (T, ps) \<longleftrightarrow> (\<exists>ms. declares us T ms \<and> ps = twice ms)"
proof
  assume body: "function_body (concat (map expand us)) = Some (T, ps)"
  then obtain u vs where us: "us = u # vs" by (cases us) auto
  show "\<exists>ms. declares us T ms \<and> ps = twice ms"
  proof (cases u)
    case (Begin_visitable T')
    with body us have "T' = T" "ps = []" "vs = [End_visitable]"
      by (simp_all add: macro_defs arguments_expand expand_all_end split: if_splits)
    then show ?thesis using us Begin_visitable declares.no_property by auto
  next
    case (Add_property_begin T' m)
    with body us obtain qs where "T' = T" "ps = (m, m) # qs"
      "more_arguments (concat (map expand vs)) = Some (qs, [Close, Return, Brace])"
      by (auto simp: macro_defs split: option.splits if_splits)
    then show ?thesis
      unfolding us Add_property_begin more_arguments_iff
      using declares.ended [of T m] declares.end_with [of T m] by fastforce
  qed (use body us in \<open>auto simp: macro_defs\<close>)
next
  assume "\<exists>ms. declares us T ms \<and> ps = twice ms"
  then obtain ms where "declares us T ms" and ps: "ps = twice ms" by blast
  then show "function_body (concat (map expand us)) = Some (T, ps)"
  proof cases
    case (ended m ms')
    then have "more_arguments (concat (map expand (map Add_property ms' @ [End_visitable]))) =
        Some (twice ms', [Close, Return, Brace])" unfolding more_arguments_iff by blast
    then show ?thesis by (simp add: ended ps macro_defs)
  next
    case (end_with m ms' n)
    then have "more_arguments (concat (map expand (map Add_property ms' @ [Add_property_end n]))) =
        Some (twice (ms' @ [n]), [Close, Return, Brace])" unfolding more_arguments_iff by blast
    then show ?thesis by (simp add: end_with ps macro_defs)
  qed (simp add: ps macro_defs)
qed

text \<open>
  C25. The macros declare what is written with them and nothing else compiles: a sequence of
  uses gives a class its \<open>GetVisitable\<close> exactly when it is \<open>ADD_PROPERTY_BEGIN\<close>, any number
  of \<open>ADD_PROPERTY\<close> and one end, or an empty \<open>BEGIN_VISITABLE\<close> to \<open>END_VISITABLE\<close>; and the
  described type has those members, under their own names, in the order they were written.
\<close>

theorem GetVisitable_declared:
  "GetVisitable decls us = Some ty \<longleftrightarrow>
     (\<exists>T ms. declares us T ms \<and> list_all (\<lambda>m. decls T m \<noteq> None) ms \<and>
        ty = visitable (map (\<lambda>m. property m m (the (decls T m))) ms))"
proof (cases "function_body (concat (map expand us))")
  case None
  then have "\<not> declares us T ms" for T ms using function_body_iff [of us] by (metis option.distinct(1))
  with None show ?thesis by (simp add: GetVisitable_def)
next
  case (Some r)
  obtain T ps where r: "r = (T, ps)" by (cases r)
  with Some obtain ms where ms: "declares us T ms" "ps = twice ms" by (auto simp: function_body_iff)
  have only: "T' = T \<and> ms' = ms" if "declares us T' ms'" for T' ms'
  proof -
    have "function_body (concat (map expand us)) = Some (T', twice ms')"
      using that function_body_iff by blast
    with Some r ms have "T' = T" "map fst (twice ms') = map fst (twice ms)" by simp_all
    then show ?thesis by (simp add: o_def)
  qed
  have "GetVisitable decls us = Some ty \<longleftrightarrow> list_all (\<lambda>m. decls T m \<noteq> None) ms \<and>
      ty = visitable (map (\<lambda>m. property m m (the (decls T m))) ms)"
    by (auto simp: GetVisitable_def Some r ms list.pred_map o_def)
  with only ms show ?thesis by blast
qed

text \<open>
  The two macros meant for a list of properties do not go together: after
  \<open>BEGIN_VISITABLE\<close> the comma of \<open>ADD_PROPERTY\<close> has no argument in front of it.
\<close>

lemma BEGIN_VISITABLE_takes_no_property:
  "GetVisitable decls (Begin_visitable T # Add_property p # us) = None"
  by (simp add: GetVisitable_def macro_defs)

end
