(* ===== verification/Visit_Tests.thy ===== *)
theory Visit_Tests
  imports Visit_Macros Complex_Main
begin

text \<open>
  The tests of the visitor library, \<open>libs/visit/test\<close>: its two classes and two visitors, and
  what the tests expect of them, for all values of the members instead of the ones tried.
\<close>

section \<open>The classes\<close>

datatype cvalue = Int_value int | Double_value real | Str_value string

text \<open>The members' types, and the uses of the macros in the two classes.\<close>

definition Mock_uses :: "macro list" where
  "Mock_uses = [Add_property_begin ''Mock'' ''c'', Add_property ''d'', Add_property_end ''s'']"

definition MockNested_uses :: "macro list" where
  "MockNested_uses = [Add_property_begin ''MockNested'' ''c_nested'', Add_property ''d_nested'',
     Add_property ''s_nested'', Add_property ''m'', End_visitable]"

definition Mock_members :: "string \<rightharpoonup> ctype" where
  "Mock_members = [''c'' \<mapsto> Plain, ''d'' \<mapsto> Plain, ''s'' \<mapsto> Plain]"

definition Mock_type :: ctype where
  "Mock_type = the (GetVisitable (\<lambda>T. Mock_members) Mock_uses)"

definition MockNested_members :: "string \<rightharpoonup> ctype" where
  "MockNested_members = [''c_nested'' \<mapsto> Plain, ''d_nested'' \<mapsto> Plain, ''s_nested'' \<mapsto> Plain, ''m'' \<mapsto> Mock_type]"

definition MockNested_type :: ctype where
  "MockNested_type = the (GetVisitable (\<lambda>T. MockNested_members) MockNested_uses)"

definition Mock :: "int \<Rightarrow> real \<Rightarrow> string \<Rightarrow> cvalue inst" where
  "Mock c d s = Object [(''c'', Leaf (Int_value c)), (''d'', Leaf (Double_value d)), (''s'', Leaf (Str_value s))]"

definition MockNested :: "int \<Rightarrow> real \<Rightarrow> string \<Rightarrow> cvalue inst \<Rightarrow> cvalue inst" where
  "MockNested c d s m = Object [(''c_nested'', Leaf (Int_value c)), (''d_nested'', Leaf (Double_value d)),
     (''s_nested'', Leaf (Str_value s)), (''m'', m)]"

section \<open>The visitors\<close>

record results =
  c_result :: "string \<times> int"
  d_result :: "string \<times> real"
  s_result :: "string \<times> string"

text \<open>The overloads of \<open>visit\<close>; each takes the value by a constant reference.\<close>

definition SimpleVisitor_visit :: "string \<Rightarrow> cvalue \<Rightarrow> results \<Rightarrow> results" where
  "SimpleVisitor_visit name v r = (case v of
     Int_value x \<Rightarrow> r\<lparr>c_result := (name, x)\<rparr>
   | Double_value x \<Rightarrow> r\<lparr>d_result := (name, x)\<rparr>
   | Str_value x \<Rightarrow> r\<lparr>s_result := (name, x)\<rparr>)"

definition SimpleVisitor :: "(results, cvalue) visitor" where
  "SimpleVisitor = \<lparr>visit = (\<lambda>name v r. (SimpleVisitor_visit name v r, v)),
     visit_nested = None, exit_nested = None\<rparr>"

record nested_results = results +
  enter_names :: "string list"
  exit_names :: "string list"
  in_nested :: bool

definition NestedVisitor_visit :: "string \<Rightarrow> cvalue \<Rightarrow> nested_results \<Rightarrow> nested_results" where
  "NestedVisitor_visit name v r =
     (if \<not> in_nested r then r
      else case v of
        Int_value x \<Rightarrow> r\<lparr>c_result := (name, x)\<rparr>
      | Double_value x \<Rightarrow> r\<lparr>d_result := (name, x)\<rparr>
      | Str_value x \<Rightarrow> r\<lparr>s_result := (name, x)\<rparr>)"

definition NestedVisitor_visit_nested :: "string \<Rightarrow> nested_results \<Rightarrow> nested_results" where
  "NestedVisitor_visit_nested name r = r\<lparr>enter_names := enter_names r @ [name], in_nested := True\<rparr>"

definition NestedVisitor_exit_nested :: "string \<Rightarrow> nested_results \<Rightarrow> nested_results" where
  "NestedVisitor_exit_nested name r = r\<lparr>exit_names := exit_names r @ [name], in_nested := False\<rparr>"

definition NestedVisitor :: "(nested_results, cvalue) visitor" where
  "NestedVisitor = \<lparr>visit = (\<lambda>name v r. (NestedVisitor_visit name v r, v)),
     visit_nested = Some NestedVisitor_visit_nested, exit_nested = Some NestedVisitor_exit_nested\<rparr>"

section \<open>What the tests expect\<close>

lemmas visitor_defs = SimpleVisitor_def SimpleVisitor_visit_def NestedVisitor_def
  NestedVisitor_visit_def NestedVisitor_visit_nested_def NestedVisitor_exit_nested_def
  visit_base_def visit_nested_base_def exit_nested_base_def

lemma Mock_type_eq:
  "Mock_type = Class [(''c'', ''c'', Plain), (''d'', ''d'', Plain), (''s'', ''s'', Plain)]"
  by (simp add: Mock_type_def Mock_uses_def Mock_members_def GetVisitable_def macro_defs
      visitable_def property_def)

lemma MockNested_type_eq:
  "MockNested_type = Class [(''c_nested'', ''c_nested'', Plain), (''d_nested'', ''d_nested'', Plain),
     (''s_nested'', ''s_nested'', Plain), (''m'', ''m'', Mock_type)]"
  by (simp add: MockNested_type_def MockNested_uses_def MockNested_members_def GetVisitable_def
      macro_defs visitable_def property_def)

text \<open>The traits of the classes, of their members and of the visitors.\<close>

lemma members_traits:
  "\<not> has_get_visitable (the (MockNested_members ''c_nested''))" "has_get_visitable MockNested_type"
  "has_get_visitable (the (MockNested_members ''m''))"
  "\<not> has_exit_nested_v SimpleVisitor" "\<not> has_visit_nested_v SimpleVisitor"
  "has_visit_nested_v NestedVisitor" "has_exit_nested_v NestedVisitor"
  by (simp_all add: has_get_visitable_def MockNested_members_def Mock_type_eq MockNested_type_eq
      has_visit_nested_v_def has_exit_nested_v_def visitor_defs)

text \<open>The simple visitor ends with the members of a flat structure, whatever it held before.\<close>

lemma SimpleVisitor_accept:
  "accept Mock_type SimpleVisitor r (Mock c d s) =
     Inr (\<lparr>c_result = (''c'', c), d_result = (''d'', d), s_result = (''s'', s)\<rparr>, Mock c d s)"
  by (cases r) (simp add: Mock_type_eq Mock_def visitor_defs Property_Get_def set_member_def)

text \<open>
  The nested visitor, new, ends with the members of the nested structure and with its name
  entered and left once; the outer members, visited while it is not in a nested one, leave
  no result.
\<close>

lemma NestedVisitor_accept:
  assumes "\<not> in_nested r"
  shows "accept MockNested_type NestedVisitor r (MockNested c' d' s' (Mock c d s)) =
    Inr (r\<lparr>c_result := (''c'', c), d_result := (''d'', d), s_result := (''s'', s),
      enter_names := enter_names r @ [''m''], exit_names := exit_names r @ [''m'']\<rparr>,
      MockNested c' d' s' (Mock c d s))"
  using assms
  by (cases r) (simp add: Mock_type_eq MockNested_type_eq Mock_def MockNested_def visitor_defs
      Property_Get_def set_member_def)

text \<open>The simple visitor, given a nested structure, throws when it comes to the nested member.\<close>

lemma SimpleVisitor_accept_nested:
  "accept MockNested_type SimpleVisitor r (MockNested c' d' s' (Mock c d s)) =
     Inl (Runtime_error ''visit_nested is not a member function, please implement it in the derived class'')"
  by (simp add: Mock_type_eq MockNested_type_eq Mock_def MockNested_def visitor_defs
      Property_Get_def set_member_def)

section \<open>The tests as programs\<close>

text \<open>A test returns whether all its expectations hold.\<close>

definition is_i_visitable_v :: "ctype option \<Rightarrow> bool" where
  "is_i_visitable_v described = (case described of Some (Class ps) \<Rightarrow> True | _ \<Rightarrow> False)"

definition MembersTraitAreCorrect :: bool where
  "MembersTraitAreCorrect \<longleftrightarrow>
     \<not> has_get_visitable (the (MockNested_members ''c_nested'')) \<and> has_get_visitable MockNested_type \<and>
     has_get_visitable (the (MockNested_members ''m'')) \<and>
     \<not> has_exit_nested_v SimpleVisitor \<and> \<not> has_exit_nested_v SimpleVisitor \<and>
     has_visit_nested_v NestedVisitor \<and> has_visit_nested_v NestedVisitor"

definition visited :: "int \<Rightarrow> real \<Rightarrow> string \<Rightarrow> 'a results_scheme \<Rightarrow> bool" where
  "visited c d s r \<longleftrightarrow> c_result r = (''c'', c) \<and> d_result r = (''d'', d) \<and> s_result r = (''s'', s)"

definition results_new :: results where
  "results_new = \<lparr>c_result = ('''', 0), d_result = ('''', 0), s_result = ('''', '''')\<rparr>"

definition nested_results_new :: nested_results where
  "nested_results_new = results.extend results_new
     \<lparr>enter_names = [], exit_names = [], in_nested = False\<rparr>"

definition MockStructure_MembersAreVisited :: "bool res" where
  "MockStructure_MembersAreVisited =
     (if \<not> is_i_visitable_v (GetVisitable (\<lambda>T. Mock_members) Mock_uses) then Inr False
      else bind_res (accept Mock_type SimpleVisitor results_new (Mock 9 6.5 ''cane'')) (\<lambda>(v, m).
        bind_res (accept Mock_type SimpleVisitor v (Mock 33 33.3 ''maiale'')) (\<lambda>(v', m').
          Inr (visited 9 6.5 ''cane'' v \<and> visited 33 33.3 ''maiale'' v'))))"

definition MockNestedStructure_MembersAreVisited :: "bool res" where
  "MockNestedStructure_MembersAreVisited =
     bind_res (accept MockNested_type NestedVisitor nested_results_new
         (MockNested 1 1.2 ''cagna'' (Mock 9 6.5 ''cane''))) (\<lambda>(v, m).
       Inr (length (enter_names v) = 1 \<and> length (exit_names v) = 1 \<and>
         last (exit_names v) = ''m'' \<and> last (enter_names v) = ''m'' \<and> visited 9 6.5 ''cane'' v))"

lemma visit_tests_pass:
  "MembersTraitAreCorrect" "MockStructure_MembersAreVisited = Inr True"
  "MockNestedStructure_MembersAreVisited = Inr True"
proof -
  have "is_i_visitable_v (GetVisitable (\<lambda>T. Mock_members) Mock_uses)"
    by (simp add: is_i_visitable_v_def Mock_uses_def Mock_members_def GetVisitable_def macro_defs
        visitable_def property_def)
  then show "MockStructure_MembersAreVisited = Inr True"
    by (simp add: MockStructure_MembersAreVisited_def SimpleVisitor_accept visited_def)
  have "\<not> in_nested nested_results_new" by (simp add: nested_results_new_def results.defs)
  from NestedVisitor_accept [OF this] show "MockNestedStructure_MembersAreVisited = Inr True"
    by (simp add: MockNestedStructure_MembersAreVisited_def visited_def nested_results_new_def results.defs)
qed (simp add: MembersTraitAreCorrect_def members_traits)

end
