(* ===== verification/Repository_Tests.thy ===== *)
theory Repository_Tests
  imports Deck Route_Manager
begin

text \<open>
  The tests of the domain and of the networking library, \<open>domain/test/deck_tests.cpp\<close> and
  \<open>networking/test/networking_tests.cpp\<close>: what they expect, for all inputs instead of the
  ones tried. The expectations of the tests are the corollaries.
\<close>

section \<open>Sorted decks\<close>

text \<open>A deck filled card by card is sorted exactly when the cards came in ascending order.\<close>

lemma AddCards_IsSorted:
  assumes "Deck_AddCards m cs Deck_default = Inr d"
  shows "Deck_IsSorted d \<longleftrightarrow> sorted cs"
  using Deck_AddCards_Inr [OF assms] by (simp add: Deck_IsSorted_def Deck_default_def std_is_sorted_iff)

lemma Deck_AddCards_fits:
  "length (deck_cards d) + length cs \<le> m \<Longrightarrow>
   Deck_AddCards m cs d = Inr (d\<lparr>deck_cards := deck_cards d @ cs\<rparr>)"
  unfolding Deck_AddCards_def by (induction cs arbitrary: d) (auto simp: Deck_AddCard_def)

definition DeckTest_IsSorted :: "nat \<Rightarrow> card list \<Rightarrow> bool res" where
  "DeckTest_IsSorted m cs = bind_res (Deck_AddCards m cs Deck_default) (\<lambda>d. Inr (Deck_IsSorted d))"

lemma DeckTest_IsSorted_eq:
  "length cs \<le> m \<Longrightarrow> DeckTest_IsSorted m cs = Inr (sorted cs)"
  using Deck_AddCards_fits [of Deck_default cs m]
  by (simp add: DeckTest_IsSorted_def AddCards_IsSorted Deck_default_def)

corollary DeckTest_IsSorted_tests:
  "2 \<le> m \<Longrightarrow> DeckTest_IsSorted m [Card 2, Card 1] = Inr False"
  "3 \<le> m \<Longrightarrow> DeckTest_IsSorted m [Card 1, Card 2, Card 3] = Inr True"
  using DeckTest_IsSorted_eq [of "[Card 2, Card 1]" m] DeckTest_IsSorted_eq [of "[Card 1, Card 2, Card 3]" m]
  by (simp_all add: less_eq_card_def word_le_nat_alt)

section \<open>Counting the cards of a built deck\<close>

text \<open>
  The loop of the test: while the deck is not empty, the counter of the picked card's value
  is incremented; \<open>value_counts[v]\<close> of a value without a counter makes one that is 0.
\<close>

definition count_card :: "size_t \<Rightarrow> (size_t \<rightharpoonup> int) \<Rightarrow> (size_t \<rightharpoonup> int) res" where
  "count_card v counts =
     (let k = (case counts v of None \<Rightarrow> 0 | Some k \<Rightarrow> k)
      in if k < 2147483647 then Inr (umap_assign v (k + 1) counts) else Inl (Undefined Signed_overflow))"

function count_values :: "deck \<Rightarrow> (size_t \<rightharpoonup> int) \<Rightarrow> (size_t \<rightharpoonup> int) res" where
  "count_values d counts =
     (if Deck_IsEmpty d then Inr counts
      else bind_res (Deck_PickCard d) (\<lambda>cd.
        bind_res (count_card (GetValue (fst cd)) counts) (count_values (snd cd))))"
  by pat_completeness auto
termination
  by (relation "measure (\<lambda>(d, counts). length (deck_cards d))")
    (auto simp: Deck_PickCard_def Deck_IsEmpty_def split: list.splits)

declare count_values.simps [simp del]

lemma count_values_distinct:
  "distinct (map GetValue (deck_cards d)) \<Longrightarrow> (\<forall>c \<in> set (deck_cards d). counts (GetValue c) = None) \<Longrightarrow>
   count_values d counts =
     Inr (\<lambda>v. if v \<in> set (map GetValue (deck_cards d)) then Some 1 else counts v)"
proof (induction "deck_cards d" arbitrary: d counts rule: rev_induct)
  case Nil
  then show ?case by (simp add: count_values.simps Deck_IsEmpty_def)
next
  case (snoc c cs)
  have d: "deck_cards d = cs @ [c]" using snoc.hyps(2) by simp
  let ?d = "d\<lparr>deck_cards := cs\<rparr>" and ?counts = "counts(GetValue c \<mapsto> 1)"
  have new: "counts (GetValue c) = None" using snoc.prems(2) by (simp add: d)
  have apart: "GetValue c \<notin> GetValue ` set cs" using snoc.prems(1) by (simp add: d)
  have "count_values d counts = count_values ?d ?counts"
    by (subst count_values.simps)
      (simp add: Deck_PickCard_snoc [OF d] Deck_IsEmpty_def d count_card_def new umap_assign_def)
  also have "\<dots> = Inr (\<lambda>v. if v \<in> set (map GetValue cs) then Some 1 else ?counts v)"
    using snoc.hyps(1) [of ?d ?counts] snoc.prems apart by (fastforce simp: d image_iff)
  finally show ?case by (auto simp: d fun_eq_iff)
qed

text \<open>The deck of \<open>n\<close> cards gives \<open>n\<close> counters, one for each value, and each of them is 1.\<close>

definition DeckTest_counts :: "nat \<Rightarrow> (card list \<Rightarrow> card list) \<Rightarrow> size_t \<Rightarrow> (size_t \<rightharpoonup> int) res" where
  "DeckTest_counts m shuf n = bind_res (Deck_Build m shuf n) (\<lambda>d. count_values d Map.empty)"

lemma card_values: "card {1..(n :: size_t)} = unat n"
proof -
  have "card (set (map GetValue (Build_cards n))) = length (map GetValue (Build_cards n))"
    using distinct_Build_values by (rule distinct_card)
  then show ?thesis by (simp add: set_Build_values del: set_map)
qed

lemma DeckTest_counts_eq:
  assumes "n \<noteq> - 1" and "unat n \<le> m"
  shows "DeckTest_counts m (std_shuffle draws) n = Inr (\<lambda>v. if v \<in> {1..n} then Some 1 else None)"
proof -
  obtain d where d: "Deck_Build m (std_shuffle draws) n = Inr d"
    using assms by (simp add: Deck_Build_eq)
  show ?thesis
    using count_values_distinct [of d Map.empty] fy.Build_contents [OF d]
    by (simp add: DeckTest_counts_def d del: set_map)
qed

definition DeckTest_AddPickCard :: "nat \<Rightarrow> (card list \<Rightarrow> card list) \<Rightarrow> bool res" where
  "DeckTest_AddPickCard m shuf = bind_res (DeckTest_counts m shuf 100)
     (\<lambda>counts. Inr (card (dom counts) = 100 \<and> (\<forall>k \<in> ran counts. k = 1)))"

corollary DeckTest_AddPickCard_test:
  assumes "100 \<le> m"
  shows "DeckTest_AddPickCard m (std_shuffle draws) = Inr True"
proof -
  have "(100 :: size_t) \<noteq> - 1" by simp
  then have "DeckTest_counts m (std_shuffle draws) 100 =
      Inr (\<lambda>v. if v \<in> {1..100} then Some 1 else None)"
    using assms by (intro DeckTest_counts_eq) simp_all
  moreover have "(1 :: size_t) \<in> {1..100}" by simp
  then have "ran (\<lambda>v :: size_t. if v \<in> {1..100} then Some 1 else None) = {1 :: int}"
    unfolding ran_def by (auto split: if_splits)
  moreover have "dom (\<lambda>v :: size_t. if v \<in> {1..100} then Some (1 :: int) else None) = {1..100}"
    by (auto simp: dom_def)
  ultimately show ?thesis using card_values [of 100] by (simp add: DeckTest_AddPickCard_def)
qed

section \<open>A route manager that handles requests\<close>

text \<open>
  \<open>RouteManagerWithHandleRequest\<close> adds one operation to the manager. A callback writes its
  answer to a reference, so it is a function from the answer before to the answer after.
\<close>

type_synonym 'req test_callback = "'req \<Rightarrow> params option \<Rightarrow> bool \<Rightarrow> bool"

definition HandleRequest ::
  "http_method \<Rightarrow> path \<Rightarrow> 'req \<Rightarrow> bool \<Rightarrow> ('req test_callback, 'h) route_manager \<Rightarrow> bool" where
  "HandleRequest method p req answer rm =
     (case GetCallback method p rm of None \<Rightarrow> answer | Some cb \<Rightarrow> cb req None answer)"

definition RouteManagerTest_calls :: "'v verbs \<Rightarrow> ('req test_callback, 'h) builder_call list" where
  "RouteManagerTest_calls vs =
     [WithType_call RouteManagerBase_default,
      Add_call (ConvertVerbBeast_to_method vs (verb_get vs)) ''/test'' (\<lambda>req ps answer. True),
      Add_call (ConvertVerbBeast_to_method vs (verb_post vs)) ''/test_post'' (\<lambda>req ps answer. True)]"

definition RouteManagerTest_manager :: "'v verbs \<Rightarrow> ('req test_callback, 'h) route_manager option res" where
  "RouteManagerTest_manager vs =
     bind_res (run_builder (RouteManagerTest_calls vs) RouteManagerBuilder_new) (\<lambda>b. Inr (fst (Build b)))"

text \<open>A request sets the answer exactly when its method and path are those of a route.\<close>

lemma RouteManagerTest_answers:
  assumes "distinct_verbs vs"
  shows "\<exists>rm :: ('req test_callback, 'h) route_manager. RouteManagerTest_manager vs = Inr (Some rm) \<and>
    (\<forall>m p req answer. HandleRequest m p req answer rm =
       (answer \<or> (m, p) \<in> {(GET, ''/test''), (POST, ''/test_post'')}))"
proof -
  have post: "ConvertVerbBeast_to_method vs (verb_post vs) = POST"
    using assms by (simp add: ConvertVerb_defs distinct_verbs_def)
  let ?calls = "RouteManagerTest_calls vs :: ('req test_callback, 'h) builder_call list"
  obtain rm where rm: "run_builder ?calls RouteManagerBuilder_new = Inr \<lparr>rm_ptr = Some rm\<rparr>"
    and cb: "\<And>m p. GetCallback m p rm =
      first_of (GetCallback m p (chain_base ?calls RouteManagerBase_default))
        (map_of (http_routes (last_chain ?calls)) (m, p))"
    using run_builder_lookup [of ?calls RouteManagerBase_default]
    unfolding RouteManagerBuilder_new_def by blast
  have "GetCallback m p rm = (if (m, p) \<in> {(GET, ''/test''), (POST, ''/test_post'')}
      then Some (\<lambda>req ps answer. True) else None)" for m p
    unfolding cb RouteManagerTest_calls_def
    by (auto simp: to_method_get post first_of_def GetCallback_def RouteManagerBase_default_def)
  then show ?thesis
    by (auto simp: RouteManagerTest_manager_def rm Build_def HandleRequest_def)
qed

text \<open>The four requests of the test, whose answers start from \<open>false\<close>, and what is expected of them.\<close>

definition RouteManagerTest_requests ::
  "'req \<Rightarrow> ('req test_callback, 'h) route_manager option \<Rightarrow> bool res" where
  "RouteManagerTest_requests req ptr =
     (case ptr of
        None \<Rightarrow> Inl (Undefined Null_pointer)
      | Some rm \<Rightarrow> Inr (HandleRequest GET ''/test'' req False rm \<and>
          \<not> HandleRequest UNKNOWN ''/test'' req False rm \<and> \<not> HandleRequest GET ''/'' req False rm \<and>
          HandleRequest POST ''/test_post'' req False rm))"

corollary RouteManager_test:
  assumes "distinct_verbs vs"
  shows "bind_res (RouteManagerTest_manager vs :: ('req test_callback, 'h) route_manager option res)
    (RouteManagerTest_requests req) = Inr True"
proof -
  obtain rm :: "('req test_callback, 'h) route_manager"
    where "RouteManagerTest_manager vs = Inr (Some rm)"
      and "\<forall>m p req answer. HandleRequest m p req answer rm =
        (answer \<or> (m, p) \<in> {(GET, ''/test''), (POST, ''/test_post'')})"
    using RouteManagerTest_answers [OF assms] by metis
  then show ?thesis by (simp add: RouteManagerTest_requests_def)
qed

end
