(* ===== verification/File_Server.thy ===== *)
theory File_Server
  imports Http_Session
begin

text \<open>
  The reference server's answers: \<open>mime_type\<close>, \<open>path_cat\<close>, \<open>handle_request\<close> and \<open>fail\<close> of
  \<open>networking/.boostbeast.cpp\<close>. An answer depends on the request, the document root and on
  what the file system says when one file is opened.
\<close>

section \<open>What the code calls\<close>

text \<open>
  The verbs with \<open>verb::head\<close>, \<open>beast::iequals\<close>, whether \<open>BOOST_MSVC\<close> is defined, the file
  system (an error code or an opened file, \<open>'f\<close>, with its size), the test for
  \<open>no_such_file_or_directory\<close>, the messages of error codes, Beast's version string, the
  payload headers and the test for an upgrade.
\<close>

record ('v, 'f) file_lib =
  fl_verbs :: "'v verbs"
  fl_head :: 'v
  fl_iequals :: "string \<Rightarrow> string \<Rightarrow> bool"
  fl_msvc :: bool
  fl_open :: "string \<Rightarrow> nat + 'f"
  fl_size :: "'f \<Rightarrow> nat"
  fl_no_such_file :: "nat \<Rightarrow> bool"
  fl_message :: "nat \<Rightarrow> string"
  fl_beast_version :: string
  fl_prepare :: "response \<Rightarrow> response"
  fl_upgrade :: "'v request \<Rightarrow> bool"

text \<open>\<open>beast::iequals\<close> compares without regard to the case of ASCII letters.\<close>

definition ascii_tolower :: "char \<Rightarrow> char" where
  "ascii_tolower c = (if 65 \<le> (of_char c :: nat) \<and> (of_char c :: nat) \<le> 90
     then char_of ((of_char c :: nat) + 32) else c)"

locale ascii_iequals =
  fixes iequals :: "string \<Rightarrow> string \<Rightarrow> bool"
  assumes iequals_iff: "iequals s t \<longleftrightarrow> map ascii_tolower s = map ascii_tolower t"
begin

lemma iequals_lower: "map ascii_tolower t = t \<Longrightarrow> iequals s t \<longleftrightarrow> map ascii_tolower s = t"
  by (simp add: iequals_iff)

end

definition lowercase_equal :: "string \<Rightarrow> string \<Rightarrow> bool" where
  "lowercase_equal s t \<longleftrightarrow> map ascii_tolower s = map ascii_tolower t"

interpretation lowercase: ascii_iequals lowercase_equal
  by unfold_locales (simp add: lowercase_equal_def)

text \<open>
  \<open>prepare_payload\<close> sets headers that describe the body; the rest of the message is as before.
\<close>

locale payload_headers =
  fixes prepare :: "response \<Rightarrow> response"
  assumes prepare_status: "rs_status (prepare r) = rs_status r"
    and prepare_version: "rs_version (prepare r) = rs_version r"
    and prepare_keep_alive: "rs_keep_alive (prepare r) = rs_keep_alive r"
    and prepare_body: "rs_body (prepare r) = rs_body r"
begin

lemmas prepare_keeps = prepare_status prepare_version prepare_keep_alive prepare_body

end

definition set_content_length :: "response \<Rightarrow> response" where
  "set_content_length r =
     r\<lparr>rs_fields := (rs_fields r)(''Content-Length'' \<mapsto> std_to_string (length (rs_body r)))\<rparr>"

interpretation content_length: payload_headers set_content_length
  by unfold_locales (simp_all add: set_content_length_def)

section \<open>The type of a file\<close>

definition file_extension :: "string \<Rightarrow> string" where
  "file_extension path =
     (case sv_rfind (CHR ''.'') path of None \<Rightarrow> '''' | Some pos \<Rightarrow> drop pos path)"

definition mime_type :: "(string \<Rightarrow> string \<Rightarrow> bool) \<Rightarrow> string \<Rightarrow> string" where
  "mime_type iequals path =
     (let ext = file_extension path in
      if iequals ext ''.htm'' then ''text/html'' else
      if iequals ext ''.html'' then ''text/html'' else
      if iequals ext ''.php'' then ''text/html'' else
      if iequals ext ''.css'' then ''text/css'' else
      if iequals ext ''.txt'' then ''text/plain'' else
      if iequals ext ''.js'' then ''application/javascript'' else
      if iequals ext ''.json'' then ''application/json'' else
      if iequals ext ''.xml'' then ''application/xml'' else
      if iequals ext ''.swf'' then ''application/x-shockwave-flash'' else
      if iequals ext ''.flv'' then ''video/x-flv'' else
      if iequals ext ''.png'' then ''image/png'' else
      if iequals ext ''.jpe'' then ''image/jpeg'' else
      if iequals ext ''.jpeg'' then ''image/jpeg'' else
      if iequals ext ''.jpg'' then ''image/jpeg'' else
      if iequals ext ''.gif'' then ''image/gif'' else
      if iequals ext ''.bmp'' then ''image/bmp'' else
      if iequals ext ''.ico'' then ''image/vnd.microsoft.icon'' else
      if iequals ext ''.tiff'' then ''image/tiff'' else
      if iequals ext ''.tif'' then ''image/tiff'' else
      if iequals ext ''.svg'' then ''image/svg+xml'' else
      if iequals ext ''.svgz'' then ''image/svg+xml'' else
      ''application/text'')"

text \<open>The same as a table.\<close>

definition mime_table :: "(string \<times> string) list" where
  "mime_table =
  [(''.htm'', ''text/html''),
   (''.html'', ''text/html''),
   (''.php'', ''text/html''),
   (''.css'', ''text/css''),
   (''.txt'', ''text/plain''),
   (''.js'', ''application/javascript''),
   (''.json'', ''application/json''),
   (''.xml'', ''application/xml''),
   (''.swf'', ''application/x-shockwave-flash''),
   (''.flv'', ''video/x-flv''),
   (''.png'', ''image/png''),
   (''.jpe'', ''image/jpeg''),
   (''.jpeg'', ''image/jpeg''),
   (''.jpg'', ''image/jpeg''),
   (''.gif'', ''image/gif''),
   (''.bmp'', ''image/bmp''),
   (''.ico'', ''image/vnd.microsoft.icon''),
   (''.tiff'', ''image/tiff''),
   (''.tif'', ''image/tiff''),
   (''.svg'', ''image/svg+xml''),
   (''.svgz'', ''image/svg+xml'')]"

lemma mime_table_lower: "\<forall>e \<in> set (map fst mime_table). map ascii_tolower e = e"
  by (simp add: mime_table_def ascii_tolower_def)

lemma foldr_lookup: "foldr (\<lambda>(e, t) r. if x = e then t else r) table d =
    (case map_of table x of Some t \<Rightarrow> t | None \<Rightarrow> d)"
  by (induction table) auto

lemma mime_type_eq_table:
  assumes "ascii_iequals iequals"
  shows "mime_type iequals path =
    (case map_of mime_table (map ascii_tolower (file_extension path)) of
       Some t \<Rightarrow> t | None \<Rightarrow> ''application/text'')"
proof -
  define ext where "ext = map ascii_tolower (file_extension path)"
  have eq: "iequals (file_extension path) e \<longleftrightarrow> ext = e" if "(e, t) \<in> set mime_table" for e t
    unfolding ext_def
    by (rule ascii_iequals.iequals_lower [OF assms]) (use mime_table_lower that in force)
  have "mime_type iequals path = foldr (\<lambda>(e, t) r. if iequals (file_extension path) e then t else r)
      mime_table ''application/text''"
    by (simp add: mime_type_def mime_table_def Let_def)
  also have "\<dots> = foldr (\<lambda>(e, t) r. if ext = e then t else r) mime_table ''application/text''"
    by (intro foldr_cong refl) (clarsimp simp: eq)
  also have "\<dots> = (case map_of mime_table ext of Some t \<Rightarrow> t | None \<Rightarrow> ''application/text'')"
    by (rule foldr_lookup)
  finally show ?thesis by (simp add: ext_def)
qed

text \<open>Only the name of a file counts, not the directories it is in.\<close>

definition name_extension :: "string \<Rightarrow> string" where
  "name_extension name = rev (takeWhile (\<lambda>c. c \<noteq> CHR ''.'') (rev name))"

lemma file_extension_dot: "CHR ''.'' \<notin> set e \<Longrightarrow> file_extension (p @ CHR ''.'' # e) = CHR ''.'' # e"
  by (simp add: file_extension_def sv_rfind_append)

lemma file_extension_none: "CHR ''.'' \<notin> set p \<Longrightarrow> file_extension p = ''''"
  by (simp add: file_extension_def iffD2 [OF sv_rfind_None_iff])

lemma file_extension_slash:
  assumes "CHR ''.'' \<notin> set name"
  shows "file_extension (dir @ CHR ''/'' # name) = '''' \<or> CHR ''/'' \<in> set (file_extension (dir @ CHR ''/'' # name))"
proof (cases "CHR ''.'' \<in> set dir")
  case True
  then obtain as bs where "dir = as @ CHR ''.'' # bs" and "CHR ''.'' \<notin> set bs"
    by (metis split_list_last)
  then show ?thesis
    using assms file_extension_dot [of "bs @ CHR ''/'' # name" as] by simp
next
  case False
  with assms show ?thesis by (intro disjI1 file_extension_none) auto
qed

lemma tolower_slash: "ascii_tolower c = CHR ''/'' \<Longrightarrow> c = CHR ''/''"
proof -
  assume eq: "ascii_tolower c = CHR ''/''"
  show ?thesis
  proof (cases "65 \<le> (of_char c :: nat) \<and> (of_char c :: nat) \<le> 90")
    case True
    then have "(of_char (ascii_tolower c) :: nat) = of_char c + 32"
      by (simp add: ascii_tolower_def)
    moreover have "(of_char (CHR ''/'') :: nat) = 47" by simp
    ultimately show ?thesis using eq True by simp
  next
    case False
    with eq show ?thesis by (simp add: ascii_tolower_def split: if_splits)
  qed
qed

lemma tolower_of_slash: "ascii_tolower (CHR ''/'') = CHR ''/''"
  by (simp add: ascii_tolower_def)

lemma mime_table_no_slash: "map_of mime_table e = Some t \<Longrightarrow> CHR ''/'' \<notin> set e"
  by (auto simp: mime_table_def split: if_splits)

section \<open>The path of a file\<close>

definition path_cat :: "bool \<Rightarrow> string \<Rightarrow> string \<Rightarrow> string" where
  "path_cat msvc base path =
     (if base = '''' then path
      else let path_separator = (if msvc then CHR 0x5C else CHR ''/'');
               result = (if last base = path_separator then butlast base else base);
               result = result @ path
           in if msvc then map (\<lambda>c. if c = CHR ''/'' then path_separator else c) result
              else result)"

section \<open>Answering a request\<close>

text \<open>
  A \<open>message_generator\<close> of a response with a string body, with an empty body or with an opened
  file as its body (the \<open>response\<close> then holds the status and the header).
\<close>

datatype 'f message =
    String_message (msg_head: response)
  | Empty_message (msg_head: response)
  | File_message (msg_head: response) (msg_file: 'f)

definition status_bad_request :: nat where "status_bad_request = 400"
definition status_internal_server_error :: nat where "status_internal_server_error = 500"

text \<open>The part the five responses have in common: status, version, two fields, keep-alive.\<close>

definition new_response :: "('v, 'f) file_lib \<Rightarrow> 'v request \<Rightarrow> nat \<Rightarrow> string \<Rightarrow> response" where
  "new_response lib request status content_type = \<lparr>rs_status = status, rs_version = rq_version request,
     rs_keep_alive = rq_keep_alive request,
     rs_fields = [''Server'' \<mapsto> fl_beast_version lib, ''Content-Type'' \<mapsto> content_type], rs_body = ''''\<rparr>"

definition make_bad_request_response ::
  "('v, 'f) file_lib \<Rightarrow> 'v request \<Rightarrow> string \<Rightarrow> 'f message" where
  "make_bad_request_response lib request reason = String_message (fl_prepare lib
     ((new_response lib request status_bad_request ''text/html'')\<lparr>rs_body := reason\<rparr>))"

definition make_not_found_response ::
  "('v, 'f) file_lib \<Rightarrow> 'v request \<Rightarrow> string \<Rightarrow> 'f message" where
  "make_not_found_response lib request target = String_message (fl_prepare lib
     ((new_response lib request status_not_found ''text/html'')
       \<lparr>rs_body := ''The resource '' @ [CHR 0x27] @ target @ [CHR 0x27] @ '' was not found.''\<rparr>))"

definition make_server_error_response ::
  "('v, 'f) file_lib \<Rightarrow> 'v request \<Rightarrow> string \<Rightarrow> 'f message" where
  "make_server_error_response lib request error = String_message (fl_prepare lib
     ((new_response lib request status_internal_server_error ''text/html'')
       \<lparr>rs_body := ''An error occurred: '' @ [CHR 0x27] @ error @ [CHR 0x27]\<rparr>))"

definition content_length_field :: "nat \<Rightarrow> response \<Rightarrow> response" where
  "content_length_field n r = r\<lparr>rs_fields := (rs_fields r)(''Content-Length'' \<mapsto> std_to_string n)\<rparr>"

definition handle_request :: "('v, 'f) file_lib \<Rightarrow> string \<Rightarrow> 'v request \<Rightarrow> 'f message" where
  "handle_request lib doc_root request =
     (let target = rq_target request in
      if rq_method request \<noteq> verb_get (fl_verbs lib) \<and> rq_method request \<noteq> fl_head lib
      then make_bad_request_response lib request ''Unknown HTTP-method''
      else if target = '''' \<or> hd target \<noteq> CHR ''/'' \<or> sv_find ''..'' target \<noteq> None
      then make_bad_request_response lib request ''Illegal request-target''
      else
        let path = path_cat (fl_msvc lib) doc_root target;
            path = (if last target = CHR ''/'' then path @ ''index.html'' else path)
        in case fl_open lib (c_str path) of
             Inl ec \<Rightarrow>
               if fl_no_such_file lib ec then make_not_found_response lib request target
               else make_server_error_response lib request (fl_message lib ec)
           | Inr file_body \<Rightarrow>
               (let file_size = fl_size lib file_body;
                    response = content_length_field file_size
                      (new_response lib request status_ok (mime_type (fl_iequals lib) path))
                in if rq_method request = fl_head lib then Empty_message response
                   else File_message response file_body))"

text \<open>What \<open>fail\<close> prints.\<close>

definition fail_line :: "(nat \<Rightarrow> string) \<Rightarrow> nat \<Rightarrow> string \<Rightarrow> string" where
  "fail_line message ec what = what @ '': '' @ message ec @ [CHR 0x0A]"

lemmas handle_request_defs = handle_request_def make_bad_request_response_def
  make_not_found_response_def make_server_error_response_def new_response_def
  content_length_field_def status_ok_def status_not_found_def status_bad_request_def
  status_internal_server_error_def

section \<open>Where the files come from\<close>

text \<open>The document root without a trailing separator.\<close>

definition doc_base :: "string \<Rightarrow> string" where
  "doc_base root = (if last root = CHR ''/'' then butlast root else root)"

text \<open>The file a target names below the document root.\<close>

definition file_of_target :: "string \<Rightarrow> string" where
  "file_of_target target = (if last target = CHR ''/'' then target @ ''index.html'' else target)"

definition legal_target :: "string \<Rightarrow> bool" where
  "legal_target target \<longleftrightarrow> target \<noteq> '''' \<and> hd target = CHR ''/'' \<and> sv_find ''..'' target = None"

lemma path_cat_posix: "root \<noteq> '''' \<Longrightarrow> path_cat False root target = doc_base root @ target"
  by (simp add: path_cat_def doc_base_def Let_def)

lemma no_dots_split:
  "c \<noteq> CHR ''.'' \<Longrightarrow> sv_find ''..'' (xs @ c # ys) = None \<longleftrightarrow>
     sv_find ''..'' xs = None \<and> sv_find ''..'' ys = None"
proof (induction xs)
  case Nil
  then show ?case by simp
next
  case (Cons x xs)
  then show ?case by (cases xs) auto
qed

lemma legal_file_of_target:
  assumes "legal_target target"
  shows "\<exists>rest. file_of_target target = CHR ''/'' # rest \<and> sv_find ''..'' (file_of_target target) = None"
proof -
  from assms obtain t where t: "target = CHR ''/'' # t" and dots: "sv_find ''..'' target = None"
    by (cases target) (auto simp: legal_target_def)
  show ?thesis
  proof (cases "last target = CHR ''/''")
    case True
    have eq: "target = butlast target @ [CHR ''/'']"
      using append_butlast_last_id [of target] t True by (metis list.distinct(1))
    then have "sv_find ''..'' (butlast target) = None"
      using dots sv_find_None_append by metis
    moreover have "file_of_target target = butlast target @ CHR ''/'' # ''index.html''"
      using eq True by (metis append.assoc append_Cons append_Nil file_of_target_def)
    ultimately have "sv_find ''..'' (file_of_target target) = None"
      using no_dots_split [of "CHR ''/''" "butlast target" "''index.html''"] by simp
    then show ?thesis using t True by (simp add: file_of_target_def)
  next
    case False
    then show ?thesis using t dots by (simp add: file_of_target_def)
  qed
qed

text \<open>The name that is opened: below the document root, and without two dots in a row.\<close>

lemma opened_below_root:
  assumes "CHR 0x00 \<notin> set base" and "legal_target target"
  shows "\<exists>rest. c_str (base @ file_of_target target) = base @ ''/'' @ rest \<and> sv_find ''..'' (''/'' @ rest) = None"
proof -
  obtain rest where path: "file_of_target target = CHR ''/'' # rest"
    and dots: "sv_find ''..'' (file_of_target target) = None"
    using legal_file_of_target [OF assms(2)] by blast
  have "file_of_target target = (CHR ''/'' # c_str rest) @ dropWhile (\<lambda>c. c \<noteq> CHR 0x00) rest"
    by (simp add: path c_str_def)
  then have "sv_find ''..'' (CHR ''/'' # c_str rest) = None"
    using dots sv_find_None_append by metis
  moreover have "c_str (base @ file_of_target target) = base @ CHR ''/'' # c_str rest"
    unfolding path c_str_def using assms(1) by (subst takeWhile_append2) auto
  ultimately show ?thesis by auto
qed

lemma replies_open_update [simp]:
  "make_bad_request_response (lib\<lparr>fl_open := files\<rparr>) = make_bad_request_response lib"
  "make_not_found_response (lib\<lparr>fl_open := files\<rparr>) = make_not_found_response lib"
  "make_server_error_response (lib\<lparr>fl_open := files\<rparr>) = make_server_error_response lib"
  "new_response (lib\<lparr>fl_open := files\<rparr>) = new_response lib"
  by (simp_all add: fun_eq_iff make_bad_request_response_def make_not_found_response_def
      make_server_error_response_def new_response_def)

lemma handle_request_posix:
  assumes "\<not> fl_msvc lib" and "root \<noteq> ''''"
  shows "handle_request lib root request =
    (if rq_method request \<noteq> verb_get (fl_verbs lib) \<and> rq_method request \<noteq> fl_head lib
     then make_bad_request_response lib request ''Unknown HTTP-method''
     else if \<not> legal_target (rq_target request)
     then make_bad_request_response lib request ''Illegal request-target''
     else let path = doc_base root @ file_of_target (rq_target request) in
       case fl_open lib (c_str path) of
         Inl ec \<Rightarrow>
           if fl_no_such_file lib ec then make_not_found_response lib request (rq_target request)
           else make_server_error_response lib request (fl_message lib ec)
       | Inr f \<Rightarrow>
           let h = content_length_field (fl_size lib f)
             (new_response lib request status_ok (mime_type (fl_iequals lib) path))
           in if rq_method request = fl_head lib then Empty_message h else File_message h f)"
proof -
  have path: "(if last t = CHR ''/'' then path_cat False root t @ ''index.html'' else path_cat False root t) =
      doc_base root @ file_of_target t" for t
    using assms(2) by (simp add: path_cat_posix file_of_target_def)
  have illegal: "t = '''' \<or> hd t \<noteq> CHR ''/'' \<or> sv_find ''..'' t \<noteq> None \<longleftrightarrow> \<not> legal_target t" for t
    by (auto simp: legal_target_def)
  have msvc: "fl_msvc lib = False" using assms(1) by simp
  show ?thesis
    by (simp only: handle_request_def Let_def msvc path illegal)
qed

text \<open>
  C11. Whatever a client asks for, an answer depends on the file system only through names
  below the document root without two dots in a row: two file systems that agree there
  give the same answer. (An empty document root would be the root of the file system.)
\<close>

theorem handle_request_confined:
  assumes "\<not> fl_msvc lib" and "root \<noteq> ''''" and "CHR 0x00 \<notin> set root"
    and "\<And>rest. sv_find ''..'' (''/'' @ rest) = None \<Longrightarrow>
      fl_open lib (doc_base root @ ''/'' @ rest) = files (doc_base root @ ''/'' @ rest)"
  shows "handle_request (lib\<lparr>fl_open := files\<rparr>) root request = handle_request lib root request"
proof (cases "legal_target (rq_target request)")
  case True
  have "CHR 0x00 \<notin> set (doc_base root)"
    using assms(3) by (auto simp: doc_base_def dest: in_set_butlastD)
  from opened_below_root [OF this True] assms(4)
  have "fl_open lib (c_str (doc_base root @ file_of_target (rq_target request))) =
      files (c_str (doc_base root @ file_of_target (rq_target request)))" by auto
  then show ?thesis
    using assms(1,2)
    by (simp add: handle_request_posix Let_def cong: sum.case_cong if_cong)
next
  case False
  then show ?thesis using assms(1,2) by (simp add: handle_request_posix)
qed

section \<open>A file system to instantiate the parameters\<close>

definition sample_files :: "(nat, nat) file_lib" where
  "sample_files = \<lparr>fl_verbs = numbered_verbs, fl_head = 3, fl_iequals = lowercase_equal,
     fl_msvc = False,
     fl_open = (\<lambda>p. if p = ''www/index.html'' then Inr 40 else if p = ''www/img/a.PNG'' then Inr 7
       else if p = ''/etc/passwd'' then Inr 9 else Inl 2),
     fl_size = (\<lambda>f. f), fl_no_such_file = (\<lambda>ec. ec = 2), fl_message = (\<lambda>ec. ''error''),
     fl_beast_version = ''Beast'', fl_prepare = set_content_length,
     fl_upgrade = (\<lambda>req. rq_fields req ''Upgrade'' \<noteq> None)\<rparr>"

lemmas sample_files_defs = sample_files_def numbered_verbs_def sample_request_def

lemma sample_files_laws: "ascii_iequals (fl_iequals sample_files)" "payload_headers (fl_prepare sample_files)"
  by (simp_all add: sample_files_def lowercase.ascii_iequals_axioms content_length.payload_headers_axioms)

theorem handle_request_confined_witness:
  "handle_request (sample_files\<lparr>fl_open := (\<lambda>p. if p = ''/etc/passwd'' then Inl 13 else fl_open sample_files p)\<rparr>)
     ''www/'' (sample_request ''/img/a.PNG'' True) =
   handle_request sample_files ''www/'' (sample_request ''/img/a.PNG'' True)"
  by (rule handle_request_confined) (simp_all add: sample_files_def doc_base_def)

section \<open>What a client gets\<close>

text \<open>The type of a file by its name.\<close>

definition type_of_name :: "string \<Rightarrow> string" where
  "type_of_name name =
     (if CHR ''.'' \<in> set name
      then case map_of mime_table (CHR ''.'' # map ascii_tolower (name_extension name)) of
        Some t \<Rightarrow> t | None \<Rightarrow> ''application/text''
      else ''application/text'')"

lemma name_extension_dot: "CHR ''.'' \<notin> set e \<Longrightarrow> name_extension (p @ CHR ''.'' # e) = e"
proof -
  assume "CHR ''.'' \<notin> set e"
  then have "takeWhile (\<lambda>c. c \<noteq> CHR ''.'') (rev e) = rev e" by (subst takeWhile_eq_all_conv) auto
  then have "name_extension e = e" unfolding name_extension_def by (metis rev_rev_ident)
  then show ?thesis by (simp add: name_extension_def takeWhile_tail)
qed

lemma sample_types: "type_of_name ''a.PNG'' = ''image/png''" "type_of_name ''README'' = ''application/text''"
  by code_simp+

lemma tolower_dot: "ascii_tolower (CHR ''.'') = CHR ''.''"
  by (simp add: ascii_tolower_def)

text \<open>
  The type of a file is looked up by what follows the last dot of its name, in any case
  of letters; a name without a dot, or with an extension that is not in the table, has the
  type \<open>application/text\<close>, whatever dots the directories of its path contain.
\<close>

lemma mime_type_of_path:
  assumes "ascii_iequals iequals" and "CHR ''/'' \<notin> set name"
  shows "mime_type iequals (dir @ ''/'' @ name) = type_of_name name"
proof (cases "CHR ''.'' \<in> set name")
  case True
  then obtain as bs where name: "name = as @ CHR ''.'' # bs" and bs: "CHR ''.'' \<notin> set bs"
    by (metis split_list_last)
  have "file_extension (dir @ ''/'' @ name) = CHR ''.'' # bs"
    using file_extension_dot [OF bs, of "dir @ CHR ''/'' # as"] by (simp add: name)
  then show ?thesis
    using True bs by (simp add: mime_type_eq_table [OF assms(1)] type_of_name_def name
        name_extension_dot tolower_dot)
next
  case False
  let ?e = "file_extension (dir @ CHR ''/'' # name)"
  have "map_of mime_table (map ascii_tolower ?e) = None"
  proof (cases "?e = ''''")
    case True
    then show ?thesis by (simp add: mime_table_def)
  next
    case nonempty: False
    with file_extension_slash [OF False, of dir] have "CHR ''/'' \<in> set ?e" by simp
    then have "CHR ''/'' \<in> set (map ascii_tolower ?e)"
      using tolower_of_slash by (metis image_eqI list.set_map)
    then show ?thesis using mime_table_no_slash by fastforce
  qed
  with False show ?thesis by (simp add: mime_type_eq_table [OF assms(1)] type_of_name_def)
qed

lemma mime_type_examples:
  "mime_type lowercase_equal ''site.js/img/a.PNG'' = ''image/png'' \<and>
   mime_type lowercase_equal ''site.js/README'' = ''application/text''"
  using mime_type_of_path [OF lowercase.ascii_iequals_axioms, of "''a.PNG''" "''site.js/img''"]
    mime_type_of_path [OF lowercase.ascii_iequals_axioms, of "''README''" "''site.js''"]
  by (simp add: sample_types)

text \<open>
  C27. A GET of an existing file is answered with that file: 200, the type by the file's name
  (\<open>index.html\<close> for a directory), its size as the content length, and the request's
  version and keep-alive.
\<close>

theorem handle_request_get:
  assumes "\<not> fl_msvc lib" and "ascii_iequals (fl_iequals lib)" and "root \<noteq> ''''"
    and "rq_method request = verb_get (fl_verbs lib)" and "fl_head lib \<noteq> verb_get (fl_verbs lib)"
    and "rq_target request = dir @ ''/'' @ name" and "CHR ''/'' \<notin> set name"
    and "hd (rq_target request) = CHR ''/''" and "sv_find ''..'' (rq_target request) = None"
    and "CHR 0x00 \<notin> set root" and "CHR 0x00 \<notin> set (rq_target request)"
    and "served = (if name = '''' then ''index.html'' else name)"
    and "path = doc_base root @ dir @ ''/'' @ served" and "fl_open lib path = Inr f"
  shows "\<exists>h. handle_request lib root request = File_message h f \<and> rs_status h = 200 \<and>
    rs_fields h ''Content-Type'' = Some (type_of_name served) \<and>
    rs_fields h ''Content-Length'' = Some (std_to_string (fl_size lib f)) \<and>
    rs_version h = rq_version request \<and> rs_keep_alive h = rq_keep_alive request"
proof -
  have "last (dir @ ''/'' @ name) = CHR ''/'' \<longleftrightarrow> name = ''''"
    using assms(7) by (cases name rule: rev_cases) auto
  then have "file_of_target (rq_target request) = dir @ ''/'' @ served"
    by (simp add: file_of_target_def assms(6,12))
  then have path: "doc_base root @ file_of_target (rq_target request) = path"
    by (simp add: assms(13))
  have "CHR 0x00 \<notin> set path"
    using assms(6,10,11) by (auto simp: assms(12,13) doc_base_def dest: in_set_butlastD)
  then have "c_str path = path" unfolding c_str_def by (subst takeWhile_eq_all_conv) auto
  then have opened: "fl_open lib (c_str path) = Inr f" using assms(14) by simp
  have "CHR ''/'' \<notin> set served" using assms(7) by (simp add: assms(12))
  then have "mime_type (fl_iequals lib) path = type_of_name served"
    using mime_type_of_path [OF assms(2), of served "doc_base root @ dir"] by (simp add: assms(13))
  moreover have "legal_target (rq_target request)"
    using assms(6,8,9) by (simp add: legal_target_def)
  ultimately show ?thesis
    using assms(4,5)
    by (simp add: handle_request_posix [OF assms(1,3)] Let_def path opened content_length_field_def
        new_response_def status_ok_def)
qed

theorem handle_request_get_witness:
  "\<exists>h. handle_request sample_files ''www/'' (sample_request ''/img/a.PNG'' True) = File_message h 7 \<and>
     rs_fields h ''Content-Type'' = Some ''image/png''"
  using handle_request_get [of sample_files "''www/''" "sample_request ''/img/a.PNG'' True" "''/img''"
      "''a.PNG''" "''a.PNG''" "''www/img/a.PNG''" 7]
  by (simp add: sample_files_defs lowercase.ascii_iequals_axioms doc_base_def sample_types) blast

text \<open>
  C28. A HEAD request is answered with the header of the same GET request, and without the
  file; but an error is answered with the whole GET answer, body included.
\<close>

theorem handle_request_head:
  assumes "fl_head lib \<noteq> verb_get (fl_verbs lib)"
  shows "handle_request lib root (request\<lparr>rq_method := fl_head lib\<rparr>) =
    (case handle_request lib root (request\<lparr>rq_method := verb_get (fl_verbs lib)\<rparr>) of
       File_message h f \<Rightarrow> Empty_message h | m \<Rightarrow> m)"
proof -
  have same: "make_bad_request_response lib (request\<lparr>rq_method := v\<rparr>) = make_bad_request_response lib request"
    "make_not_found_response lib (request\<lparr>rq_method := v\<rparr>) = make_not_found_response lib request"
    "make_server_error_response lib (request\<lparr>rq_method := v\<rparr>) = make_server_error_response lib request"
    "new_response lib (request\<lparr>rq_method := v\<rparr>) = new_response lib request" for v
    by (simp_all add: fun_eq_iff make_bad_request_response_def make_not_found_response_def
        make_server_error_response_def new_response_def)
  show ?thesis
    using assms
    by (simp add: handle_request_def Let_def same split: sum.split)
      (simp add: make_bad_request_response_def make_not_found_response_def
        make_server_error_response_def)
qed

theorem handle_request_head_witness:
  "handle_request sample_files ''www'' ((sample_request ''/'' True)\<lparr>rq_method := 3\<rparr>) =
     Empty_message (msg_head (handle_request sample_files ''www'' (sample_request ''/'' True))) \<and>
   rs_body (msg_head (handle_request sample_files ''www'' ((sample_request ''/nope'' True)\<lparr>rq_method := 3\<rparr>))) \<noteq> ''''"
proof -
  have get: "r\<lparr>rq_method := 2\<rparr> = r" if "r = sample_request t a" for r t a
    by (simp add: that sample_request_def)
  have "\<exists>h f. handle_request sample_files ''www'' (sample_request ''/'' True) = File_message h f"
    by (simp add: handle_request_def sample_files_defs Let_def path_cat_def c_str_def)
  moreover have "handle_request sample_files ''www'' (sample_request ''/nope'' True) =
      make_not_found_response sample_files (sample_request ''/nope'' True) ''/nope''"
    by (simp add: handle_request_def sample_files_defs Let_def path_cat_def c_str_def)
  ultimately show ?thesis
    using handle_request_head [of sample_files "''www''" "sample_request ''/'' True"]
      handle_request_head [of sample_files "''www''" "sample_request ''/nope'' True"]
    by (auto simp: sample_files_defs make_not_found_response_def set_content_length_def)
qed

lemma handle_request_keeps:
  assumes "payload_headers (fl_prepare lib)"
  shows "rs_keep_alive (msg_head (handle_request lib root request)) = rq_keep_alive request"
    and "rs_version (msg_head (handle_request lib root request)) = rq_version request"
    and "rs_status (msg_head (handle_request lib root request)) \<in> {200, 400, 404, 500}"
  using payload_headers.prepare_keeps [OF assms]
  by (simp_all add: handle_request_defs Let_def split: sum.split)

end
