(* ===== verification/Echo_Session.thy ===== *)
theory Echo_Session
  imports Ws_Session File_Server
begin

text \<open>
  The reference server's websocket connection: \<open>websocket_session\<close> of
  \<open>networking/.boostbeast.cpp\<close>, which sends every message back. Its handlers reach nothing
  but the session, so a step acts on one record.
\<close>

section \<open>The session\<close>

text \<open>
  The buffer, the stream's settings, and the operations under way: \<open>es_accepting\<close> holds the
  request an accept was started with, \<open>es_writing\<close> the mode and bytes of each outstanding
  write, \<open>es_sent\<close> what the client was sent, \<open>es_log\<close> what was printed.
\<close>

record ('v, 'b) echo_session =
  es_buffer :: 'b
  es_timeout :: bool
  es_server_field :: "string option"
  es_text :: bool
  es_accepting :: "'v request option"
  es_reading :: nat
  es_writing :: "(bool \<times> string) list"
  es_sent :: "(bool \<times> string) list"
  es_log :: "string list"

definition websocket_session_new :: "'b flat_buffer_ops \<Rightarrow> ('v, 'b) echo_session" where
  "websocket_session_new fb = \<lparr>es_buffer = fb_empty fb, es_timeout = False, es_server_field = None,
     es_text = True, es_accepting = None, es_reading = 0, es_writing = [], es_sent = [], es_log = []\<rparr>"

definition echo_do_accept ::
  "string \<Rightarrow> 'v request \<Rightarrow> ('v, 'b) echo_session \<Rightarrow> ('v, 'b) echo_session" where
  "echo_do_accept beast_version req s = s\<lparr>es_timeout := True,
     es_server_field := Some (beast_version @ '' advanced-server''), es_accepting := Some req\<rparr>"

definition echo_do_read :: "('v, 'b) echo_session \<Rightarrow> ('v, 'b) echo_session" where
  "echo_do_read s = s\<lparr>es_reading := Suc (es_reading s)\<rparr>"

text \<open>\<open>message\<close> gives the text of an error code.\<close>

definition echo_fail ::
  "(nat \<Rightarrow> string) \<Rightarrow> nat \<Rightarrow> string \<Rightarrow> ('v, 'b) echo_session \<Rightarrow> ('v, 'b) echo_session" where
  "echo_fail message ec what s = s\<lparr>es_log := es_log s @ [fail_line message ec what]\<rparr>"

definition echo_on_accept ::
  "(nat \<Rightarrow> string) \<Rightarrow> nat option \<Rightarrow> ('v, 'b) echo_session \<Rightarrow> ('v, 'b) echo_session" where
  "echo_on_accept message ec s =
     (case ec of Some e \<Rightarrow> echo_fail message e ''accept'' s | None \<Rightarrow> echo_do_read s)"

text \<open>
  What a read ends with: a message, \<open>websocket::error::closed\<close>, or another error, which
  leaves the bytes that had arrived of a message in the buffer. \<open>got_text\<close> is what the stream
  says of the message it read last.
\<close>

datatype echo_read =
    Echo_message (echo_bytes: string) (echo_text: bool)
  | Echo_closed
  | Echo_failed nat (echo_bytes: string) (echo_text: bool)

text \<open>After a failed read \<open>on_read\<close> prints the error and goes on.\<close>

definition echo_on_read ::
  "'b flat_buffer_ops \<Rightarrow> (nat \<Rightarrow> string) \<Rightarrow> echo_read \<Rightarrow> ('v, 'b) echo_session \<Rightarrow> ('v, 'b) echo_session" where
  "echo_on_read fb message result s =
     (let echo = (\<lambda>got_text s. s\<lparr>es_text := got_text,
            es_writing := es_writing s @ [(got_text, fb_data fb (es_buffer s))]\<rparr>)
      in case result of
           Echo_closed \<Rightarrow> s
         | Echo_failed e bytes got_text \<Rightarrow> echo got_text (echo_fail message e ''read'' s)
         | Echo_message bytes got_text \<Rightarrow> echo got_text s)"

definition echo_on_write ::
  "'b flat_buffer_ops \<Rightarrow> (nat \<Rightarrow> string) \<Rightarrow> nat option \<Rightarrow> ('v, 'b) echo_session \<Rightarrow> ('v, 'b) echo_session" where
  "echo_on_write fb message ec s =
     (case ec of
        Some e \<Rightarrow> echo_fail message e ''write'' s
      | None \<Rightarrow> echo_do_read
          (s\<lparr>es_buffer := fb_consume fb (length (fb_data fb (es_buffer s))) (es_buffer s)\<rparr>))"

lemmas echo_defs = echo_do_accept_def echo_do_read_def echo_fail_def echo_on_accept_def
  echo_on_read_def echo_on_write_def websocket_session_new_def

section \<open>Steps\<close>

text \<open>
  The accept, a read or the oldest write completes. A read has appended its bytes to the
  buffer, a successful write has put its bytes on the wire.
\<close>

datatype echo_event = Echo_accepted "nat option" | Echo_read echo_read | Echo_wrote "nat option"

fun arrived :: "'b flat_buffer_ops \<Rightarrow> echo_read \<Rightarrow> 'b \<Rightarrow> 'b" where
  "arrived fb Echo_closed b = b"
| "arrived fb (Echo_message bytes t) b = fb_append fb bytes b"
| "arrived fb (Echo_failed e bytes t) b = fb_append fb bytes b"

inductive echo_step ::
  "'b flat_buffer_ops \<Rightarrow> (nat \<Rightarrow> string) \<Rightarrow>
     ('v, 'b) echo_session \<Rightarrow> echo_event \<Rightarrow> ('v, 'b) echo_session \<Rightarrow> bool"
  for fb message where
  echo_accepted: "es_accepting s = Some req \<Longrightarrow>
     echo_step fb message s (Echo_accepted ec) (echo_on_accept message ec (s\<lparr>es_accepting := None\<rparr>))"
| echo_read: "es_reading s = Suc n \<Longrightarrow>
     echo_step fb message s (Echo_read result) (echo_on_read fb message result
       (s\<lparr>es_reading := n, es_buffer := arrived fb result (es_buffer s)\<rparr>))"
| echo_wrote: "es_writing s = m # ms \<Longrightarrow>
     echo_step fb message s (Echo_wrote ec) (echo_on_write fb message ec
       (s\<lparr>es_writing := ms, es_sent := es_sent s @ (if ec = None then [m] else [])\<rparr>))"

inductive_simps echo_accepted_iff: "echo_step fb message s (Echo_accepted ec) t"
inductive_simps echo_read_iff: "echo_step fb message s (Echo_read result) t"
inductive_simps echo_wrote_iff: "echo_step fb message s (Echo_wrote ec) t"

section \<open>What is sent back\<close>

text \<open>
  The messages a run receives; a failed read counts with the bytes it left, which is what
  the code makes of it.
\<close>

fun echoes :: "echo_event list \<Rightarrow> (bool \<times> string) list" where
  "echoes [] = []"
| "echoes (Echo_read (Echo_message bytes t) # es) = (t, bytes) # echoes es"
| "echoes (Echo_read (Echo_failed e bytes t) # es) = (t, bytes) # echoes es"
| "echoes (_ # es) = echoes es"

lemma echoes_append: "echoes (es @ fs) = echoes es @ echoes fs"
  by (induction es rule: echoes.induct) simp_all

definition operations :: "('v, 'b) echo_session \<Rightarrow> nat" where
  "operations s = (if es_accepting s = None then 0 else 1) + es_reading s + length (es_writing s)"

text \<open>The session accepts, reads, writes or has ended; \<open>lost\<close> is a write that failed.\<close>

definition echo_inv :: "'b flat_buffer_ops \<Rightarrow> echo_event list \<Rightarrow> ('v, 'b) echo_session \<Rightarrow> bool" where
  "echo_inv fb es s \<longleftrightarrow> operations s \<le> 1 \<and>
     (if es_writing s \<noteq> []
      then echoes es = es_sent s @ es_writing s \<and> fb_data fb (es_buffer s) = snd (hd (es_writing s))
      else if operations s = 1 then echoes es = es_sent s \<and> fb_data fb (es_buffer s) = ''''
      else echoes es = es_sent s \<or> (\<exists>lost. echoes es = es_sent s @ [lost]))"

lemma echo_step_inv:
  assumes "flat_buffer fb" and "echo_step fb message s e t" and "echo_inv fb es s"
  shows "echo_inv fb (es @ [e]) t"
  using assms(2)
proof (cases rule: echo_step.cases)
  case (echo_accepted req ec)
  then have "es_reading s = 0" "es_writing s = []" using assms(3)
    by (auto simp: echo_inv_def operations_def)
  then show ?thesis using assms(3) echo_accepted
    by (auto simp: echo_inv_def operations_def echo_defs echoes_append split: option.splits)
next
  case (echo_read n result)
  then have "n = 0" "es_accepting s = None" "es_writing s = []" "fb_data fb (es_buffer s) = ''''"
    "echoes es = es_sent s" using assms(3)
    by (auto simp: echo_inv_def operations_def split: if_splits)
  then show ?thesis using echo_read flat_buffer.data_append [OF assms(1)]
    by (cases result) (auto simp: echo_inv_def operations_def echo_defs echoes_append)
next
  case (echo_wrote m ms ec)
  then have "ms = []" "es_accepting s = None" "es_reading s = 0" "echoes es = es_sent s @ [m]"
    using assms(3) by (auto simp: echo_inv_def operations_def split: if_splits)
  then show ?thesis using echo_wrote flat_buffer.data_consume [OF assms(1)]
    by (cases ec) (auto simp: echo_inv_def operations_def echo_defs echoes_append)
qed

sublocale flat_buffer \<subseteq> echo: trace_invariant "echo_step fb message" "echo_inv fb" for message
  by unfold_locales (rule echo_step_inv [OF flat_buffer_axioms])

context flat_buffer begin

lemmas echo_runs_establish = echo.runs_establish

end

lemma echo_start:
  "flat_buffer fb \<Longrightarrow> echo_inv fb [] (echo_do_accept version req (websocket_session_new fb))"
  using flat_buffer.data_empty [of fb] by (simp add: echo_inv_def operations_def echo_defs)

text \<open>
  C22. From the accept on, whatever the client sends and however the operations end, at most
  one operation is outstanding, and what was sent is what was received, in order, each
  message in its mode and bytes; at most the last one is missing, and it is not when a
  read is outstanding.
\<close>

theorem echo_session_echoes:
  assumes "flat_buffer fb"
    and "runs (echo_step fb message) (echo_do_accept version req (websocket_session_new fb)) es s"
  shows "operations s \<le> 1 \<and> (\<exists>rest. echoes es = es_sent s @ rest \<and> length rest \<le> 1 \<and>
    (if es_reading s = 1 then rest = [] else es_writing s \<in> {[], rest}))"
proof -
  from flat_buffer.echo_runs_establish [OF assms echo_start [OF assms(1)]] show ?thesis
    by (auto simp: echo_inv_def operations_def split: if_splits)
qed

theorem echo_session_echoes_witness:
  "\<exists>s :: (nat, string) echo_session. runs (echo_step readable_bytes (\<lambda>ec. ''error''))
       (echo_do_accept ''Beast'' (sample_request ''/'' True) (websocket_session_new readable_bytes))
       [Echo_accepted None, Echo_read (Echo_message ''hello'' True), Echo_wrote None,
        Echo_read (Echo_message ''world'' False)] s \<and>
     operations s \<le> 1 \<and> es_sent s = [(True, ''hello'')] \<and> es_writing s = [(False, ''world'')]"
proof -
  let ?fb = readable_bytes and ?m = "\<lambda>ec. ''error''"
  let ?s0 = "echo_do_accept ''Beast'' (sample_request ''/'' True) (websocket_session_new ?fb) :: (nat, string) echo_session"
  let ?s1 = "?s0\<lparr>es_accepting := None, es_reading := 1\<rparr>"
  let ?s2 = "?s0\<lparr>es_accepting := None, es_buffer := ''hello'', es_writing := [(True, ''hello'')]\<rparr>"
  let ?s3 = "?s1\<lparr>es_sent := [(True, ''hello'')]\<rparr>"
  let ?s4 = "?s3\<lparr>es_reading := 0, es_text := False, es_buffer := ''world'', es_writing := [(False, ''world'')]\<rparr>"
  have "echo_step ?fb ?m ?s0 (Echo_accepted None) ?s1"
    by (simp add: echo_accepted_iff echo_defs)
  moreover have "echo_step ?fb ?m ?s1 (Echo_read (Echo_message ''hello'' True)) ?s2"
    by (simp add: echo_read_iff echo_defs readable_bytes_def)
  moreover have "echo_step ?fb ?m ?s2 (Echo_wrote None) ?s3"
    by (auto simp: echo_wrote_iff echo_defs readable_bytes_def)
  moreover have "echo_step ?fb ?m ?s3 (Echo_read (Echo_message ''world'' False)) ?s4"
    by (simp add: echo_read_iff echo_defs readable_bytes_def)
  ultimately have run: "runs (echo_step ?fb ?m) ?s0 [Echo_accepted None,
      Echo_read (Echo_message ''hello'' True), Echo_wrote None, Echo_read (Echo_message ''world'' False)] ?s4"
    by (simp only: runs_Cons_iff runs_Nil_iff) blast
  with echo_session_echoes [OF readable.flat_buffer_axioms run] show ?thesis
    by (intro exI [of _ ?s4]) simp
qed

text \<open>
  A read that fails is printed, but the handler does not return: it starts a write of
  whatever had arrived, although no message was received; if that write succeeds, the
  client has been sent a fragment it did not send as a message, and the session goes on.
\<close>

lemma echo_session_failed_read:
  assumes "es_reading s = Suc n" and "fb_data fb (es_buffer s) = ''''" and "flat_buffer fb"
    and "es_writing s = []"
  shows "\<exists>t u. echo_step fb message s (Echo_read (Echo_failed e fragment mode)) t \<and>
    es_log t = es_log s @ [fail_line message e ''read''] \<and> es_writing t = [(mode, fragment)] \<and>
    echo_step fb message t (Echo_wrote None) u \<and>
    es_sent u = es_sent s @ [(mode, fragment)] \<and> es_reading u = Suc n"
proof -
  have data: "fb_data fb (fb_append fb fragment (es_buffer s)) = fragment"
    using assms(2) flat_buffer.data_append [OF assms(3)] by simp
  show ?thesis
    using assms(1,4) by (simp add: echo_read_iff echo_wrote_iff echo_defs data)
qed

lemma echo_session_failed_read_witness:
  "\<exists>t u :: (nat, string) echo_session. echo_step readable_bytes (\<lambda>ec. ''error'')
      ((websocket_session_new readable_bytes)\<lparr>es_reading := 1\<rparr>) (Echo_read (Echo_failed 5 ''wor'' True)) t \<and>
     echo_step readable_bytes (\<lambda>ec. ''error'') t (Echo_wrote None) u \<and> es_sent u = [(True, ''wor'')]"
  using echo_session_failed_read [of "(websocket_session_new readable_bytes)\<lparr>es_reading := 1\<rparr> :: (nat, string) echo_session"
      0 readable_bytes "\<lambda>ec. ''error''" 5 "''wor''" True] readable.flat_buffer_axioms
  by (auto simp: websocket_session_new_def readable_bytes_def)

end
