(* ===== verification/Queue_Session.thy ===== *)
theory Queue_Session
  imports Echo_Session
begin

text \<open>
  The reference server's HTTP connection: \<open>http_session\<close> of \<open>networking/.boostbeast.cpp\<close>. It
  reads ahead of its answers, but keeps at most \<open>queue_limit\<close> of them, and writes one at a
  time: the contract that the session of \<open>networking/http\<close> lacks.
\<close>

section \<open>The session\<close>

text \<open>
  A write under way: its message, the keep-alive its handler is bound to, and whether the
  stream still had an open socket when it was started (a write on a shut down or released
  socket cannot succeed).
\<close>

datatype 'f write_op =
  Write_op (wr_message: "'f message") (wr_keep_alive: bool) (wr_open: bool)

text \<open>
  A message whose contents were moved out of the queue is \<open>None\<close>. \<open>hs_reads\<close> and \<open>hs_writes\<close>
  are the operations under way, \<open>hs_sent\<close> the messages on the wire, \<open>hs_websocket\<close> the session
  the socket was handed to.
\<close>

record ('v, 'b, 'f) queue_session =
  hs_doc_root :: string
  hs_parser :: bool
  hs_queue :: "'f message option list"
  hs_reads :: "read_op list"
  hs_writes :: "'f write_op list"
  hs_sent :: "'f message list"
  hs_shutdown :: bool
  hs_websocket :: "('v, 'b) echo_session option"
  hs_log :: "string list"

definition queue_limit :: nat where "queue_limit = 8"

definition queue_session_new :: "string \<Rightarrow> ('v, 'b, 'f) queue_session" where
  "queue_session_new doc_root = \<lparr>hs_doc_root = doc_root, hs_parser = False, hs_queue = [],
     hs_reads = [], hs_writes = [], hs_sent = [], hs_shutdown = False, hs_websocket = None, hs_log = []\<rparr>"

definition stream_open :: "('v, 'b, 'f) queue_session \<Rightarrow> bool" where
  "stream_open s \<longleftrightarrow> \<not> hs_shutdown s \<and> hs_websocket s = None"

definition queue_do_read :: "('v, 'b, 'f) queue_session \<Rightarrow> ('v, 'b, 'f) queue_session" where
  "queue_do_read s = s\<lparr>hs_parser := True, hs_reads := hs_reads s @ [Read_op 10000 30]\<rparr>"

text \<open>\<open>run\<close> dispatches the first \<open>do_read\<close>.\<close>

definition queue_run :: "('v, 'b, 'f) queue_session \<Rightarrow> ('v, 'b, 'f) queue_session" where
  "queue_run s = queue_do_read s"

definition queue_do_close :: "('v, 'b, 'f) queue_session \<Rightarrow> ('v, 'b, 'f) queue_session" where
  "queue_do_close s = s\<lparr>hs_shutdown := True\<rparr>"

definition queue_fail ::
  "(nat \<Rightarrow> string) \<Rightarrow> nat \<Rightarrow> string \<Rightarrow> ('v, 'b, 'f) queue_session \<Rightarrow> ('v, 'b, 'f) queue_session" where
  "queue_fail message ec what s = s\<lparr>hs_log := hs_log s @ [fail_line message ec what]\<rparr>"

text \<open>The front of the queue is asked for its keep-alive and moved into the write.\<close>

definition queue_do_write :: "('v, 'b, 'f) queue_session \<Rightarrow> ('v, 'b, 'f) queue_session res" where
  "queue_do_write s =
     (case hs_queue s of
        [] \<Rightarrow> Inr s
      | None # q \<Rightarrow> Inl (Undefined Null_pointer)
      | Some m # q \<Rightarrow> Inr (s\<lparr>hs_queue := None # q,
          hs_writes := hs_writes s @ [Write_op m (rs_keep_alive (msg_head m)) (stream_open s)]\<rparr>))"

definition queue_write ::
  "'f message \<Rightarrow> ('v, 'b, 'f) queue_session \<Rightarrow> ('v, 'b, 'f) queue_session res" where
  "queue_write m s =
     (let s' = s\<lparr>hs_queue := hs_queue s @ [Some m]\<rparr>
      in if length (hs_queue s') = 1 then queue_do_write s' else Inr s')"

text \<open>The result of a read. \<open>parser_->\<close> is undefined without a parser.\<close>

datatype 'v request_read = Request_read "'v request" | Stream_ended | Request_failed nat

definition queue_on_read ::
  "('v, 'f) file_lib \<Rightarrow> 'b flat_buffer_ops \<Rightarrow> 'v request_read \<Rightarrow>
     ('v, 'b, 'f) queue_session \<Rightarrow> ('v, 'b, 'f) queue_session res" where
  "queue_on_read lib fb result s =
     (case result of
        Stream_ended \<Rightarrow> Inr (queue_do_close s)
      | Request_failed e \<Rightarrow> Inr (queue_fail (fl_message lib) e ''read'' s)
      | Request_read req \<Rightarrow>
          if \<not> hs_parser s then Inl (Undefined Empty_optional)
          else if fl_upgrade lib req
          then Inr (s\<lparr>hs_websocket :=
            Some (echo_do_accept (fl_beast_version lib) req (websocket_session_new fb))\<rparr>)
          else bind_res (queue_write (handle_request lib (hs_doc_root s) req) s)
            (\<lambda>s. Inr (if length (hs_queue s) < queue_limit then queue_do_read s else s)))"

text \<open>\<open>pop\<close> on an empty queue is undefined.\<close>

definition queue_on_write ::
  "(nat \<Rightarrow> string) \<Rightarrow> bool \<Rightarrow> nat option \<Rightarrow> ('v, 'b, 'f) queue_session \<Rightarrow> ('v, 'b, 'f) queue_session res" where
  "queue_on_write message alive ec s =
     (case ec of
        Some e \<Rightarrow> Inr (queue_fail message e ''write'' s)
      | None \<Rightarrow>
          if \<not> alive then Inr (queue_do_close s)
          else
            let s = (if length (hs_queue s) = queue_limit then queue_do_read s else s)
            in case hs_queue s of
                 [] \<Rightarrow> Inl (Undefined Empty_vector)
               | _ # q \<Rightarrow> queue_do_write (s\<lparr>hs_queue := q\<rparr>))"

lemmas queue_defs = queue_session_new_def queue_do_read_def queue_run_def queue_do_close_def
  queue_fail_def queue_limit_def

section \<open>Steps\<close>

text \<open>
  A read or a write completes, or an operation of the websocket session the socket was
  handed to. A successful write has put its message on the wire.
\<close>

datatype 'v queue_event =
    Queue_read "'v request_read"
  | Queue_wrote "nat option"
  | Queue_websocket echo_event

inductive queue_step ::
  "('v, 'f) file_lib \<Rightarrow> 'b flat_buffer_ops \<Rightarrow>
     ('v, 'b, 'f) queue_session \<Rightarrow> 'v queue_event \<Rightarrow> ('v, 'b, 'f) queue_session \<Rightarrow> bool"
  for lib fb where
  queue_read: "hs_reads s = r # rs \<Longrightarrow> queue_on_read lib fb result (s\<lparr>hs_reads := rs\<rparr>) = Inr t \<Longrightarrow>
     queue_step lib fb s (Queue_read result) t"
| queue_wrote: "hs_writes s = Write_op m alive opened # ws \<Longrightarrow> ec \<noteq> None \<or> opened \<Longrightarrow>
     queue_on_write (fl_message lib) alive ec
       (s\<lparr>hs_writes := ws, hs_sent := hs_sent s @ (if ec = None then [m] else [])\<rparr>) = Inr t \<Longrightarrow>
     queue_step lib fb s (Queue_wrote ec) t"
| queue_websocket: "hs_websocket s = Some ws \<Longrightarrow> echo_step fb (fl_message lib) ws e ws' \<Longrightarrow>
     queue_step lib fb s (Queue_websocket e) (s\<lparr>hs_websocket := Some ws'\<rparr>)"

inductive_simps queue_read_iff: "queue_step lib fb s (Queue_read result) t"
inductive_simps queue_wrote_iff: "queue_step lib fb s (Queue_wrote ec) t"
inductive_simps queue_websocket_iff: "queue_step lib fb s (Queue_websocket e) t"

section \<open>What a run answers\<close>

fun requests :: "('v, 'f) file_lib \<Rightarrow> 'v queue_event list \<Rightarrow> 'v request list" where
  "requests lib [] = []"
| "requests lib (Queue_read (Request_read req) # es) =
     (if fl_upgrade lib req then requests lib es else req # requests lib es)"
| "requests lib (_ # es) = requests lib es"

lemma requests_append: "requests lib (es @ fs) = requests lib es @ requests lib fs"
  by (induction lib es rule: requests.induct) simp_all

definition answers :: "('v, 'f) file_lib \<Rightarrow> string \<Rightarrow> 'v queue_event list \<Rightarrow> 'f message list" where
  "answers lib root es = map (handle_request lib root) (requests lib es)"

text \<open>The events after which nothing more is read, and those that end the writing.\<close>

fun ends_reading :: "('v, 'f) file_lib \<Rightarrow> 'v queue_event \<Rightarrow> bool" where
  "ends_reading lib (Queue_read (Request_read req)) = fl_upgrade lib req"
| "ends_reading lib (Queue_read _) = True"
| "ends_reading lib _ = False"

fun failed_write :: "'v queue_event \<Rightarrow> bool" where
  "failed_write (Queue_wrote (Some e)) = True"
| "failed_write _ = False"

definition stays_open :: "'f message \<Rightarrow> bool" where
  "stays_open m \<longleftrightarrow> rs_keep_alive (msg_head m)"

text \<open>
  The reading side: a read is outstanding unless the queue is full or reading has ended. The
  writing side: nothing to write, one write under way, or ended (by a failed write, or by
  an answer that closes the connection).
\<close>

definition reading_inv :: "('v, 'f) file_lib \<Rightarrow> 'v queue_event list \<Rightarrow> ('v, 'b, 'f) queue_session \<Rightarrow> bool" where
  "reading_inv lib es s \<longleftrightarrow> hs_parser s \<and>
     (if list_ex (ends_reading lib) es then hs_reads s = [] \<and> length (hs_queue s) < queue_limit
      else if length (hs_queue s) = queue_limit then hs_reads s = []
      else hs_reads s = [Read_op 10000 30] \<and> length (hs_queue s) < queue_limit)"

inductive write_loop ::
  "'f message list \<Rightarrow> bool \<Rightarrow> 'f message option list \<Rightarrow> 'f write_op list \<Rightarrow> 'f message list \<Rightarrow> bool"
where
  loop_idle: "list_all stays_open sent \<Longrightarrow> write_loop sent False [] [] sent"
| loop_writing: "list_all stays_open sent \<Longrightarrow> write_loop (sent @ m # pending) False
     (None # map Some pending) [Write_op m (stays_open m) opened] sent"
| loop_failed: "list_all stays_open sent \<Longrightarrow> write_loop (sent @ m # pending) True
     (None # map Some pending) [] sent"
| loop_closed: "list_all stays_open sent \<Longrightarrow> \<not> stays_open m \<Longrightarrow> write_loop (sent @ m # pending) False
     (None # map Some pending) [] (sent @ [m])"

definition queue_inv ::
  "('v, 'f) file_lib \<Rightarrow> string \<Rightarrow> 'v queue_event list \<Rightarrow> ('v, 'b, 'f) queue_session \<Rightarrow> bool" where
  "queue_inv lib root es s \<longleftrightarrow> hs_doc_root s = root \<and> reading_inv lib es s \<and>
     (list_all stays_open (hs_sent s) \<or> hs_shutdown s) \<and>
     write_loop (answers lib root es) (list_ex failed_write es) (hs_queue s) (hs_writes s) (hs_sent s)"

section \<open>Every step returns and keeps the invariant\<close>

lemma queue_write_eq:
  "queue_write m s =
     (if hs_queue s = []
      then Inr (s\<lparr>hs_queue := [None], hs_writes := hs_writes s @ [Write_op m (stays_open m) (stream_open s)]\<rparr>)
      else Inr (s\<lparr>hs_queue := hs_queue s @ [Some m]\<rparr>))"
  by (simp add: queue_write_def queue_do_write_def Let_def stays_open_def stream_open_def)

lemma write_loop_push:
  assumes "write_loop ans failed (hs_queue s) (hs_writes s) (hs_sent s)"
  shows "\<exists>t. queue_write m s = Inr t \<and>
    write_loop (ans @ [m]) failed (hs_queue t) (hs_writes t) (hs_sent t) \<and>
    length (hs_queue t) = Suc (length (hs_queue s)) \<and> hs_reads t = hs_reads s \<and>
    hs_parser t = hs_parser s \<and> hs_doc_root t = hs_doc_root s \<and>
    hs_sent t = hs_sent s \<and> hs_shutdown t = hs_shutdown s"
  using assms
proof (cases rule: write_loop.cases)
  case loop_idle
  with loop_writing [of "hs_sent s" m "[]" "stream_open s"] show ?thesis
    by (simp add: queue_write_eq)
next
  case (loop_writing m' pending opened)
  with write_loop.loop_writing [of "hs_sent s" m' "pending @ [m]" opened] show ?thesis
    by (simp add: queue_write_eq)
next
  case (loop_failed m' pending)
  with write_loop.loop_failed [of "hs_sent s" m' "pending @ [m]"] show ?thesis
    by (simp add: queue_write_eq)
next
  case (loop_closed sent m' pending)
  with write_loop.loop_closed [of sent m' "pending @ [m]"] show ?thesis
    by (simp add: queue_write_eq)
qed

lemma reading_inv_snoc:
  assumes "hs_parser s" and "\<not> list_ex (ends_reading lib) es"
  shows "reading_inv lib (es @ [e]) s \<longleftrightarrow>
    (if ends_reading lib e then hs_reads s = [] \<and> length (hs_queue s) < queue_limit
     else if length (hs_queue s) = queue_limit then hs_reads s = []
     else hs_reads s = [Read_op 10000 30] \<and> length (hs_queue s) < queue_limit)"
  using assms by (simp add: reading_inv_def)

lemma on_read_total:
  assumes "queue_inv lib root es s" and "hs_reads s = r # rs"
  shows "\<exists>t. queue_on_read lib fb result (s\<lparr>hs_reads := rs\<rparr>) = Inr t \<and>
    queue_inv lib root (es @ [Queue_read result]) t"
proof -
  have reads: "hs_parser s" "\<not> list_ex (ends_reading lib) es" "rs = []" "length (hs_queue s) < queue_limit"
    using assms by (auto simp: queue_inv_def reading_inv_def split: if_splits)
  have loop: "write_loop (answers lib root es) (list_ex failed_write es) (hs_queue s) (hs_writes s) (hs_sent s)"
    and root: "hs_doc_root s = root" and closed: "list_all stays_open (hs_sent s) \<or> hs_shutdown s"
    using assms(1) by (simp_all add: queue_inv_def)
  show ?thesis
  proof (cases "\<exists>req. result = Request_read req \<and> \<not> fl_upgrade lib req")
    case True
    then obtain req where req: "result = Request_read req" "\<not> fl_upgrade lib req" by blast
    let ?m = "handle_request lib root req"
    obtain t where t: "queue_write ?m (s\<lparr>hs_reads := []\<rparr>) = Inr t"
      and l: "write_loop (answers lib root es @ [?m]) (list_ex failed_write es)
        (hs_queue t) (hs_writes t) (hs_sent t)" "length (hs_queue t) = Suc (length (hs_queue s))"
      and same: "hs_reads t = []" "hs_parser t" "hs_doc_root t = root"
        "hs_sent t = hs_sent s" "hs_shutdown t = hs_shutdown s"
      using write_loop_push [of "answers lib root es" "list_ex failed_write es" "s\<lparr>hs_reads := []\<rparr>" ?m]
        loop reads(1) root by auto
    let ?t = "if length (hs_queue t) < queue_limit then queue_do_read t else t"
    have "queue_on_read lib fb result (s\<lparr>hs_reads := rs\<rparr>) = Inr ?t"
      by (simp add: queue_on_read_def req reads(1,3) root t)
    moreover have "reading_inv lib (es @ [Queue_read result]) ?t"
      using reads l(2) same req
      by (subst reading_inv_snoc) (simp_all add: queue_do_read_def)
    ultimately show ?thesis using l(1) same(3-5) closed
      by (auto simp: queue_inv_def queue_do_read_def answers_def requests_append req)
  next
    case False
    then have ends: "ends_reading lib (Queue_read result)" "requests lib [Queue_read result] = []"
      by (cases result; simp)+
    obtain t where t: "queue_on_read lib fb result (s\<lparr>hs_reads := []\<rparr>) = Inr t"
      and same: "hs_queue t = hs_queue s" "hs_writes t = hs_writes s" "hs_sent t = hs_sent s"
        "hs_reads t = []" "hs_parser t" "hs_doc_root t = root" "hs_shutdown s \<longrightarrow> hs_shutdown t"
      using False reads(1) root
      by (cases result) (auto simp: queue_on_read_def queue_do_close_def queue_fail_def)
    have "reading_inv lib (es @ [Queue_read result]) t"
      using reads same ends by (subst reading_inv_snoc) simp_all
    with t same loop ends(2) closed show ?thesis
      by (auto simp: queue_inv_def reads(3) answers_def requests_append)
  qed
qed

lemma reading_inv_wrote:
  "reading_inv lib (es @ [Queue_wrote ec]) s \<longleftrightarrow> reading_inv lib es s"
  by (simp add: reading_inv_def)

text \<open>A completed write that keeps the connection: the front is popped, the next write starts.\<close>

lemma next_write:
  assumes "hs_queue s = None # map Some pending" and "hs_writes s = []"
    and "list_all stays_open (hs_sent s)"
  shows "\<exists>t. queue_do_write (s\<lparr>hs_queue := map Some pending\<rparr>) = Inr t \<and>
    write_loop (hs_sent s @ pending) False (hs_queue t) (hs_writes t) (hs_sent t) \<and>
    length (hs_queue t) = length pending \<and> hs_reads t = hs_reads s \<and>
    hs_parser t = hs_parser s \<and> hs_doc_root t = hs_doc_root s \<and> hs_sent t = hs_sent s"
proof (cases pending)
  case Nil
  with assms loop_idle [OF assms(3)] show ?thesis by (simp add: queue_do_write_def)
next
  case (Cons p ps)
  with assms loop_writing [OF assms(3), of p ps] show ?thesis
    by (simp add: queue_do_write_def stays_open_def)
qed

lemma on_write_total:
  assumes "queue_inv lib root es s" and "hs_writes s = Write_op m alive opened # ws"
  shows "\<exists>t. queue_on_write message alive ec
      (s\<lparr>hs_writes := ws, hs_sent := hs_sent s @ (if ec = None then [m] else [])\<rparr>) = Inr t \<and>
    queue_inv lib root (es @ [Queue_wrote ec]) t"
proof -
  have reading: "reading_inv lib es s" and root: "hs_doc_root s = root"
    and "write_loop (answers lib root es) (list_ex failed_write es) (hs_queue s) (hs_writes s) (hs_sent s)"
    using assms(1) by (simp_all add: queue_inv_def)
  from this(3) assms(2) obtain pending
    where q: "hs_queue s = None # map Some pending" and ws: "ws = []" and alive: "alive = stays_open m"
      and ans: "answers lib root es = hs_sent s @ m # pending" and ok: "\<not> list_ex failed_write es"
      and all: "list_all stays_open (hs_sent s)"
    by (auto elim: write_loop.cases)
  have ans': "answers lib root (es @ [Queue_wrote ec]) = hs_sent s @ m # pending"
    using ans by (simp add: answers_def requests_append)
  have "length (hs_queue s) \<le> queue_limit"
    using reading by (auto simp: reading_inv_def split: if_splits)
  then have len: "Suc (length pending) \<le> queue_limit" using q by simp
  show ?thesis
  proof (cases "ec = None \<and> alive")
    case False
    then show ?thesis
      using reading root q ws alive ans' ok all len
        loop_failed [OF all, of m pending] loop_closed [OF all, of m pending]
      by (cases ec) (auto simp: queue_on_write_def queue_fail_def queue_do_close_def queue_inv_def
          reading_inv_def)
  next
    case True
    let ?s = "s\<lparr>hs_writes := [], hs_sent := hs_sent s @ [m]\<rparr>"
    let ?r = "if length (hs_queue s) = queue_limit then queue_do_read ?s else ?s"
    have r: "hs_queue ?r = None # map Some pending" "hs_writes ?r = []" "hs_sent ?r = hs_sent s @ [m]"
      "list_all stays_open (hs_sent ?r)" "hs_doc_root ?r = root"
      using q all alive True root by (simp_all add: queue_do_read_def)
    from next_write [OF r(1,2,4)] r(3,5)
    obtain t where t: "queue_do_write (?r\<lparr>hs_queue := map Some pending\<rparr>) = Inr t"
      and loop: "write_loop (hs_sent s @ m # pending) False (hs_queue t) (hs_writes t) (hs_sent t)"
      and same: "length (hs_queue t) = length pending" "hs_reads t = hs_reads ?r"
        "hs_parser t = hs_parser ?r" "hs_doc_root t = root" "hs_sent t = hs_sent ?r" by auto
    have "queue_on_write message alive ec
        (s\<lparr>hs_writes := ws, hs_sent := hs_sent s @ (if ec = None then [m] else [])\<rparr>) = Inr t"
      using True ws q t by (simp add: queue_on_write_def Let_def queue_do_read_def split: if_splits)
    moreover have "reading_inv lib es t"
      using reading q same by (auto simp: reading_inv_def queue_do_read_def queue_limit_def split: if_splits)
    ultimately show ?thesis
      using True loop same(4) same(5) r(4) ans' ok by (simp add: queue_inv_def reading_inv_wrote)
  qed
qed

lemma queue_step_inv:
  assumes "queue_step lib fb s e t" and "queue_inv lib root es s"
  shows "queue_inv lib root (es @ [e]) t"
  using assms(1)
proof (cases rule: queue_step.cases)
  case (queue_read r rs result)
  then show ?thesis using on_read_total [OF assms(2) queue_read(2), of fb result] by simp
next
  case (queue_wrote m alive opened ws ec)
  then show ?thesis
    using on_write_total [OF assms(2) queue_wrote(2), of "fl_message lib" ec] by simp
next
  case (queue_websocket ws e' ws')
  then show ?thesis
    using assms(2) by (simp add: queue_inv_def reading_inv_def answers_def requests_append)
qed

interpretation queue: trace_invariant "queue_step lib fb" "queue_inv lib root" for lib fb root
  by unfold_locales (rule queue_step_inv)

lemma queue_start: "queue_inv lib root [] (queue_run (queue_session_new root))"
  using loop_idle [of "[]"] by (simp add: queue_inv_def reading_inv_def answers_def queue_defs)

lemma queue_reachable:
  "runs (queue_step lib fb) (queue_run (queue_session_new root)) es s \<Longrightarrow> queue_inv lib root es s"
  using queue.runs_establish queue_start by blast

section \<open>A connection to instantiate the parameters\<close>

text \<open>Two requests in one packet, the second of which closes the connection.\<close>

abbreviation page :: "nat message" where
  "page \<equiv> handle_request sample_files ''www'' (sample_request ''/'' True)"

abbreviation goodbye :: "nat message" where
  "goodbye \<equiv> handle_request sample_files ''www'' (sample_request ''/nope'' False)"

definition sample_start :: "(nat, string, nat) queue_session" where
  "sample_start = queue_run (queue_session_new ''www'')"

lemma sample_alive:
  "rs_keep_alive (msg_head (handle_request sample_files root (sample_request t a))) = a"
  by (simp add: handle_request_keeps(1) [OF sample_files_laws(2)] sample_request_def)

lemma sample_read:
  assumes "hs_reads s = [Read_op 10000 30]" and "hs_parser s" and "hs_doc_root s = ''www''"
    and "length (hs_queue s) < 7"
  shows "queue_step sample_files fb s (Queue_read (Request_read (sample_request t a)))
    (if hs_queue s = []
     then s\<lparr>hs_queue := [None], hs_writes := hs_writes s @
       [Write_op (handle_request sample_files ''www'' (sample_request t a)) a (stream_open s)]\<rparr>
     else s\<lparr>hs_queue := hs_queue s @ [Some (handle_request sample_files ''www'' (sample_request t a))]\<rparr>)"
proof -
  have "\<not> fl_upgrade sample_files (sample_request t a)" by (simp add: sample_files_def sample_request_def)
  then show ?thesis
    using assms by (simp add: queue_read_iff queue_on_read_def queue_write_eq stays_open_def sample_alive
        queue_do_read_def queue_limit_def stream_open_def)
qed

definition sample_waiting :: "(nat, string, nat) queue_session" where
  "sample_waiting = sample_start\<lparr>hs_writes := [Write_op page True True], hs_queue := [None, Some goodbye]\<rparr>"

lemma sample_start_simps [simp]:
  "hs_reads sample_start = [Read_op 10000 30]" "hs_parser sample_start" "hs_doc_root sample_start = ''www''"
  "hs_queue sample_start = []" "hs_writes sample_start = []" "hs_sent sample_start = []"
  "\<not> hs_shutdown sample_start" "hs_websocket sample_start = None" "hs_log sample_start = []"
  by (simp_all add: sample_start_def queue_defs)

lemma sample_requests_run:
  "runs (queue_step sample_files readable_bytes) sample_start
     [Queue_read (Request_read (sample_request ''/'' True)),
      Queue_read (Request_read (sample_request ''/nope'' False))] sample_waiting"
proof -
  let ?s1 = "sample_start\<lparr>hs_queue := [None], hs_writes := [Write_op page True True]\<rparr>"
  have "queue_step sample_files readable_bytes sample_start
      (Queue_read (Request_read (sample_request ''/'' True))) ?s1"
    using sample_read [of sample_start readable_bytes "''/''" True] by (simp add: stream_open_def)
  moreover have "queue_step sample_files readable_bytes ?s1
      (Queue_read (Request_read (sample_request ''/nope'' False))) sample_waiting"
    using sample_read [of ?s1 readable_bytes "''/nope''" False] by (simp add: sample_waiting_def)
  ultimately show ?thesis by (auto simp: runs_Cons_iff)
qed

definition sample_end :: "(nat, string, nat) queue_session" where
  "sample_end = sample_start\<lparr>hs_queue := [None], hs_sent := [page, goodbye], hs_shutdown := True\<rparr>"

lemma sample_writes_run:
  "runs (queue_step sample_files readable_bytes) sample_waiting [Queue_wrote None, Queue_wrote None] sample_end"
proof -
  let ?s3 = "sample_waiting\<lparr>hs_queue := [None], hs_sent := [page], hs_writes := [Write_op goodbye False True]\<rparr>"
  have "queue_step sample_files readable_bytes sample_waiting (Queue_wrote None) ?s3"
    by (auto simp: queue_wrote_iff sample_waiting_def queue_on_write_def queue_do_write_def queue_limit_def
        stream_open_def sample_alive)
  moreover have "queue_step sample_files readable_bytes ?s3 (Queue_wrote None) sample_end"
    by (auto simp: queue_wrote_iff sample_waiting_def queue_on_write_def queue_do_close_def sample_end_def)
  ultimately show ?thesis by (auto simp: runs_Cons_iff)
qed

lemma sample_run:
  "runs (queue_step sample_files readable_bytes) (queue_run (queue_session_new ''www''))
     [Queue_read (Request_read (sample_request ''/'' True)),
      Queue_read (Request_read (sample_request ''/nope'' False)), Queue_wrote None, Queue_wrote None] sample_end"
proof -
  have "runs (queue_step sample_files readable_bytes) sample_start
     ([Queue_read (Request_read (sample_request ''/'' True)),
       Queue_read (Request_read (sample_request ''/nope'' False))] @ [Queue_wrote None, Queue_wrote None]) sample_end"
    using sample_requests_run sample_writes_run by (simp only: runs_append) blast
  then show ?thesis by (simp add: sample_start_def)
qed

section \<open>What the session promises\<close>

lemma queue_inv_loop: "queue_inv lib root es s \<Longrightarrow>
    write_loop (answers lib root es) (list_ex failed_write es) (hs_queue s) (hs_writes s) (hs_sent s)"
  by (simp add: queue_inv_def)

lemma queue_inv_length: "queue_inv lib root es s \<Longrightarrow> length (hs_queue s) \<le> 8"
  by (auto simp: queue_inv_def reading_inv_def queue_limit_def split: if_splits)

lemma write_loop_bounds:
  assumes "write_loop ans failed q ws sent"
  shows "\<exists>rest. ans = sent @ rest \<and> length rest \<le> length q \<and> length ws \<le> 1 \<and>
    list_all stays_open (butlast sent) \<and>
    (ws = [] \<and> \<not> failed \<and> list_all stays_open sent \<longrightarrow> rest = [] \<and> q = [])"
  using assms by cases (auto simp: list_all_iff dest: in_set_butlastD)

text \<open>
  C9. However requests, reads and writes interleave, what is on the wire is the answers to
  the requests read so far, in order and each one whole: a prefix of them, at most eight
  behind, with nothing after an answer that closes the connection; and all of them when
  nothing is left to write and neither a failed write nor a closing answer stopped it.
\<close>

theorem queue_session_in_order:
  assumes "runs (queue_step lib fb) (queue_run (queue_session_new root)) es s"
  shows "\<exists>rest. answers lib root es = hs_sent s @ rest \<and> length rest \<le> 8 \<and>
    list_all stays_open (butlast (hs_sent s)) \<and>
    (hs_writes s = [] \<and> \<not> list_ex failed_write es \<and> list_all stays_open (hs_sent s) \<longrightarrow> rest = [])"
proof -
  note inv = queue_reachable [OF assms]
  obtain rest where "answers lib root es = hs_sent s @ rest" and "length rest \<le> length (hs_queue s)"
    and "list_all stays_open (butlast (hs_sent s))"
    and "hs_writes s = [] \<and> \<not> list_ex failed_write es \<and> list_all stays_open (hs_sent s) \<longrightarrow> rest = []"
    using write_loop_bounds [OF queue_inv_loop [OF inv]] by blast
  with queue_inv_length [OF inv] show ?thesis by auto
qed

theorem queue_session_in_order_witness:
  "map (rs_keep_alive \<circ> msg_head) (hs_sent sample_end) = [True, False] \<and>
   answers sample_files ''www''
     [Queue_read (Request_read (sample_request ''/'' True)),
      Queue_read (Request_read (sample_request ''/nope'' False)), Queue_wrote None, Queue_wrote None] =
   hs_sent sample_end"
proof -
  have "length (hs_sent sample_end) = 2" by (simp add: sample_end_def)
  moreover have "map (rs_keep_alive \<circ> msg_head) (hs_sent sample_end) = [True, False]"
    by (simp add: sample_end_def sample_alive)
  moreover have "length (answers sample_files ''www''
     [Queue_read (Request_read (sample_request ''/'' True)),
      Queue_read (Request_read (sample_request ''/nope'' False)), Queue_wrote None, Queue_wrote None]) = 2"
    by (simp add: answers_def sample_files_def sample_request_def)
  moreover obtain rest where ans: "answers sample_files ''www''
     [Queue_read (Request_read (sample_request ''/'' True)),
      Queue_read (Request_read (sample_request ''/nope'' False)), Queue_wrote None, Queue_wrote None] =
     hs_sent sample_end @ rest"
    using queue_session_in_order [OF sample_run] by blast
  ultimately have "rest = []"
    using arg_cong [OF ans, of length] by simp
  with ans \<open>map _ _ = _\<close> show ?thesis by simp
qed

text \<open>
  C20. Nothing grows without bound: at most eight answers are kept, at most one of them is
  being written, and at most one read, limited to 10000 bytes and 30 seconds, is
  outstanding, and none while the queue is full.
\<close>

theorem queue_session_bounded:
  assumes "runs (queue_step lib fb) (queue_run (queue_session_new root)) es s"
  shows "length (hs_queue s) \<le> 8 \<and> length (hs_writes s) \<le> 1 \<and>
    hs_reads s \<in> {[], [Read_op 10000 30]} \<and> \<not> (length (hs_queue s) = 8 \<and> hs_reads s \<noteq> [])"
proof -
  note inv = queue_reachable [OF assms]
  have "length (hs_writes s) \<le> 1" using write_loop_bounds [OF queue_inv_loop [OF inv]] by blast
  with inv queue_inv_length [OF inv] show ?thesis
    by (auto simp: queue_inv_def reading_inv_def queue_limit_def split: if_splits)
qed

theorem queue_session_bounded_witness:
  "hs_reads sample_end \<in> {[], [Read_op 10000 30]} \<and> length (hs_writes sample_end) \<le> 1"
  using queue_session_bounded [OF sample_run] by blast

text \<open>
  C10. No behaviour of the client and no failure makes a handler undefined: whenever an
  operation is outstanding its handler returns, however the operation ends; and the
  session comes to rest only when the client stopped sending or upgraded, when a read or a
  write failed, or after an answer that closes the connection, which is then shut down.
\<close>

theorem queue_session_progress:
  assumes "runs (queue_step lib fb) (queue_run (queue_session_new root)) es s"
  shows "(hs_reads s = [] \<or> (\<forall>result. \<exists>t. queue_step lib fb s (Queue_read result) t)) \<and>
    (hs_writes s = [] \<or> (\<exists>t. queue_step lib fb s (Queue_wrote (Some ec)) t) \<and>
       (\<not> wr_open (hd (hs_writes s)) \<or> (\<exists>t. queue_step lib fb s (Queue_wrote None) t))) \<and>
    (hs_reads s \<noteq> [] \<or> hs_writes s \<noteq> [] \<or> list_ex (ends_reading lib) es \<or> list_ex failed_write es \<or>
       (hs_sent s \<noteq> [] \<and> \<not> stays_open (last (hs_sent s)) \<and> hs_shutdown s))"
proof (intro conjI)
  note inv = queue_reachable [OF assms]
  show "hs_reads s = [] \<or> (\<forall>result. \<exists>t. queue_step lib fb s (Queue_read result) t)"
  proof (cases "hs_reads s")
    case Nil
    then show ?thesis by simp
  next
    case (Cons r rs)
    from on_read_total [OF inv this] have "\<exists>t. queue_step lib fb s (Queue_read result) t" for result
      using queue_read [OF Cons] by blast
    then show ?thesis by blast
  qed
  have wrote: "\<exists>t. queue_step lib fb s (Queue_wrote ec) t"
    if "hs_writes s \<noteq> []" "ec \<noteq> None \<or> wr_open (hd (hs_writes s))" for ec
  proof -
    obtain m alive opened ws where "hs_writes s = Write_op m alive opened # ws"
      using \<open>hs_writes s \<noteq> []\<close> by (metis list.exhaust write_op.exhaust)
    with on_write_total [OF inv this, of "fl_message lib" ec] that(2) show ?thesis
      by (auto simp: queue_wrote_iff)
  qed
  then show "hs_writes s = [] \<or> (\<exists>t. queue_step lib fb s (Queue_wrote (Some ec)) t) \<and>
       (\<not> wr_open (hd (hs_writes s)) \<or> (\<exists>t. queue_step lib fb s (Queue_wrote None) t))" by blast
  from queue_inv_loop [OF inv]
  show "hs_reads s \<noteq> [] \<or> hs_writes s \<noteq> [] \<or> list_ex (ends_reading lib) es \<or> list_ex failed_write es \<or>
       (hs_sent s \<noteq> [] \<and> \<not> stays_open (last (hs_sent s)) \<and> hs_shutdown s)"
    using inv by cases (auto simp: queue_inv_def reading_inv_def queue_limit_def split: if_splits)
qed

theorem queue_session_progress_witness:
  "\<exists>t. queue_step sample_files readable_bytes (queue_run (queue_session_new ''www'') :: (nat, string, nat) queue_session)
     (Queue_read (Request_failed 104)) t"
proof -
  have "runs (queue_step sample_files readable_bytes) (queue_run (queue_session_new ''www''))
      [] (queue_run (queue_session_new ''www'') :: (nat, string, nat) queue_session)" by simp
  from queue_session_progress [OF this] show ?thesis by (simp add: queue_defs)
qed

text \<open>
  C21. A client that asks to close is answered, and is the last to be: when the answer to a
  request without keep-alive is on the wire, the connection is shut down, and no answer to
  a later request is ever sent.
\<close>

theorem queue_session_closes:
  assumes "payload_headers (fl_prepare lib)"
    and "runs (queue_step lib fb) (queue_run (queue_session_new root)) es s"
    and "requests lib es = before @ req # later" and "\<not> rq_keep_alive req"
  shows "length (hs_sent s) \<le> Suc (length before) \<and>
    (length (hs_sent s) \<noteq> Suc (length before) \<or>
       last (hs_sent s) = handle_request lib root req \<and> hs_shutdown s)"
proof -
  note inv = queue_reachable [OF assms(2)]
  obtain rest where ans: "answers lib root es = hs_sent s @ rest"
    and open_ones: "list_all stays_open (butlast (hs_sent s))"
    using write_loop_bounds [OF queue_inv_loop [OF inv]] by blast
  have "\<not> stays_open (handle_request lib root req)"
    using handle_request_keeps(1) [OF assms(1)] assms(4) by (simp add: stays_open_def)
  moreover have nth: "answers lib root es ! length before = handle_request lib root req"
    by (simp add: answers_def assms(3) nth_append)
  ultimately have closing: "\<not> stays_open (hs_sent s ! length before)" if "length before < length (hs_sent s)"
    using that by (simp add: ans nth_append)
  have le: "length (hs_sent s) \<le> Suc (length before)"
  proof (rule ccontr)
    assume "\<not> ?thesis"
    then have "length before < length (butlast (hs_sent s))" by simp
    then have "butlast (hs_sent s) ! length before = hs_sent s ! length before"
      and "stays_open (butlast (hs_sent s) ! length before)"
      using open_ones by (simp_all add: nth_butlast list_all_length)
    with closing \<open>\<not> ?thesis\<close> show False by simp
  qed
  moreover have "last (hs_sent s) = handle_request lib root req \<and> hs_shutdown s"
    if len: "length (hs_sent s) = Suc (length before)"
  proof -
    have last: "last (hs_sent s) = hs_sent s ! length before"
      using len by (metis diff_Suc_1 last_conv_nth length_0_conv nat.distinct(1))
    then have "\<not> list_all stays_open (hs_sent s)"
      using closing len by (metis lessI list_all_length)
    then have "hs_shutdown s" using inv by (simp add: queue_inv_def)
    with last nth len show ?thesis by (simp add: ans nth_append)
  qed
  ultimately show ?thesis by blast
qed

theorem queue_session_closes_witness:
  "length (hs_sent sample_end) \<le> 2 \<and> last (hs_sent sample_end) = goodbye \<and> hs_shutdown sample_end"
proof -
  have "requests sample_files [Queue_read (Request_read (sample_request ''/'' True)),
      Queue_read (Request_read (sample_request ''/nope'' False)), Queue_wrote None, Queue_wrote None] =
      [sample_request ''/'' True] @ sample_request ''/nope'' False # []"
    by (simp add: sample_files_def sample_request_def)
  from queue_session_closes [OF sample_files_laws(2) sample_run this] show ?thesis
    by (simp add: sample_request_def sample_end_def)
qed

section \<open>All answers arrive, unless the client is in a hurry\<close>

text \<open>What a successful write of an answer that keeps the connection changes.\<close>

lemma on_write_next:
  assumes "queue_on_write message True None s = Inr t" and "hs_queue s = x # q"
  shows "length (hs_queue t) = length q \<and> hs_shutdown t = hs_shutdown s \<and>
    hs_websocket t = hs_websocket s \<and> hs_sent t = hs_sent s \<and>
    (\<exists>new. hs_writes t = hs_writes s @ new \<and> list_all (\<lambda>w. wr_open w = stream_open s) new)"
  using assms
  by (cases q)
    (auto simp: queue_on_write_def Let_def queue_do_write_def queue_do_read_def stream_open_def
      split: if_splits option.splits)

lemma drain:
  assumes "queue_inv lib root es s" and "stream_open s" and "list_all wr_open (hs_writes s)"
    and "\<not> list_ex failed_write es" and "list_all stays_open (answers lib root es)"
  shows "\<exists>t. runs (queue_step lib fb) s (replicate (length (hs_queue s)) (Queue_wrote None)) t \<and>
    hs_sent t = answers lib root es"
  using assms
proof (induction "length (hs_queue s)" arbitrary: es s)
  case 0
  then have "hs_sent s = answers lib root es"
    using queue_inv_loop [OF "0.prems"(1)] by (auto elim: write_loop.cases)
  with "0.hyps" show ?case by (intro exI [of _ s]) simp
next
  case (Suc n)
  obtain m where w: "hs_writes s = [Write_op m True True]"
    using queue_inv_loop [OF Suc.prems(1)] Suc.prems(3-5) Suc.hyps(2) by cases auto
  obtain x q where q: "hs_queue s = x # q" using Suc.hyps(2) by (cases "hs_queue s") auto
  let ?s = "s\<lparr>hs_writes := [], hs_sent := hs_sent s @ [m]\<rparr>"
  from on_write_total [OF Suc.prems(1) w, of "fl_message lib" None] obtain t
    where t: "queue_on_write (fl_message lib) True None ?s = Inr t"
      and inv: "queue_inv lib root (es @ [Queue_wrote None]) t" by auto
  have step: "queue_step lib fb s (Queue_wrote None) t"
    using queue_wrote [OF w, of None lib t fb] t by simp
  have after: "length (hs_queue t) = n" "stream_open t" "list_all wr_open (hs_writes t)"
    using on_write_next [OF t, of x q] q Suc.hyps(2) Suc.prems(2)
    by (auto simp: stream_open_def list_all_iff)
  have same: "answers lib root (es @ [Queue_wrote None]) = answers lib root es"
    by (simp add: answers_def requests_append)
  from Suc.hyps(1) [OF after(1) [symmetric] inv after(2,3)] Suc.prems(4,5) same
  obtain u where "runs (queue_step lib fb) t (replicate n (Queue_wrote None)) u"
    and "hs_sent u = answers lib root es" using after(1) by auto
  with step have "runs (queue_step lib fb) s (replicate (Suc n) (Queue_wrote None)) u"
    by (auto simp: runs_Cons_iff)
  with \<open>hs_sent u = _\<close> show ?case using Suc.hyps(2) by metis
qed

text \<open>Writes that are under way on an open stream were started on it.\<close>

definition open_writes :: "('v, 'b, 'f) queue_session \<Rightarrow> bool" where
  "open_writes s \<longleftrightarrow> list_all wr_open (hs_writes s) \<or> \<not> stream_open s"

lemma queue_do_write_frame:
  assumes "queue_do_write s = Inr t"
  shows "hs_shutdown t = hs_shutdown s \<and> hs_websocket t = hs_websocket s \<and> hs_sent t = hs_sent s \<and>
    (\<exists>new. hs_writes t = hs_writes s @ new \<and> list_all (\<lambda>w. wr_open w = stream_open s) new)"
  using assms by (auto simp: queue_do_write_def split: list.splits option.splits)

lemma queue_write_frame:
  assumes "queue_write m s = Inr t"
  shows "hs_shutdown t = hs_shutdown s \<and> hs_websocket t = hs_websocket s \<and> hs_sent t = hs_sent s \<and>
    (\<exists>new. hs_writes t = hs_writes s @ new \<and> list_all (\<lambda>w. wr_open w = stream_open s) new)"
  using assms by (auto simp: queue_write_eq split: if_splits)

lemma queue_step_frame:
  assumes "queue_step lib fb s e t"
  shows "(stream_open s \<or> \<not> stream_open t) \<and>
    (\<exists>new. list_all (\<lambda>w. wr_open w = stream_open s) new \<and>
      (hs_writes t = hs_writes s @ new \<and> hs_sent t = hs_sent s \<or>
       (\<exists>w ws. hs_writes s = w # ws \<and> hs_writes t = ws @ new \<and>
          (hs_sent t = hs_sent s \<or> wr_open w \<and> hs_sent t = hs_sent s @ [wr_message w]))))"
  using assms
proof (cases rule: queue_step.cases)
  case (queue_read r rs result)
  show ?thesis
  proof (cases "\<exists>req. result = Request_read req \<and> \<not> fl_upgrade lib req")
    case True
    with queue_read(3) obtain m u where u: "queue_write m (s\<lparr>hs_reads := rs\<rparr>) = Inr u"
      and t: "t = (if length (hs_queue u) < queue_limit then queue_do_read u else u)"
      by (auto simp: queue_on_read_def res_eq split: if_splits)
    from queue_write_frame [OF u] show ?thesis
      by (auto simp: t stream_open_def queue_do_read_def)
  next
    case False
    with queue_read(3) show ?thesis
      by (cases result) (auto simp: queue_on_read_def queue_do_close_def queue_fail_def stream_open_def
          intro!: exI [of _ "[]"] split: if_splits)
  qed
next
  case (queue_wrote m alive opened ws ec)
  let ?s = "s\<lparr>hs_writes := ws, hs_sent := hs_sent s @ [m]\<rparr>"
  show ?thesis
  proof (cases "ec = None \<and> alive")
    case True
    let ?r = "if length (hs_queue s) = queue_limit then queue_do_read ?s else ?s"
    from queue_wrote(4) True obtain q where "queue_do_write (?r\<lparr>hs_queue := q\<rparr>) = Inr t"
      by (auto simp: queue_on_write_def Let_def split: list.splits)
    from queue_do_write_frame [OF this] queue_wrote(2,3) True show ?thesis
      by (auto simp: stream_open_def queue_do_read_def split: if_splits)
  next
    case False
    with queue_wrote show ?thesis
      by (cases ec) (auto simp: queue_on_write_def queue_do_close_def queue_fail_def stream_open_def)
  qed
next
  case (queue_websocket ws e' ws')
  then show ?thesis by (auto simp: stream_open_def intro!: exI [of _ "[]"])
qed

interpretation opened: preserved "queue_step lib fb" open_writes for lib fb
proof
  fix s e t
  assume "queue_step lib fb s e t" and "open_writes s"
  with queue_step_frame [of lib fb s e t] show "open_writes t"
    by (auto simp: open_writes_def list_all_iff)
qed

text \<open>Once the stream is shut down or released, only what was being written can still arrive.\<close>

definition can_arrive :: "nat \<Rightarrow> ('v, 'b, 'f) queue_session \<Rightarrow> bool" where
  "can_arrive n s \<longleftrightarrow> \<not> stream_open s \<and> length (hs_sent s) + length (filter wr_open (hs_writes s)) \<le> n"

interpretation shut: preserved "queue_step lib fb" "can_arrive n" for lib fb n
proof
  fix s e t
  assume step: "queue_step lib fb s e t" and s: "can_arrive n s"
  from queue_step_frame [OF step] s obtain new where "\<not> stream_open t" and "filter wr_open new = []"
    and "hs_writes t = hs_writes s @ new \<and> hs_sent t = hs_sent s \<or>
       (\<exists>w ws. hs_writes s = w # ws \<and> hs_writes t = ws @ new \<and>
          (hs_sent t = hs_sent s \<or> wr_open w \<and> hs_sent t = hs_sent s @ [wr_message w]))"
    by (auto simp: can_arrive_def filter_empty_conv list_all_iff)
  with s show "can_arrive n t" by (auto simp: can_arrive_def split: if_splits)
qed

text \<open>
  C26. While the client keeps the connection open, all its requests are answered: from any
  reachable state in which no write has failed and every answer keeps the connection,
  successful writes alone, one for each answer in the queue, deliver every answer.
\<close>

theorem queue_session_drains:
  assumes "runs (queue_step lib fb) (queue_run (queue_session_new root)) es s"
    and "stream_open s" and "\<not> list_ex failed_write es"
    and "list_all stays_open (answers lib root es)"
  shows "\<exists>t. runs (queue_step lib fb) s (replicate (length (hs_queue s)) (Queue_wrote None)) t \<and>
    hs_sent t = answers lib root es"
proof -
  have "open_writes (queue_run (queue_session_new root))" by (simp add: open_writes_def queue_defs)
  from opened.runs_preserve [OF assms(1) this] assms(2) have "list_all wr_open (hs_writes s)"
    by (simp add: open_writes_def)
  from drain [OF queue_reachable [OF assms(1)] assms(2) this assms(3,4)] show ?thesis .
qed

theorem queue_session_drains_witness:
  "\<exists>t :: (nat, string, nat) queue_session. runs (queue_step sample_files readable_bytes)
     (sample_start\<lparr>hs_queue := [None], hs_writes := [Write_op page True True]\<rparr>) [Queue_wrote None] t \<and>
     hs_sent t = [page]"
proof -
  let ?es = "[Queue_read (Request_read (sample_request ''/'' True))] :: nat queue_event list"
  let ?s = "sample_start\<lparr>hs_queue := [None], hs_writes := [Write_op page True True]\<rparr>"
  have run: "runs (queue_step sample_files readable_bytes) (queue_run (queue_session_new ''www'')) ?es ?s"
    using sample_read [of sample_start readable_bytes "''/''" True]
    by (simp add: runs_Cons_iff stream_open_def sample_start_def [symmetric])
  have "answers sample_files ''www'' ?es = [page]"
    by (simp add: answers_def sample_files_def sample_request_def)
  with queue_session_drains [OF run] show ?thesis
    by (simp add: stream_open_def stays_open_def sample_alive)
qed

text \<open>
  C37. The end of the stream is answered with an immediate shutdown of the sending side,
  whatever still waits in the queue: of a client that sends its requests and then closes
  its own sending side, at most the answer that is being written arrives.
\<close>

theorem queue_session_half_close:
  assumes "runs (queue_step lib fb) (queue_run (queue_session_new root)) es s"
    and "queue_step lib fb s (Queue_read Stream_ended) t" and "runs (queue_step lib fb) t fs u"
  shows "hs_shutdown t \<and> length (hs_sent u) \<le> Suc (length (hs_sent s))"
proof -
  have t: "hs_shutdown t" "hs_sent t = hs_sent s" "hs_writes t = hs_writes s"
    using assms(2) by (auto simp: queue_read_iff queue_on_read_def queue_do_close_def)
  have "length (hs_writes s) \<le> 1"
    using write_loop_bounds [OF queue_inv_loop [OF queue_reachable [OF assms(1)]]] by blast
  then have "length (filter wr_open (hs_writes s)) \<le> 1"
    by (rule le_trans [OF length_filter_le])
  with t have "can_arrive (Suc (length (hs_sent s))) t" by (simp add: can_arrive_def stream_open_def)
  from shut.runs_preserve [OF assms(3) this] t show ?thesis by (simp add: can_arrive_def)
qed

theorem queue_session_half_close_witness:
  "\<exists>t u :: (nat, string, nat) queue_session.
     queue_step sample_files readable_bytes sample_waiting (Queue_read Stream_ended) t \<and>
     runs (queue_step sample_files readable_bytes) t [Queue_wrote None, Queue_wrote (Some 32)] u \<and>
     hs_sent u = [page] \<and> length (hs_sent u) \<le> 1 \<and> hs_queue u \<noteq> []"
proof -
  let ?t = "sample_waiting\<lparr>hs_reads := [], hs_shutdown := True\<rparr>"
  let ?u = "?t\<lparr>hs_queue := [None], hs_writes := [Write_op goodbye False False], hs_sent := [page]\<rparr>"
  let ?v = "?u\<lparr>hs_writes := [], hs_log := [fail_line (fl_message sample_files) 32 ''write'']\<rparr>"
  have run: "runs (queue_step sample_files readable_bytes) (queue_run (queue_session_new ''www''))
      [Queue_read (Request_read (sample_request ''/'' True)),
       Queue_read (Request_read (sample_request ''/nope'' False))] sample_waiting"
    using sample_requests_run by (simp add: sample_start_def)
  have ended: "queue_step sample_files readable_bytes sample_waiting (Queue_read Stream_ended) ?t"
    by (simp add: queue_read_iff queue_on_read_def queue_do_close_def sample_waiting_def)
  have "queue_step sample_files readable_bytes ?t (Queue_wrote None) ?u"
    by (auto simp: queue_wrote_iff sample_waiting_def queue_on_write_def queue_do_write_def queue_limit_def
        stream_open_def sample_alive)
  moreover have "queue_step sample_files readable_bytes ?u (Queue_wrote (Some 32)) ?v"
    by (auto simp: queue_wrote_iff sample_waiting_def queue_on_write_def queue_fail_def)
  ultimately have "runs (queue_step sample_files readable_bytes) ?t [Queue_wrote None, Queue_wrote (Some 32)] ?v"
    by (auto simp: runs_Cons_iff)
  with queue_session_half_close [OF run ended this] ended show ?thesis
    by (intro exI [of _ ?t] exI [of _ ?v]) (simp add: sample_waiting_def)
qed

section \<open>After an upgrade\<close>

fun ws_events :: "'v queue_event list \<Rightarrow> echo_event list" where
  "ws_events [] = []"
| "ws_events (Queue_websocket e # es) = e # ws_events es"
| "ws_events (_ # es) = ws_events es"

lemma ws_events_append: "ws_events (es @ fs) = ws_events es @ ws_events fs"
  by (induction es rule: ws_events.induct) simp_all

text \<open>A socket is handed over once, and its websocket session keeps its own invariant.\<close>

definition handed_inv ::
  "('v, 'f) file_lib \<Rightarrow> 'b flat_buffer_ops \<Rightarrow> string \<Rightarrow> 'v queue_event list \<Rightarrow> ('v, 'b, 'f) queue_session \<Rightarrow> bool" where
  "handed_inv lib fb root es s \<longleftrightarrow> queue_inv lib root es s \<and>
     (case hs_websocket s of
        None \<Rightarrow> ws_events es = []
      | Some ws \<Rightarrow> echo_inv fb (ws_events es) ws \<and> list_ex (ends_reading lib) es)"

lemma queue_step_websocket:
  assumes "queue_step lib fb s e t"
  obtains (same) "hs_websocket t = hs_websocket s" "ws_events [e] = []"
    | (upgraded) req where "e = Queue_read (Request_read req)" "fl_upgrade lib req"
        "hs_websocket t = Some (echo_do_accept (fl_beast_version lib) req (websocket_session_new fb))"
    | (own) ws e' ws' where "e = Queue_websocket e'" "hs_websocket s = Some ws"
        "echo_step fb (fl_message lib) ws e' ws'" "hs_websocket t = Some ws'"
  using assms
proof (cases rule: queue_step.cases)
  case (queue_read r rs result)
  show thesis
  proof (cases "\<exists>req. result = Request_read req \<and> fl_upgrade lib req")
    case True
    with queue_read upgraded show thesis by (auto simp: queue_on_read_def split: if_splits)
  next
    case False
    with queue_read have "hs_websocket t = hs_websocket s"
      by (cases result)
        (auto simp: queue_on_read_def queue_do_close_def queue_fail_def queue_do_read_def res_eq
          dest!: queue_write_frame split: if_splits)
    with queue_read(1) same show thesis by simp
  qed
next
  case (queue_wrote m alive opened ws ec)
  then have "hs_websocket t = hs_websocket s"
    by (auto simp: queue_on_write_def Let_def queue_do_close_def queue_fail_def queue_do_read_def
        dest!: queue_do_write_frame split: option.splits if_splits list.splits)
  with queue_wrote(1) same show thesis by simp
next
  case (queue_websocket ws e' ws')
  with own show thesis by simp
qed

lemma handed_step_inv:
  assumes "flat_buffer fb" and "queue_step lib fb s e t" and "handed_inv lib fb root es s"
  shows "handed_inv lib fb root (es @ [e]) t"
proof -
  have inv: "queue_inv lib root es s" "queue_inv lib root (es @ [e]) t"
    using assms(3) queue_step_inv [OF assms(2)] by (simp_all add: handed_inv_def)
  from assms(2) show ?thesis
  proof (cases rule: queue_step_websocket)
    case same
    with inv(2) assms(3) show ?thesis
      by (auto simp: handed_inv_def ws_events_append split: option.splits)
  next
    case (upgraded req)
    from assms(2) upgraded(1) have "hs_reads s \<noteq> []" by (auto simp: queue_read_iff)
    then have "\<not> list_ex (ends_reading lib) es"
      using inv(1) by (auto simp: queue_inv_def reading_inv_def)
    then have "ws_events es = []" using assms(3) by (auto simp: handed_inv_def split: option.splits)
    moreover have "echo_inv fb [] (echo_do_accept (fl_beast_version lib) req (websocket_session_new fb))"
      using assms(1) by (rule echo_start)
    ultimately show ?thesis
      using inv(2) upgraded by (simp add: handed_inv_def ws_events_append)
  next
    case (own ws e' ws')
    then have "echo_inv fb (ws_events es) ws" and ended: "list_ex (ends_reading lib) es"
      using assms(3) by (simp_all add: handed_inv_def)
    from echo_step_inv [OF assms(1) own(3) this(1)] show ?thesis
      using own inv(2) ended by (simp add: handed_inv_def ws_events_append)
  qed
qed

sublocale flat_buffer \<subseteq> handed: trace_invariant "queue_step lib fb" "handed_inv lib fb root" for lib root
  by unfold_locales (rule handed_step_inv [OF flat_buffer_axioms])

context flat_buffer begin

lemmas handed_runs_establish = handed.runs_establish

end

text \<open>What a connection sends back after its upgrade.\<close>

lemma handed_echoes:
  assumes "flat_buffer fb" and "runs (queue_step lib fb) (queue_run (queue_session_new root)) es s"
    and "hs_websocket s = Some ws"
  shows "\<exists>rest. echoes (ws_events es) = es_sent ws @ rest \<and> length rest \<le> 1 \<and> operations ws \<le> 1"
proof -
  have "handed_inv lib fb root [] (queue_run (queue_session_new root))"
    using queue_start by (auto simp: handed_inv_def queue_defs)
  from flat_buffer.handed_runs_establish [OF assms(1,2) this] assms(3) show ?thesis
    by (auto simp: handed_inv_def echo_inv_def operations_def split: if_splits)
qed

end
