(* ===== verification/Reference_Server.thy ===== *)
theory Reference_Server
  imports Queue_Session Tcp_Listener "HOL-Library.Sublist"
begin

text \<open>
  The reference server's \<open>listener\<close> and \<open>main\<close>, of \<open>networking/.boostbeast.cpp\<close>: the
  constructor reports a failure and returns, every accepted socket gets its own session, and
  the context runs on the number of threads the command line asks for.
\<close>

section \<open>The listener\<close>

text \<open>
  The acceptor's members are those of \<open>Tcp_Listener\<close>. \<open>rl_accepting\<close> counts the accepts under
  way, \<open>rl_sessions\<close> holds the sessions that were started, each with its socket, \<open>rl_log\<close>
  what the listener printed and \<open>rl_cerr\<close> what it and all its sessions printed.
\<close>

record ('e, 's, 'v, 'b, 'f) ref_listener =
  rl_acceptor :: "'e acceptor"
  rl_doc_root :: string
  rl_accepting :: nat
  rl_sessions :: "('s \<times> ('v, 'b, 'f) queue_session) list"
  rl_log :: "string list"
  rl_cerr :: "string list"

text \<open>\<open>fail\<close> prints on \<open>std::cerr\<close>, which the listener and the sessions share.\<close>

definition ref_fail ::
  "(nat \<Rightarrow> string) \<Rightarrow> nat \<Rightarrow> string \<Rightarrow> ('e, 's, 'v, 'b, 'f) ref_listener \<Rightarrow> ('e, 's, 'v, 'b, 'f) ref_listener" where
  "ref_fail message ec what l = l\<lparr>rl_log := rl_log l @ [fail_line message ec what],
     rl_cerr := rl_cerr l @ [fail_line message ec what]\<rparr>"

text \<open>What a session printed in a step, itself or as the websocket session it became.\<close>

definition websocket_log :: "('v, 'b, 'f) queue_session \<Rightarrow> string list" where
  "websocket_log s = (case hs_websocket s of None \<Rightarrow> [] | Some ws \<Rightarrow> es_log ws)"

definition newly_printed ::
  "('v, 'b, 'f) queue_session \<Rightarrow> ('v, 'b, 'f) queue_session \<Rightarrow> string list" where
  "newly_printed s s' = drop (length (hs_log s)) (hs_log s') @ drop (length (websocket_log s)) (websocket_log s')"

text \<open>The error code of each operation on the acceptor is the operating system's, 0 for none.\<close>

definition listener_new ::
  "(nat \<Rightarrow> string) \<Rightarrow> (acceptor_stage \<Rightarrow> nat) \<Rightarrow> 'e \<Rightarrow> string \<Rightarrow> ('e, 's, 'v, 'b, 'f) ref_listener" where
  "listener_new message os endpoint doc_root =
     (let l = \<lparr>rl_acceptor = acceptor_new, rl_doc_root = doc_root, rl_accepting = 0, rl_sessions = [],
            rl_log = [], rl_cerr = []\<rparr>;
          failed = ref_fail message;
          ec = os Stage_open in
      if ec \<noteq> 0 then failed ec ''open'' l
      else let l = l\<lparr>rl_acceptor := (rl_acceptor l)\<lparr>acc_open := True\<rparr>\<rparr>; ec = os Stage_set_option in
      if ec \<noteq> 0 then failed ec ''set_option'' l
      else let l = l\<lparr>rl_acceptor := (rl_acceptor l)\<lparr>acc_reuse := True\<rparr>\<rparr>; ec = os Stage_bind in
      if ec \<noteq> 0 then failed ec ''bind'' l
      else let l = l\<lparr>rl_acceptor := (rl_acceptor l)\<lparr>acc_bound := Some endpoint\<rparr>\<rparr>; ec = os Stage_listen in
      if ec \<noteq> 0 then failed ec ''listen'' l
      else l\<lparr>rl_acceptor := (rl_acceptor l)\<lparr>acc_listening := True\<rparr>\<rparr>)"

definition ref_do_accept ::
  "('e, 's, 'v, 'b, 'f) ref_listener \<Rightarrow> ('e, 's, 'v, 'b, 'f) ref_listener" where
  "ref_do_accept l = l\<lparr>rl_accepting := Suc (rl_accepting l)\<rparr>"

text \<open>\<open>run\<close> dispatches the first \<open>do_accept\<close>.\<close>

definition listener_run ::
  "('e, 's, 'v, 'b, 'f) ref_listener \<Rightarrow> ('e, 's, 'v, 'b, 'f) ref_listener" where
  "listener_run l = ref_do_accept l"

definition ref_on_accept ::
  "(nat \<Rightarrow> string) \<Rightarrow> nat + 's \<Rightarrow> ('e, 's, 'v, 'b, 'f) ref_listener \<Rightarrow> ('e, 's, 'v, 'b, 'f) ref_listener" where
  "ref_on_accept message result l =
     ref_do_accept (case result of
        Inl ec \<Rightarrow> ref_fail message ec ''accept'' l
      | Inr socket \<Rightarrow> l\<lparr>rl_sessions := rl_sessions l @
          [(socket, queue_run (queue_session_new (rl_doc_root l)))]\<rparr>)"

lemmas ref_listener_defs = listener_new_def acceptor_new_def ref_do_accept_def listener_run_def
  ref_on_accept_def ref_fail_def Let_def

text \<open>
  A step: an accept completes, with an error when the acceptor is not listening, or one of
  the sessions takes a step of its own and prints its failures.
\<close>

datatype ('s, 'v) ref_event = Ref_accepted "nat + 's" | Ref_session nat "'v queue_event"

inductive ref_step ::
  "('v, 'f) file_lib \<Rightarrow> 'b flat_buffer_ops \<Rightarrow> ('e, 's, 'v, 'b, 'f) ref_listener \<Rightarrow> ('s, 'v) ref_event \<Rightarrow>
     ('e, 's, 'v, 'b, 'f) ref_listener \<Rightarrow> bool"
  for lib fb where
  ref_accepted: "rl_accepting l = Suc n \<Longrightarrow> acc_listening (rl_acceptor l) \<or> (\<exists>ec. result = Inl ec) \<Longrightarrow>
     ref_step lib fb l (Ref_accepted result) (ref_on_accept (fl_message lib) result (l\<lparr>rl_accepting := n\<rparr>))"
| ref_session: "i < length (rl_sessions l) \<Longrightarrow> rl_sessions l ! i = (socket, s) \<Longrightarrow>
     queue_step lib fb s e s' \<Longrightarrow>
     ref_step lib fb l (Ref_session i e) (l\<lparr>rl_sessions := (rl_sessions l)[i := (socket, s')],
       rl_cerr := rl_cerr l @ newly_printed s s'\<rparr>)"

text \<open>The sockets a run accepts, and the accepts that fail.\<close>

fun ref_sockets :: "('s, 'v) ref_event list \<Rightarrow> 's list" where
  "ref_sockets [] = []"
| "ref_sockets (Ref_accepted (Inr socket) # es) = socket # ref_sockets es"
| "ref_sockets (_ # es) = ref_sockets es"

fun ref_errors :: "('s, 'v) ref_event list \<Rightarrow> nat list" where
  "ref_errors [] = []"
| "ref_errors (Ref_accepted (Inl ec) # es) = ec # ref_errors es"
| "ref_errors (_ # es) = ref_errors es"

text \<open>What happened in session number \<open>i\<close>.\<close>

fun ref_session_events :: "nat \<Rightarrow> ('s, 'v) ref_event list \<Rightarrow> 'v queue_event list" where
  "ref_session_events i [] = []"
| "ref_session_events i (Ref_session j e # es) =
     (if j = i then e # ref_session_events i es else ref_session_events i es)"
| "ref_session_events i (_ # es) = ref_session_events i es"

lemma ref_sockets_append [simp]: "ref_sockets (es @ fs) = ref_sockets es @ ref_sockets fs"
  by (induction es rule: ref_sockets.induct) simp_all

lemma ref_errors_append [simp]: "ref_errors (es @ fs) = ref_errors es @ ref_errors fs"
  by (induction es rule: ref_errors.induct) simp_all

lemma ref_session_events_append [simp]:
  "ref_session_events i (es @ fs) = ref_session_events i es @ ref_session_events i fs"
  by (induction i es rule: ref_session_events.induct) simp_all

text \<open>
  One accept is outstanding, each socket has its session, in order, and each session has
  taken its own steps and no others. \<open>log0\<close> is what the constructor printed.
\<close>

definition ref_inv ::
  "('v, 'f) file_lib \<Rightarrow> 'b flat_buffer_ops \<Rightarrow> string \<Rightarrow> bool \<Rightarrow> string list \<Rightarrow>
     ('s, 'v) ref_event list \<Rightarrow> ('e, 's, 'v, 'b, 'f) ref_listener \<Rightarrow> bool" where
  "ref_inv lib fb root listening log0 es l \<longleftrightarrow> rl_accepting l = 1 \<and> rl_doc_root l = root \<and>
     acc_listening (rl_acceptor l) = listening \<and>
     (listening \<or> ref_sockets es = []) \<and>
     map fst (rl_sessions l) = ref_sockets es \<and>
     rl_log l = log0 @ map (\<lambda>ec. fail_line (fl_message lib) ec ''accept'') (ref_errors es) \<and>
     (\<forall>i \<ge> length (rl_sessions l). ref_session_events i es = []) \<and>
     (\<forall>i < length (rl_sessions l). runs (queue_step lib fb) (queue_run (queue_session_new root))
        (ref_session_events i es) (snd (rl_sessions l ! i)))"

lemma ref_step_inv:
  assumes "ref_step lib fb l e l'" and "ref_inv lib fb root listening log0 es l"
  shows "ref_inv lib fb root listening log0 (es @ [e]) l'"
  using assms(1)
proof (cases rule: ref_step.cases)
  case (ref_accepted n result)
  show ?thesis
  proof (cases result)
    case (Inl ec)
    with ref_accepted assms(2) show ?thesis
      by (simp add: ref_inv_def ref_on_accept_def ref_do_accept_def ref_fail_def)
  next
    case (Inr socket)
    with ref_accepted assms(2) show ?thesis
      by (auto simp: ref_inv_def ref_on_accept_def ref_do_accept_def nth_append less_Suc_eq)
  qed
next
  case (ref_session i socket s e' s')
  then have "runs (queue_step lib fb) (queue_run (queue_session_new root)) (ref_session_events i es) s"
    using assms(2) by (auto simp: ref_inv_def)
  with ref_session(5) have "runs (queue_step lib fb) (queue_run (queue_session_new root))
      (ref_session_events i es @ [e']) s'"
    by (auto simp: runs_append runs_Cons_iff)
  moreover have "map fst ((rl_sessions l)[i := (socket, s')]) = map fst (rl_sessions l)"
    using ref_session(3,4) by (simp add: map_update) (metis fst_conv list_update_id nth_map)
  ultimately show ?thesis
    using ref_session assms(2) by (auto simp: ref_inv_def nth_list_update)
qed

interpretation ref: trace_invariant "ref_step lib fb" "ref_inv lib fb root listening log0"
  for lib fb root listening log0
  by unfold_locales (rule ref_step_inv)

lemma ref_start:
  "ref_inv lib fb root (list_all (\<lambda>st. os st = 0) [Stage_open, Stage_set_option, Stage_bind, Stage_listen])
     (case filter (\<lambda>st. os st \<noteq> 0) [Stage_open, Stage_set_option, Stage_bind, Stage_listen] of
        [] \<Rightarrow> [] | st # _ \<Rightarrow> [fail_line (fl_message lib) (os st) (stage_name st)])
     [] (listener_run (listener_new (fl_message lib) os endpoint root))"
  by (simp add: ref_inv_def ref_listener_defs)

text \<open>What the listener prints appears among what is printed on \<open>std::cerr\<close>.\<close>

interpretation printing: preserved "ref_step lib fb" "\<lambda>l. subseq (rl_log l) (rl_cerr l)" for lib fb
proof unfold_locales
  fix l e l'
  assume "ref_step lib fb l e l'" and "subseq (rl_log l) (rl_cerr l)"
  then show "subseq (rl_log l') (rl_cerr l')"
    by cases (auto simp: ref_on_accept_def ref_do_accept_def ref_fail_def split: sum.split)
qed

lemma ref_reachable:
  assumes "runs (ref_step lib fb) (listener_run (listener_new (fl_message lib) os endpoint root)) es l"
  shows "ref_inv lib fb root (list_all (\<lambda>st. os st = 0) [Stage_open, Stage_set_option, Stage_bind, Stage_listen])
     (case filter (\<lambda>st. os st \<noteq> 0) [Stage_open, Stage_set_option, Stage_bind, Stage_listen] of
        [] \<Rightarrow> [] | st # _ \<Rightarrow> [fail_line (fl_message lib) (os st) (stage_name st)]) es l"
  using ref.runs_establish [OF assms ref_start] .

text \<open>
  C23. With a listener that could be set up, one accept is always outstanding, every
  accepted socket gets one session, in order, every failed accept is printed, in order among
  what the sessions print on the same stream, and the
  sessions do not disturb each other: each has sent the answers to its own requests, in
  order and at most eight behind, and, once its client has upgraded, the messages it
  received, in order and at most one behind.
\<close>

theorem ref_listener_serves:
  assumes "\<And>st. os st = 0" and "flat_buffer fb"
    and "runs (ref_step lib fb) (listener_run (listener_new (fl_message lib) os endpoint root)) es l"
  shows "rl_accepting l = 1 \<and> map fst (rl_sessions l) = ref_sockets es \<and>
    rl_log l = map (\<lambda>ec. fail_line (fl_message lib) ec ''accept'') (ref_errors es) \<and>
    subseq (rl_log l) (rl_cerr l) \<and>
    (\<forall>i < length (rl_sessions l).
       (\<exists>rest. length rest \<le> 8 \<and>
         answers lib root (ref_session_events i es) = hs_sent (snd (rl_sessions l ! i)) @ rest) \<and>
       (\<forall>ws. hs_websocket (snd (rl_sessions l ! i)) = Some ws \<longrightarrow>
         (\<exists>rest. length rest \<le> 1 \<and> echoes (ws_events (ref_session_events i es)) = es_sent ws @ rest)))"
proof -
  have inv: "ref_inv lib fb root True [] es l" using ref_reachable [OF assms(3)] assms(1) by simp
  have session: "runs (queue_step lib fb) (queue_run (queue_session_new root)) (ref_session_events i es)
      (snd (rl_sessions l ! i))" if "i < length (rl_sessions l)" for i
    using inv that by (simp add: ref_inv_def)
  have "\<exists>rest. length rest \<le> 8 \<and>
      answers lib root (ref_session_events i es) = hs_sent (snd (rl_sessions l ! i)) @ rest"
    if "i < length (rl_sessions l)" for i
  proof -
    note queue = queue_reachable [OF session [OF that]]
    show ?thesis
      using write_loop_bounds [OF queue_inv_loop [OF queue]] queue_inv_length [OF queue] by (meson le_trans)
  qed
  moreover have "\<exists>rest. length rest \<le> 1 \<and> echoes (ws_events (ref_session_events i es)) = es_sent ws @ rest"
    if "i < length (rl_sessions l)" and "hs_websocket (snd (rl_sessions l ! i)) = Some ws" for i ws
    using handed_echoes [OF assms(2) session [OF that(1)] that(2)] by blast
  moreover have "subseq (rl_log (listener_run (listener_new (fl_message lib) os endpoint root)))
      (rl_cerr (listener_run (listener_new (fl_message lib) os endpoint root)))"
    by (simp add: ref_listener_defs)
  then have "subseq (rl_log l) (rl_cerr l)" by (rule printing.runs_preserve [OF assms(3)])
  moreover have "rl_accepting l = 1 \<and> map fst (rl_sessions l) = ref_sockets es \<and>
      rl_log l = map (\<lambda>ec. fail_line (fl_message lib) ec ''accept'') (ref_errors es)"
    using inv by (simp add: ref_inv_def)
  ultimately show ?thesis by blast
qed

theorem ref_listener_serves_witness:
  "\<exists>l :: (nat, nat, nat, string, nat) ref_listener. runs (ref_step sample_files readable_bytes)
     (listener_run (listener_new (fl_message sample_files) (\<lambda>st. 0) 5 ''www''))
     [Ref_accepted (Inr 3), Ref_accepted (Inl 24), Ref_accepted (Inr 4),
      Ref_session 0 (Queue_read (Request_read (sample_request ''/'' True))),
      Ref_session 1 (Queue_read Stream_ended)] l \<and>
     map fst (rl_sessions l) = [3, 4] \<and> rl_accepting l = 1"
proof -
  let ?step = "ref_step sample_files readable_bytes :: (nat, nat, nat, string, nat) ref_listener \<Rightarrow> _"
  let ?acc = "\<lambda>r l. ref_on_accept (fl_message sample_files) r (l\<lparr>rl_accepting := 0\<rparr>)"
  let ?l0 = "listener_run (listener_new (fl_message sample_files) (\<lambda>st. 0) 5 ''www'') :: (nat, nat, nat, string, nat) ref_listener"
  let ?l3 = "?acc (Inr 4) (?acc (Inl 24) (?acc (Inr 3) ?l0))"
  let ?s = "sample_start\<lparr>hs_queue := [None], hs_writes := [Write_op page True True]\<rparr>"
  let ?l4 = "?l3\<lparr>rl_sessions := (rl_sessions ?l3)[0 := (3, ?s)],
    rl_cerr := rl_cerr ?l3 @ newly_printed sample_start ?s\<rparr>"
  let ?e = "sample_start\<lparr>hs_reads := [], hs_shutdown := True\<rparr>"
  let ?l5 = "?l4\<lparr>rl_sessions := (rl_sessions ?l4)[1 := (4, ?e)],
    rl_cerr := rl_cerr ?l4 @ newly_printed sample_start ?e\<rparr>"
  have accept: "?step l (Ref_accepted r) (?acc r l)"
    if "rl_accepting l = 1" "acc_listening (rl_acceptor l)" for l r
    using that ref_accepted [of l 0 r] by simp
  have three: "?step ?l0 (Ref_accepted (Inr 3)) (?acc (Inr 3) ?l0)"
    "?step (?acc (Inr 3) ?l0) (Ref_accepted (Inl 24)) (?acc (Inl 24) (?acc (Inr 3) ?l0))"
    "?step (?acc (Inl 24) (?acc (Inr 3) ?l0)) (Ref_accepted (Inr 4)) ?l3"
    by (intro accept; simp add: ref_listener_defs)+
  have sessions: "rl_sessions ?l3 = [(3, sample_start), (4, sample_start)]"
    by (simp add: ref_listener_defs sample_start_def)
  have "?step ?l3 (Ref_session 0 (Queue_read (Request_read (sample_request ''/'' True)))) ?l4"
    using sample_read [of sample_start readable_bytes "''/''" True] sessions
    by (intro ref_session [where s = sample_start]) (simp_all add: stream_open_def)
  moreover have "?step ?l4 (Ref_session 1 (Queue_read Stream_ended)) ?l5"
    using sessions by (intro ref_session [where s = sample_start])
      (simp_all add: queue_read_iff queue_on_read_def queue_do_close_def)
  ultimately have run: "runs ?step ?l0 [Ref_accepted (Inr 3), Ref_accepted (Inl 24), Ref_accepted (Inr 4),
      Ref_session 0 (Queue_read (Request_read (sample_request ''/'' True))),
      Ref_session 1 (Queue_read Stream_ended)] ?l5"
    using three by (simp only: runs_Cons_iff runs_Nil_iff) blast
  from ref_listener_serves [OF refl readable.flat_buffer_axioms run] run show ?thesis
    by (intro exI [of _ ?l5]) simp
qed

section \<open>A listener that could not be set up\<close>

lemma only_errors:
  "ref_sockets es = [] \<Longrightarrow> (\<And>i. ref_session_events i es = []) \<Longrightarrow> length (ref_errors es) = length es"
proof (induction es)
  case (Cons e es)
  show ?case
  proof (cases e)
    case (Ref_accepted r)
    then show ?thesis using Cons by (cases r) simp_all
  next
    case (Ref_session j q)
    then show ?thesis using Cons.prems(2) [of j] by simp
  qed
qed simp

text \<open>
  C38. A listener that could not be set up is not noticed: its constructor prints one line
  and returns, and from \<open>run\<close> on the accepts fail forever, each failure printing a line and
  starting the next accept; no session is ever started.
\<close>

theorem ref_listener_spins:
  assumes "filter (\<lambda>st. os st \<noteq> 0) [Stage_open, Stage_set_option, Stage_bind, Stage_listen] = st # sts"
    and "runs (ref_step lib fb) (listener_run (listener_new (fl_message lib) os endpoint root)) es l"
  shows "rl_sessions l = [] \<and> length (rl_log l) = Suc (length es) \<and>
    hd (rl_log l) = fail_line (fl_message lib) (os st) (stage_name st) \<and>
    (\<exists>l'. ref_step lib fb l (Ref_accepted (Inl ec)) l')"
proof -
  have failed: "list_all (\<lambda>st. os st = 0) [Stage_open, Stage_set_option, Stage_bind, Stage_listen] = False"
    using assms(1) by (auto split: if_splits)
  have inv: "ref_inv lib fb root False [fail_line (fl_message lib) (os st) (stage_name st)] es l"
    using ref_reachable [OF assms(2)] unfolding failed assms(1) list.case .
  then have none: "ref_sockets es = []" "rl_sessions l = []" by (auto simp: ref_inv_def)
  with inv have "length (ref_errors es) = length es" by (intro only_errors) (auto simp: ref_inv_def)
  with inv none ref_accepted [of l 0 "Inl ec" lib fb] show ?thesis by (auto simp: ref_inv_def)
qed

theorem ref_listener_spins_witness:
  "\<exists>l :: (nat, nat, nat, string, nat) ref_listener. runs (ref_step sample_files readable_bytes)
     (listener_run (listener_new (fl_message sample_files) (\<lambda>st. if st = Stage_bind then 98 else 0) 5 ''www''))
     [Ref_accepted (Inl 9), Ref_accepted (Inl 9), Ref_accepted (Inl 9)] l \<and> length (rl_log l) = 4"
proof -
  let ?os = "\<lambda>st. if st = Stage_bind then 98 else 0 :: nat"
  let ?acc = "\<lambda>l. ref_on_accept (fl_message sample_files) (Inl 9) (l\<lparr>rl_accepting := 0\<rparr>)"
  let ?l0 = "listener_run (listener_new (fl_message sample_files) ?os 5 ''www'') :: (nat, nat, nat, string, nat) ref_listener"
  have accept: "ref_step sample_files readable_bytes l (Ref_accepted (Inl 9)) (?acc l)"
    if "rl_accepting l = 1" for l :: "(nat, nat, nat, string, nat) ref_listener"
    using that ref_accepted [of l 0 "Inl 9"] by simp
  have "ref_step sample_files readable_bytes ?l0 (Ref_accepted (Inl 9)) (?acc ?l0)"
    "ref_step sample_files readable_bytes (?acc ?l0) (Ref_accepted (Inl 9)) (?acc (?acc ?l0))"
    "ref_step sample_files readable_bytes (?acc (?acc ?l0)) (Ref_accepted (Inl 9)) (?acc (?acc (?acc ?l0)))"
    by (intro accept; simp add: ref_listener_defs)+
  then have run: "runs (ref_step sample_files readable_bytes) ?l0
      [Ref_accepted (Inl 9), Ref_accepted (Inl 9), Ref_accepted (Inl 9)] (?acc (?acc (?acc ?l0)))"
    by (simp only: runs_Cons_iff runs_Nil_iff) blast
  from ref_listener_spins [OF _ run, of Stage_bind "[]"] run show ?thesis
    by (intro exI [of _ "?acc (?acc (?acc ?l0))"]) simp
qed

section \<open>The program\<close>

text \<open>
  The loop that starts the workers: \<open>i\<close> is its counter, \<open>v\<close> the number of threads started.
  The thread that runs \<open>main\<close> runs the context too.
\<close>

function spawn_workers :: "int \<Rightarrow> nat \<Rightarrow> nat" where
  "spawn_workers i v = (if i > 0 then spawn_workers (i - 1) (Suc v) else v)"
  by auto

termination spawn_workers
  by (relation "measure (\<lambda>(i, v). nat i)") auto

declare spawn_workers.simps [simp del]

lemma spawn_workers_eq: "spawn_workers i v = nat i + v"
  by (induction i v rule: spawn_workers.induct) (subst spawn_workers.simps, simp add: Suc_nat_eq_nat_zadd1)

text \<open>
  What \<open>main\<close> comes to before it waits: it has returned a status and printed a usage text, or
  a started listener waits on a context with a concurrency hint, run by a number of workers.
\<close>

datatype 'l main_result =
    Exit_with nat string
  | Running (main_listener: 'l) (main_hint: int) (main_workers: nat)

definition usage :: string where
  "usage = ''Usage: advanced-server <address> <port> <doc_root> <threads>'' @ [CHR 0x0A] @
     ''Example:'' @ [CHR 0x0A] @ ''    advanced-server 0.0.0.0 8080 . 1'' @ [CHR 0x0A]"

text \<open>\<open>argv\<close> has \<open>argc\<close> elements; \<open>net::ip::make_address\<close> throws on a text that is no address.\<close>

definition reference_main ::
  "(string \<Rightarrow> 'a res) \<Rightarrow> (nat \<Rightarrow> string) \<Rightarrow> (acceptor_stage \<Rightarrow> nat) \<Rightarrow> string list \<Rightarrow>
     ('a \<times> 16 word, 's, 'v, 'b, 'f) ref_listener main_result res" where
  "reference_main make_address message os argv =
     (if length argv \<noteq> 5 then Inr (Exit_with 1 usage)
      else
        bind_res (make_address (argv ! 1)) (\<lambda>address.
        bind_res (std_atoi (argv ! 2)) (\<lambda>n.
        let port = (word_of_int n :: 16 word); doc_root = argv ! 3 in
        bind_res (std_atoi (argv ! 4)) (\<lambda>n.
        let threads = max 1 n in
        Inr (Running (listener_run (listener_new message os (address, port) doc_root)) threads
          (spawn_workers (threads - 1) 0))))))"

text \<open>When a signal has stopped the context, the workers are joined and \<open>main\<close> returns.\<close>

fun reference_main_status :: "'l main_result \<Rightarrow> nat" where
  "reference_main_status (Exit_with status text) = status"
| "reference_main_status (Running l hint workers) = 0"

lemma std_atoi_to_string: "n \<le> 2147483647 \<Longrightarrow> std_atoi (std_to_string n) = Inr (int n)"
proof -
  assume "n \<le> 2147483647"
  moreover have "CHR 0x00 \<notin> set (std_to_string n)"
    using std_to_string_digits [of n] by (auto simp: list_all_iff is_digit_char_def)
  ultimately show ?thesis by (simp add: std_atoi_stoi std_stoi_to_string)
qed

text \<open>
  Started with an address, a decimal port, a directory and a decimal number of threads,
  the program runs its context on exactly \<open>max 1 threads\<close> threads, \<open>main\<close>'s own included (the
  loop that starts them ends), and listens on the port modulo 65536: a port that is too
  large is not refused.
\<close>

lemma reference_main_threads:
  assumes "argv = [program, address, std_to_string port, root, std_to_string threads]"
    and "port \<le> 2147483647" and "threads \<le> 2147483647" and "make_address address = Inr a"
    and "\<And>st. os st = 0"
  shows "\<exists>l. reference_main make_address message os argv = Inr (Running l (int (max 1 threads)) (max 1 threads - 1)) \<and>
    rl_accepting l = 1 \<and> acc_listening (rl_acceptor l) \<and> rl_doc_root l = root \<and>
    map_option (\<lambda>(b, p). (b, unat p)) (acc_bound (rl_acceptor l)) = Some (a, port mod 65536)"
proof -
  have "unat (word_of_nat port :: 16 word) = port mod 65536"
    by (simp add: unsigned_of_nat take_bit_eq_mod)
  moreover have "spawn_workers (max 1 (int threads) - 1) 0 = max 1 threads - 1"
    by (simp add: spawn_workers_eq nat_diff_distrib max_def)
  moreover have "max 1 (int threads) = int (max 1 threads)" by (simp add: max_def)
  ultimately show ?thesis
    using assms(5)
    by (simp add: reference_main_def assms(1,4) std_atoi_to_string [OF assms(2)]
        std_atoi_to_string [OF assms(3)] ref_listener_defs)
qed

lemma reference_main_threads_witness:
  "\<exists>l :: (nat \<times> 16 word, nat, nat, string, nat) ref_listener.
     reference_main (\<lambda>text. Inr 7) (\<lambda>ec. ''error'') (\<lambda>st. 0)
       [''server'', ''0.0.0.0'', std_to_string 73616, ''.'', std_to_string 0] = Inr (Running l 1 0) \<and>
     map_option (\<lambda>(b, p). (b, unat p)) (acc_bound (rl_acceptor l)) = Some (7, 8080)"
  using reference_main_threads [OF refl, of 73616 0 "\<lambda>text. Inr 7" "''0.0.0.0''" 7 "\<lambda>st. 0"
      "\<lambda>ec. ''error''" "''server''" "''.''"]
  by simp blast

end
