(* ===== verification/Programs.thy ===== *)
theory Programs
  imports Simple_Server Tcp_Listener
begin

text \<open>
  The two programs as wholes: \<open>main\<close> of \<open>apps/simple_game/beast.cpp\<close> and of
  \<open>apps/simple_server/main.cpp\<close>, which read the port, make the listener and run the context,
  and the runs of the context, in which the accepts of the listener and the completions of
  its connections interleave.
\<close>

section \<open>From the command line to the running context\<close>

text \<open>
  What \<open>main\<close> comes to: it returns a status, an exception it does not catch ends the
  program, or the context runs with a started listener.
\<close>

datatype 'l program = Exited nat | Terminated "string list" | Serving 'l

definition any_address :: string where "any_address = ''0.0.0.0''"

definition run_listener ::
  "(nat \<Rightarrow> string \<Rightarrow> string) \<Rightarrow> (acceptor_stage \<Rightarrow> nat) \<Rightarrow> nat + 16 word \<Rightarrow> 'a \<Rightarrow>
     (endpoint, 'a) listener program" where
  "run_listener fail os port a =
     (case port of
        Inl status \<Rightarrow> Exited status
      | Inr p \<Rightarrow>
          (case TcpListenerBase_new fail os (any_address, p) a of
             Inl logged \<Rightarrow> Terminated logged
           | Inr l \<Rightarrow> Serving (Start l)))"

definition simple_game_main ::
  "(nat \<Rightarrow> string \<Rightarrow> string) \<Rightarrow> (acceptor_stage \<Rightarrow> nat) \<Rightarrow> string list \<Rightarrow>
     (endpoint, ('v, 'b) game_server) listener program" where
  "simple_game_main fail os argv = run_listener fail os (simple_game_port argv) game_server_new"

text \<open>The state of the simple server's listener: the sessions it has made, in order.\<close>

definition simple_server_main ::
  "(nat \<Rightarrow> string \<Rightarrow> string) \<Rightarrow> (acceptor_stage \<Rightarrow> nat) \<Rightarrow> string list \<Rightarrow>
     (endpoint, ('v, 'h) http_session list) listener program" where
  "simple_server_main fail os argv = run_listener fail os (simple_server_port argv) []"

section \<open>Runs of a program\<close>

text \<open>
  The context runs until the program is killed. An accept completes: the socket of a new
  connection (\<open>fresh\<close> says which it can be) goes to \<open>OnAccept\<close>; or the connections make a
  step \<open>conn\<close> of their own.
\<close>

datatype ('s, 'e) program_event = Accept_done "nat + 's" | Connection 'e

inductive program_step ::
  "(nat \<Rightarrow> string \<Rightarrow> string) \<Rightarrow> ('s \<Rightarrow> 'a \<Rightarrow> 'a) \<Rightarrow> ('s \<Rightarrow> 'a \<Rightarrow> bool) \<Rightarrow> ('a \<Rightarrow> 'e \<Rightarrow> 'a \<Rightarrow> bool) \<Rightarrow>
     ('p, 'a) listener \<Rightarrow> ('s, 'e) program_event \<Rightarrow> ('p, 'a) listener \<Rightarrow> bool"
  for fail on_accept fresh conn where
  accept_done: "listener_step fail on_accept (\<lambda>a. a) l (Accepted result) l' \<Longrightarrow>
     (case result of Inl ec \<Rightarrow> True | Inr socket \<Rightarrow> fresh socket (sub l)) \<Longrightarrow>
     program_step fail on_accept fresh conn l (Accept_done result) l'"
| connection: "\<not> ctx_stopped l \<Longrightarrow> conn (sub l) e a \<Longrightarrow>
     program_step fail on_accept fresh conn l (Connection e) (l\<lparr>sub := a\<rparr>)"

text \<open>What a program's run is for its connections: the successful accepts and their own steps.\<close>

inductive joint_step ::
  "('s \<Rightarrow> 'a \<Rightarrow> 'a) \<Rightarrow> ('s \<Rightarrow> 'a \<Rightarrow> bool) \<Rightarrow> ('a \<Rightarrow> 'e \<Rightarrow> 'a \<Rightarrow> bool) \<Rightarrow> 'a \<Rightarrow> 's + 'e \<Rightarrow> 'a \<Rightarrow> bool"
  for on_accept fresh conn where
  joint_accept: "fresh socket a \<Longrightarrow> joint_step on_accept fresh conn a (Inl socket) (on_accept socket a)"
| joint_conn: "conn a e b \<Longrightarrow> joint_step on_accept fresh conn a (Inr e) b"

fun joint_events :: "('s, 'e) program_event list \<Rightarrow> ('s + 'e) list" where
  "joint_events [] = []"
| "joint_events (Accept_done (Inl ec) # es) = joint_events es"
| "joint_events (Accept_done (Inr socket) # es) = Inl socket # joint_events es"
| "joint_events (Connection e # es) = Inr e # joint_events es"

fun failed_accepts :: "('s, 'e) program_event list \<Rightarrow> nat list" where
  "failed_accepts [] = []"
| "failed_accepts (Accept_done (Inl ec) # es) = ec # failed_accepts es"
| "failed_accepts (_ # es) = failed_accepts es"

lemma joint_events_append: "joint_events (es @ fs) = joint_events es @ joint_events fs"
  by (induction es rule: joint_events.induct) simp_all

lemma failed_accepts_append: "failed_accepts (es @ fs) = failed_accepts es @ failed_accepts fs"
  by (induction es rule: failed_accepts.induct) simp_all

text \<open>
  The listener listens with one accept outstanding and has printed the failed ones; the
  connections have made a run of their own.
\<close>

definition program_inv ::
  "(nat \<Rightarrow> string \<Rightarrow> string) \<Rightarrow> ('s \<Rightarrow> 'a \<Rightarrow> 'a) \<Rightarrow> ('s \<Rightarrow> 'a \<Rightarrow> bool) \<Rightarrow> ('a \<Rightarrow> 'e \<Rightarrow> 'a \<Rightarrow> bool) \<Rightarrow> 'a \<Rightarrow>
     'p \<Rightarrow> ('s, 'e) program_event list \<Rightarrow> ('p, 'a) listener \<Rightarrow> bool" where
  "program_inv fail on_accept fresh conn a0 endpoint es l \<longleftrightarrow>
     accepting l = 1 \<and> acc_listening (acceptor l) \<and> acc_bound (acceptor l) = Some endpoint \<and>
     \<not> ctx_stopped l \<and> log l = map (\<lambda>ec. fail ec ''accept'') (failed_accepts es) \<and>
     runs (joint_step on_accept fresh conn) a0 (joint_events es) (sub l)"

lemma runs_snoc: "runs step s es t \<Longrightarrow> step t e u \<Longrightarrow> runs step s (es @ [e]) u"
  by (auto simp: runs_append runs_Cons_iff)

lemma program_step_inv:
  assumes "program_step fail on_accept fresh conn l e l'"
    and "program_inv fail on_accept fresh conn a0 endpoint es l"
  shows "program_inv fail on_accept fresh conn a0 endpoint (es @ [e]) l'"
  using assms(1)
proof (cases rule: program_step.cases)
  case (accept_done result)
  then have l': "l' = OnAcceptContinue fail on_accept result (l\<lparr>accepting := 0\<rparr>)"
    using assms(2) by (auto simp: program_inv_def elim: listener_acceptedE)
  show ?thesis
  proof (cases result)
    case (Inl ec)
    then show ?thesis using assms(2) l' accept_done(1)
      by (simp add: program_inv_def listener_defs joint_events_append failed_accepts_append)
  next
    case (Inr socket)
    with accept_done have "joint_step on_accept fresh conn (sub l) (Inl socket) (on_accept socket (sub l))"
      by (simp add: joint_accept)
    then show ?thesis using assms(2) l' accept_done(1) Inr
      by (auto simp: program_inv_def listener_defs joint_events_append failed_accepts_append
          intro: runs_snoc)
  qed
next
  case (connection e' a)
  then show ?thesis using assms(2)
    by (auto simp: program_inv_def joint_events_append failed_accepts_append
        intro: runs_snoc joint_conn)
qed

interpretation program: trace_invariant "program_step fail on_accept fresh conn"
  "program_inv fail on_accept fresh conn a0 endpoint"
  for fail on_accept fresh conn a0 endpoint
  by unfold_locales (rule program_step_inv)

lemma run_listener_Serving:
  assumes "run_listener fail os port a = Serving l"
  obtains p where "port = Inr p" and "program_inv fail on_accept fresh conn a (any_address, p) [] l"
  using assms
  by (auto simp: run_listener_def TcpListenerBase_new_def InitializeAcceptor_def Let_def
      acceptor_new_def program_inv_def listener_defs split: sum.splits if_splits)

section \<open>The simple game\<close>

text \<open>A socket is the number its connection gets, with the addresses of its two ends.\<close>

type_synonym game_socket = "nat \<times> endpoint \<times> endpoint"

fun game_accept :: "game_socket \<Rightarrow> ('v, 'b) game_server \<Rightarrow> ('v, 'b) game_server" where
  "game_accept (k, peer, local_end) srv = TestListener_OnAccept k peer local_end srv"

definition game_fresh :: "game_socket \<Rightarrow> ('v, 'b) game_server \<Rightarrow> bool" where
  "game_fresh socket srv \<longleftrightarrow> http_sessions srv (fst socket) = None"

fun is_connect :: "'v server_event \<Rightarrow> bool" where
  "is_connect (Connect k peer local_end) = True"
| "is_connect _ = False"

definition game_conn ::
  "('v, 'u) http_lib \<Rightarrow> 'b flat_buffer_ops \<Rightarrow> (string set \<Rightarrow> string list) \<Rightarrow>
     ('v, 'b) game_server \<Rightarrow> 'v server_event \<Rightarrow> ('v, 'b) game_server \<Rightarrow> bool" where
  "game_conn lib fb order srv e srv' \<longleftrightarrow> \<not> is_connect e \<and> server_step lib fb order srv e srv'"

fun game_event :: "game_socket + 'v server_event \<Rightarrow> 'v server_event" where
  "game_event (Inl (k, peer, local_end)) = Connect k peer local_end"
| "game_event (Inr e) = e"

lemma joint_server_step:
  assumes "joint_step game_accept game_fresh (game_conn lib fb order) srv e srv'"
  shows "server_step lib fb order srv (game_event e) srv'"
  using assms
proof (cases rule: joint_step.cases)
  case (joint_accept socket)
  obtain k peer local_end where "socket = (k, peer, local_end)" by (cases socket)
  with joint_accept connect [of srv k lib fb order peer local_end] show ?thesis
    by (simp add: game_fresh_def)
qed (simp add: game_conn_def)

lemma joint_server_runs:
  "runs (joint_step game_accept game_fresh (game_conn lib fb order)) srv es srv' \<Longrightarrow>
     runs (server_step lib fb order) srv (map game_event es) srv'"
  by (induction rule: runs.induct) (auto intro: runs_cons joint_server_step)

text \<open>
  C8. The program \<open>simple_game\<close>, started with the argument \<open>n\<close>, refines the server of the
  other theorems: it runs only for an \<open>n\<close> of type \<open>int\<close>, listens on the port \<open>n\<close> modulo
  65536 of every address with always one accept outstanding, prints the failed accepts and
  nothing else, and what its connections do is a run of the server from its empty state;
  so as long as no websocket read fails other than by a close, its registry holds live
  sessions only.
\<close>

theorem simple_game_program:
  assumes "flat_buffer fb" and "lists_keys order"
    and "simple_game_main fail os [prog, std_to_string n] = Serving l"
    and "runs (program_step fail game_accept game_fresh (game_conn lib fb order)) l es l'"
    and "no_read_fails (map game_event (joint_events es))"
  shows "n \<le> 2147483647 \<and> acc_bound (acceptor l') = Some (any_address, word_of_nat (n mod 65536)) \<and>
    acc_listening (acceptor l') \<and> accepting l' = 1 \<and>
    log l' = map (\<lambda>ec. fail ec ''accept'') (failed_accepts es) \<and>
    runs (server_step lib fb order) game_server_new (map game_event (joint_events es)) (sub l') \<and>
    ran (ctxs (app (world (sub l')))) \<subseteq> dom (ws_sessions (world (sub l')))"
proof -
  obtain p where p: "simple_game_port [prog, std_to_string n] = Inr p"
    and start: "program_inv fail game_accept game_fresh (game_conn lib fb order) game_server_new
      (any_address, p) [] l"
    using assms(3) by (auto simp: simple_game_main_def elim: run_listener_Serving)
  have inv: "program_inv fail game_accept game_fresh (game_conn lib fb order) game_server_new
      (any_address, p) es l'"
    using program.runs_establish [OF assms(4) start] .
  have port: "n \<le> 2147483647 \<and> p = word_of_nat (n mod 65536)"
    using p simple_game_port_correct [of prog n] by (simp split: if_splits)
  have run: "runs (server_step lib fb order) game_server_new (map game_event (joint_events es)) (sub l')"
    using inv by (auto simp: program_inv_def intro: joint_server_runs)
  have "ran (ctxs (app (world (sub l')))) \<subseteq> dom (ws_sessions (world (sub l')))"
  proof
    fix sid assume "sid \<in> ran (ctxs (app (world (sub l'))))"
    then obtain u where "ctxs (app (world (sub l'))) u = Some sid" by (auto simp: ran_def)
    then show "sid \<in> dom (ws_sessions (world (sub l')))"
      using registered server_runs_inv [OF assms(1,2,5) run] by blast
  qed
  with inv port run show ?thesis by (auto simp: program_inv_def)
qed

text \<open>How a program ends before it serves: a bad argument, or an acceptor that could not be set up.\<close>

lemma run_listener_outcome:
  "run_listener fail os port a =
     (case port of
        Inl status \<Rightarrow> Exited status
      | Inr p \<Rightarrow>
          (case filter (\<lambda>st. os st \<noteq> 0) [Stage_open, Stage_set_option, Stage_bind, Stage_listen] of
             [] \<Rightarrow> Serving \<lparr>acceptor = \<lparr>acc_open = True, acc_reuse = True,
                 acc_bound = Some (any_address, p), acc_listening = True\<rparr>,
               accepting = 1, ctx_stopped = False, log = [], sub = a\<rparr>
           | st # _ \<Rightarrow> Terminated [fail (os st) (stage_name st), fail (os st) ''InitializeAcceptor'']))"
  by (simp add: run_listener_def TcpListener_constructor Start_def DoAccept_def split: sum.split list.split)

definition first_socket :: game_socket where
  "first_socket = (0, (''c'', 1), (''h'', 1))"

theorem simple_game_program_witness:
  "\<exists>l l' :: (endpoint, (nat, string) game_server) listener.
     simple_game_main (\<lambda>ec what. what) (\<lambda>st. 0) [''simple_game'', std_to_string 70000] = Serving l \<and>
     runs (program_step (\<lambda>ec what. what) game_accept game_fresh (game_conn sample_lib readable_bytes sorted_list_of_set))
       l [Accept_done (Inl 24), Accept_done (Inr first_socket),
          Connection (Http 0 (Read_done End_of_stream))] l' \<and>
     log l' = [''accept''] \<and> acc_bound (acceptor l') = Some (any_address, 4464)"
proof -
  let ?fail = "\<lambda>(ec :: nat) (what :: string). what"
  let ?conn = "game_conn sample_lib readable_bytes sorted_list_of_set"
  let ?step = "program_step ?fail game_accept game_fresh ?conn"
  let ?es = "[Accept_done (Inl 24), Accept_done (Inr first_socket), Connection (Http 0 (Read_done End_of_stream))]"
  let ?l = "\<lparr>acceptor = \<lparr>acc_open = True, acc_reuse = True, acc_bound = Some (any_address, word_of_nat 70000 :: 16 word),
    acc_listening = True\<rparr>, accepting = 1, ctx_stopped = False, log = [], sub = game_server_new :: (nat, string) game_server\<rparr>"
  let ?s = "HttpSession_Run (HttpSession_new ''h'' 1) :: (nat, game_ws_handler) http_session"
  let ?acc = "\<lambda>r l. OnAcceptContinue ?fail game_accept r (l\<lparr>accepting := 0\<rparr>)"
  let ?l2 = "?acc (Inr first_socket) (?acc (Inl 24) ?l)"
  let ?s' = "HttpSession_Close (?s\<lparr>reads := []\<rparr>)"
  let ?l3 = "?l2\<lparr>sub := hand_over readable_bytes 0 (''c'', 1) ?s' (world (sub ?l2)) (sub ?l2)\<rparr>"
  have main: "simple_game_main ?fail (\<lambda>st. 0) [''simple_game'', std_to_string 70000] = Serving ?l"
    using simple_game_port_correct [of "''simple_game''" 70000]
    by (simp add: simple_game_main_def run_listener_outcome)
  have accept: "?step l (Accept_done r) (?acc r l)"
    if "\<not> ctx_stopped l" "accepting l = 1" "acc_listening (acceptor l)"
      "case r of Inl ec \<Rightarrow> True | Inr socket \<Rightarrow> game_fresh socket (sub l)" for l r
    using that listener_step.accepted [of l 0 r ?fail game_accept "\<lambda>a. a"] by (auto intro: accept_done)
  have "?step ?l (Accept_done (Inl 24)) (?acc (Inl 24) ?l)"
    "?step (?acc (Inl 24) ?l) (Accept_done (Inr first_socket)) ?l2"
    by (intro accept; simp add: listener_defs game_fresh_def game_server_new_def)+
  moreover have "?step ?l2 (Connection (Http 0 (Read_done End_of_stream))) ?l3"
  proof (rule connection)
    show "\<not> ctx_stopped ?l2" by (simp add: listener_defs)
    obtain rm where "TestListener_routes (lib_verbs sample_lib) readable_bytes sorted_list_of_set =
        Inr (Some rm :: ((nat, string) game_callback, game_ws_handler) route_manager option)"
      by (simp add: TestListener_routes_eq)
    moreover have "http_sessions (sub ?l2) 0 = Some ((''c'', 1), ?s)"
      by (simp add: listener_defs first_socket_def TestListener_OnAccept_def)
    moreover have "http_step sample_lib (Some rm) (?s, world (sub ?l2)) (Read_done End_of_stream) (?s', world (sub ?l2))" for rm
      by (simp add: http_read_iff HttpSession_OnRead_def HttpSession_Run_def HttpSession_Read_def HttpSession_new_def)
    ultimately show "?conn (sub ?l2) (Http 0 (Read_done End_of_stream))
        (hand_over readable_bytes 0 (''c'', 1) ?s' (world (sub ?l2)) (sub ?l2))"
      unfolding game_conn_def by (auto intro: server_step.http)
  qed
  ultimately have run: "runs ?step ?l ?es ?l3" by (simp only: runs_Cons_iff runs_Nil_iff) blast
  have "no_read_fails (map game_event (joint_events ?es))"
    by (auto simp: no_read_fails_def first_socket_def)
  from simple_game_program [OF readable.flat_buffer_axioms lists_keys_sorted main run this] main run
  show ?thesis by (intro exI [of _ ?l] exI [of _ ?l3]) simp
qed

section \<open>The simple server\<close>

definition server_accept :: "endpoint \<Rightarrow> ('v, 'h) http_session list \<Rightarrow> ('v, 'h) http_session list" where
  "server_accept local_end ss = ss @ [server_OnAccept local_end]"

text \<open>A step of session number \<open>i\<close>. There are no callbacks, so no state they could change.\<close>

definition server_conn ::
  "('v, 'u) http_lib \<Rightarrow> ('v, 'h) http_session list \<Rightarrow> nat \<times> 'v http_event \<Rightarrow> ('v, 'h) http_session list \<Rightarrow> bool" where
  "server_conn lib ss e ss' \<longleftrightarrow> fst e < length ss \<and>
     (\<exists>s'. http_step lib (server_route_manager :: (('v, unit) callback, 'h) route_manager option)
        (ss ! fst e, ()) (snd e) (s', ()) \<and> ss' = ss[fst e := s'])"

definition idle_session :: "('v, 'h) http_session \<Rightarrow> bool" where
  "idle_session s \<longleftrightarrow> writes s = [] \<and> delivered s = [] \<and> response s = None"

interpretation idle: preserved "joint_step server_accept (\<lambda>s a. True) (server_conn lib)" "list_all idle_session"
  for lib
proof
  fix ss ss' e
  assume step: "joint_step server_accept (\<lambda>s a. True) (server_conn lib) ss e ss'"
    and idle: "list_all idle_session ss"
  from step show "list_all idle_session ss'"
  proof (cases rule: joint_step.cases)
    case (joint_accept socket)
    with idle show ?thesis
      by (simp add: server_accept_def idle_session_def server_OnAccept_def HttpSession_defs)
  next
    case (joint_conn e')
    then obtain s' where i: "fst e' < length ss" and ss': "ss' = ss[fst e' := s']"
      and st: "http_step lib server_route_manager (ss ! fst e', ()) (snd e') (s', ())"
      by (auto simp: server_conn_def)
    have "idle_session (ss ! fst e')" using idle i by (simp add: list_all_length)
    then have "idle_session s'"
      using server_session_idle [of lib "ss ! fst e'" "()" "[snd e']" s' "()"] st
      by (simp add: idle_session_def runs_Cons_iff)
    with idle show ?thesis
      unfolding ss' list_all_iff by (auto dest: set_update_subset_insert [THEN subsetD])
  qed
qed

text \<open>
  C36. The program \<open>simple_server\<close> accepts connections and answers none: in every run, one
  accept is outstanding and every connection has a session, but no session ever writes a
  response, and the arrival of a request on any of them, whatever it asks for, is
  undefined behaviour, because the route manager was never set.
\<close>

theorem simple_server_program:
  assumes "simple_server_main fail os argv = Serving l"
    and "runs (program_step fail server_accept (\<lambda>s a. True) (server_conn lib)) l es l'"
  shows "accepting l' = 1 \<and> acc_listening (acceptor l') \<and>
    (\<forall>s \<in> set (sub l'). writes s = [] \<and> delivered s = [] \<and>
      (\<exists>b. HttpSession_OnRead lib (server_route_manager :: (('v, unit) callback, 'h) route_manager option)
        (Got_request req) s () = Inl (Undefined b)))"
proof -
  obtain p where start: "program_inv fail server_accept (\<lambda>s a. True) (server_conn lib) [] (any_address, p) [] l"
    using assms(1) by (auto simp: simple_server_main_def elim: run_listener_Serving)
  have inv: "program_inv fail server_accept (\<lambda>s a. True) (server_conn lib) [] (any_address, p) es l'"
    using program.runs_establish [OF assms(2) start] .
  then have "list_all idle_session (sub l')"
    using idle.runs_preserve [of lib "[]" "joint_events es" "sub l'"] by (simp add: program_inv_def)
  with inv show ?thesis
    by (auto simp: program_inv_def list_all_iff idle_session_def HttpSession_OnRead_def OnRequest_eq
        server_route_manager_def split: option.split)
qed

theorem simple_server_program_witness:
  "\<exists>l l' :: (endpoint, (nat, nat) http_session list) listener.
     simple_server_main (\<lambda>ec what. what) (\<lambda>st. 0) [''simple_server''] = Serving l \<and>
     runs (program_step (\<lambda>ec what. what) server_accept (\<lambda>s a. True) (server_conn sample_lib)) l
       [Accept_done (Inr (''h'', 1)), Accept_done (Inr (''h'', 1))] l' \<and>
     length (sub l') = 2 \<and> (\<forall>s \<in> set (sub l'). writes s = [])"
proof -
  let ?fail = "\<lambda>(ec :: nat) (what :: string). what"
  let ?step = "program_step ?fail server_accept (\<lambda>s a. True) (server_conn sample_lib)"
  let ?l = "\<lparr>acceptor = \<lparr>acc_open = True, acc_reuse = True, acc_bound = Some (any_address, word_of_int 8888 :: 16 word),
    acc_listening = True\<rparr>, accepting = 1, ctx_stopped = False, log = [], sub = [] :: (nat, nat) http_session list\<rparr>"
  let ?acc = "\<lambda>l. OnAcceptContinue ?fail server_accept (Inr (''h'', 1)) (l\<lparr>accepting := 0\<rparr>)"
  have main: "simple_server_main ?fail (\<lambda>st. 0) [''simple_server''] = Serving ?l"
    by (simp add: simple_server_main_def simple_server_port_def run_listener_outcome)
  have accept: "?step l (Accept_done (Inr (''h'', 1))) (?acc l)"
    if "\<not> ctx_stopped l" "accepting l = 1" "acc_listening (acceptor l)" for l
    using that listener_step.accepted [of l 0 "Inr (''h'', 1)" ?fail server_accept "\<lambda>a. a"]
    by (auto intro: accept_done)
  have "?step ?l (Accept_done (Inr (''h'', 1))) (?acc ?l)"
    "?step (?acc ?l) (Accept_done (Inr (''h'', 1))) (?acc (?acc ?l))"
    by (intro accept; simp add: listener_defs)+
  then have run: "runs ?step ?l [Accept_done (Inr (''h'', 1)), Accept_done (Inr (''h'', 1))] (?acc (?acc ?l))"
    by (simp only: runs_Cons_iff runs_Nil_iff) blast
  from simple_server_program [OF main run] main run show ?thesis
    by (intro exI [of _ ?l] exI [of _ "?acc (?acc ?l)"]) (simp add: listener_defs server_accept_def)
qed

end
