(* ===== verification/Spec2Isabelle.thy ===== *)
theory Spec2Isabelle
  imports Prelude Deck Player Strand Game_Session Cpp_String Http_Common Route_Manager Http_Session
    Ws_Session Write_Buffers Simple_Game Game_Room Game_Exact Game_Dangling Game_Delivery Tcp_Listener Interfaces
    Simple_Server Tcp_Server Visit Visit_Macros Visit_Tests Repository_Tests File_Server Echo_Session Queue_Session
    Reference_Server Programs
begin

text \<open>
  A verification library of The Game: the C++ servers of a card game, built on Boost.Asio
  and Boost.Beast.

  \<^bold>\<open>The program and its parts.\<close> A listener (\<open>networking/tcp_listener_base\<close>) accepts
  connections. Each one gets an HTTP session (\<open>networking/http/http_session\<close>), which looks up
  the callback of a request in a route manager (\<open>networking/route_manager_base.hpp\<close>) that a
  builder has made, or hands an upgraded connection to a websocket session
  (\<open>networking/websocket/websocket_session\<close>). Two programs use them: \<open>apps/simple_game\<close>,
  which shares a state with all its websocket clients, and \<open>apps/simple_server\<close>, which holds
  the beginnings of the game itself: a game session that runs on two strands and player
  controllers. \<open>domain\<close> holds cards, decks and players; \<open>libs/visit\<close> is a library for
  visiting the members of objects. \<open>networking/.boostbeast.cpp\<close> is the reference server the
  networking classes were written after: an HTTP server of files with a bounded queue of
  responses, and a websocket session that echoes.

  \<^bold>\<open>Which theory models what.\<close>
  \<^item> \<open>Prelude\<close>: errors as values (\<open>cpp_error\<close>, with undefined behaviour as one of its cases,
    and \<open>'a res\<close>), the operations of \<open>std::unordered_map\<close> with their laws as the locale
    \<open>hash_map\<close>, runs of a step relation, and the locales \<open>trace_invariant\<close> (what a step keeps
    of the events so far and the state holds after every run), \<open>preserved\<close> (its case without
    events) and \<open>exhausting\<close> (steps that use up a measure end).
  \<^item> \<open>Deck\<close>: \<open>domain/Card.h\<close>, \<open>Deck.h\<close>, \<open>Deck.cpp\<close>. Values are 64-bit words; \<open>std::shuffle\<close> is the
    Fisher-Yates shuffle with its random choices as a parameter, and what its clients need
    is the locale \<open>shuffler\<close>.
  \<^item> \<open>Player\<close>: \<open>domain/Player.h\<close>; the static counter is explicit.
  \<^item> \<open>Strand\<close> and \<open>Game_Session\<close>: \<open>apps/simple_server/game_session.hpp\<close>. Each strand is a
    queue of posted handlers; a step runs the first handler of either strand, or is a call
    from outside, so a run is one interleaving.
  \<^item> \<open>Cpp_String\<close>: \<open>std::to_string\<close>, \<open>std::stoi\<close>, \<open>std::atoi\<close> and searches in strings.
  \<^item> \<open>Http_Common\<close>: \<open>networking/http/common.hpp\<close> and \<open>beast_utils.hpp\<close>.
  \<^item> \<open>Route_Manager\<close>: \<open>networking/route_manager_base.hpp\<close>, the manager and its builder.
  \<^item> \<open>Http_Session\<close>: \<open>networking/http/http_session.h\<close> and \<open>.cpp\<close>. The record holds the members
    and the operations under way; a step is the completion of a read or a write; the
    object is destroyed when no operation is left.
  \<^item> \<open>Ws_Session\<close>: \<open>networking/websocket\<close>. The handlers of an application reach other
    sessions, so the operations act on a store of session objects, in which an object
    lives as long as an operation or the application owns it. \<open>Write_Buffers\<close> adds the memory
    the writes under way read: the views of the write buffer, and when they become invalid.
  \<^item> \<open>Simple_Game\<close>: \<open>apps/simple_game/beast.cpp\<close>: callbacks, websocket handlers, timers, and
    the whole server as one step relation over all its connections. \<open>Game_Delivery\<close> follows
    what the server sends to the wire of each client; \<open>Game_Room\<close> is the abstract
    specification, a room with a state, members and members to be told later, with the function
    from the server's states to the room's and the mail of each member (what it was sent, what
    is under way to it, what its write buffer holds); \<open>Game_Exact\<close> is when that mail is exactly
    what the room told the member; \<open>Game_Dangling\<close> is what a failed read leaves behind.
  \<^item> \<open>Tcp_Listener\<close>: \<open>networking/tcp_listener_base.h\<close>, \<open>.cpp\<close> and \<open>net_utils.hpp\<close>.
  \<^item> \<open>Interfaces\<close>: the abstract classes \<open>SessionBase\<close> (\<open>networking/session_base.h\<close>) and
    \<open>INetworkServer\<close> as records of operations, and their contracts as locales that the models
    of the subclasses satisfy.
  \<^item> \<open>Simple_Server\<close>: \<open>apps/simple_server/main.cpp\<close>, \<open>websocket_player_controller.hpp\<close> and its
    interface \<open>player_controller_base.hpp\<close>;
    \<open>Tcp_Server\<close>: the listener of \<open>tcp_listener.hpp\<close> and \<open>.cpp\<close> beside them, with its routes and
    all its connections.
  \<^item> \<open>Programs\<close>: \<open>main\<close> of the two programs, from the command line to the listener and the
    interleaved steps of the listener and its connections.
  \<^item> \<open>Visit\<close>: \<open>libs/visit/visitable.hpp\<close> and \<open>visitor_base.hpp\<close>; \<open>Visit_Macros\<close>: the macros of
    \<open>property.hpp\<close> as lists of tokens, with the grammar of the function they spell.
  \<^item> \<open>Visit_Tests\<close> and \<open>Repository_Tests\<close>: the tests of the repository, their expectations
    proved for all values and inputs.
  \<^item> The reference server, \<open>networking/.boostbeast.cpp\<close>: \<open>File_Server\<close> has \<open>mime_type\<close>,
    \<open>path_cat\<close> and \<open>handle_request\<close>; \<open>Echo_Session\<close> the class \<open>websocket_session\<close>;
    \<open>Queue_Session\<close> the class \<open>http_session\<close>, with its queue and its write loop;
    \<open>Reference_Server\<close> the class \<open>listener\<close> and \<open>main\<close>.

  \<^bold>\<open>What is a parameter.\<close> Boost is not part of the repository. The verbs, the test for an
  upgrade, the URI parser, the preparation of a payload and what a moved-from response
  holds are the record \<open>http_lib\<close>; a \<open>flat_buffer\<close> is a record of operations whose laws are
  the locale \<open>flat_buffer\<close>, instantiated by buffers that are their bytes; the file system
  and the functions of Beast that the reference server calls are the record \<open>file_lib\<close>, with
  the laws of \<open>iequals\<close> and \<open>prepare_payload\<close> as locales; the results of
  reads, writes, accepts and socket operations come with the events; the order of a loop
  over an unordered map is the parameter \<open>order\<close>. Theorems hold for all of them.

  \<^bold>\<open>What the lemmas show.\<close>
  Decks: \<open>Build\<close> always returns, holds each of its cards once, excludes no order,
  and is dealt completely. Game sessions: the game logic is told of every membership in order,
  whatever the interleaving, and all interleavings end in the same state. Routes: the first
  route of a key answers. HTTP: as long as writes do not overlap a
  client gets exactly the answers of its requests, in their order (a refinement of a function
  of the requests alone), up to the one that closes the connection; at most one read is
  outstanding; pipelined requests put as many writes on the stream at once, which an upgrade
  among them gives up, and the last of them decides whether the connection is closed; a first
  target that is no URI is undefined. Websockets: sends that
  wait for each other deliver their messages; sends that do not repeat the messages before them,
  and a write then completes on a view that is no longer valid. Simple game: as long as no read
  fails other than by a close, the registry of clients never dangles, no handler fails, a new
  state reaches every client once and every request with a parsable target is answered; a failing
  read makes every broadcast undefined once its session is gone, until its key is used again. The server refines a room: every step is a step of the room, and a
  write is started exactly for what the room tells a member; writes overlap exactly when it
  tells something to a member to whom a write is under way, which any client brings about with
  two messages in a row; a client that is only told something when nothing is under way to it
  receives exactly what the room told it, each posted state among it. Listener: one accept is always outstanding. Programs: what the
  connections of a started program do is a run of the server of the other theorems; in the
  simple server of \<open>Tcp_Server\<close> every connection behaves as it would alone.
  Visitors: the macros declare the class's members in order; what is visited is the bracketed
  trace of the instance, the script its type determines, and a visitor that changes the values
  keeps the instance's type. Reference server: an answer reads no file outside the document
  root; whatever the interleaving, each connection is sent the answers to its own requests, in
  order, at most eight behind, with nothing after an answer that closes; no handler is undefined and no session stalls; a
  websocket session echoes in order.

  \<^bold>\<open>Bounds.\<close> Every definition is a total function or a step relation; there is no fuel. The
  loop of \<open>Deck::Build\<close> ends because \<open>push_back\<close> fails at the vector's \<open>max_size\<close>, which is a
  parameter. Counters keep their width: \<open>std::size_t\<close> is a 64-bit word, ports are 16-bit
  words, and the overflow of an \<open>int\<close> is an error.

  \<^bold>\<open>What is not modelled.\<close> Failed allocations other than \<open>push_back\<close>'s; the text written to
  standard output; a server on more than one thread (both programs run their context on
  one; the reference server's handlers of one session run on the session's strand, so its
  runs are sequences too); the order in which overlapping writes on one stream complete,
  which Beast does not allow: the model completes them in the order they were started, with
  the bytes they were started with. What is on the wire is only shown for runs without such
  writes (\<open>alone_step\<close> of \<open>Http_Session\<close>, \<open>paced_step\<close> of \<open>Game_Exact\<close>); \<open>Write_Buffers\<close> says when
  the bytes are no longer there, and \<open>SimpleGame_refines_room\<close>, which steps through overlapping
  writes too, tells which writes a step starts and ends. In the reference server, and in
  \<open>alone_step\<close>, a write on a socket that was shut down or handed over before it was started
  does not succeed. The end of the reference server by a signal is the status \<open>main\<close> then returns. The
  web client (TypeScript) and the build files are left out.
  What a connection still had under way when it was upgraded is given up; the servers' step
  relations drop it together with the HTTP session. No program of the repository creates a
  game session or a player controller, so their sends over the websockets of a running server
  have no code to follow: what they do is modelled from the calls of their operations on.
\<close>

end
